(* ===== verification/Prelude.thy ===== *)
theory Prelude
  imports Main "HOL-Library.AList" "HOL-Library.Sublist" "HOL-Library.Word"
begin

text \<open>
  Shared vocabulary of the development: the types the components have in common, the
  Rust standard-library operations the sources use (saturating arithmetic, the string
  methods, the association-list view of a hash map), the collections the component
  proofs draw on, and the generic lemmas that carry them.

  Unsigned 64-bit quantities that the sources only compare, count up by one or subtract
  with \<open>saturating_sub\<close> are \<open>nat\<close>: truncated subtraction on \<open>nat\<close> is exactly
  \<open>saturating_sub\<close>. Where a sum can saturate, \<open>sat_add\<close> writes the bound out.
  Strings are byte lists (\<open>string\<close>); the string methods below are the ASCII ones.
\<close>

named_theorems inv_intros "an operation keeps its component's invariant"
named_theorems model_simps "unfolding equations of the small definitions"

type_synonym u64 = nat
type_synonym pid = nat
type_synonym generation = "nat option"

subsection \<open>Integer operations of the standard library\<close>

definition u64_max :: nat where
  "u64_max = 18446744073709551615"

definition sat_add :: "nat \<Rightarrow> nat \<Rightarrow> nat" where
  "sat_add a b = min (a + b) u64_max"

definition abs_diff :: "nat \<Rightarrow> nat \<Rightarrow> nat" where
  "abs_diff a b = (if a < b then b - a else a - b)"

lemma sat_add_le [simp]: "sat_add a b \<le> u64_max"
  by (simp add: sat_add_def)

lemma sat_add_exact: "a + b \<le> u64_max \<Longrightarrow> sat_add a b = a + b"
  by (simp add: sat_add_def)

lemma sat_add_le_add: "sat_add a b \<le> a + b"
  by (simp add: sat_add_def)

lemma abs_diff_commute: "abs_diff a b = abs_diff b a"
  by (simp add: abs_diff_def)

lemma abs_diff_le_iff: "abs_diff a b \<le> w \<longleftrightarrow> a \<le> b + w \<and> b \<le> a + w"
  by (auto simp: abs_diff_def)

subsection \<open>String operations of the standard library\<close>

definition ascii_lower :: "char \<Rightarrow> char" where
  "ascii_lower c =
     (let n = (of_char c :: nat) in if 65 \<le> n \<and> n \<le> 90 then char_of (n + 32) else c)"

definition to_ascii_lowercase :: "string \<Rightarrow> string" where
  "to_ascii_lowercase s = map ascii_lower s"

definition eq_ignore_ascii_case :: "string \<Rightarrow> string \<Rightarrow> bool" where
  "eq_ignore_ascii_case a b \<longleftrightarrow> to_ascii_lowercase a = to_ascii_lowercase b"

fun starts_with :: "string \<Rightarrow> string \<Rightarrow> bool" where
  "starts_with s [] = True"
| "starts_with [] (p # ps) = False"
| "starts_with (c # s) (p # ps) = (c = p \<and> starts_with s ps)"

definition ends_with :: "string \<Rightarrow> string \<Rightarrow> bool" where
  "ends_with s p = starts_with (rev s) (rev p)"

fun contains :: "string \<Rightarrow> string \<Rightarrow> bool" where
  "contains [] p = (p = [])"
| "contains (c # s) p = (starts_with (c # s) p \<or> contains s p)"

text \<open>\<open>s.split(sep)\<close> for one character: at least one piece, the pieces between separators.\<close>

fun split_on :: "char \<Rightarrow> string \<Rightarrow> string list" where
  "split_on c [] = [[]]"
| "split_on c (x # xs) =
     (if x = c then [] # split_on c xs
      else (case split_on c xs of [] \<Rightarrow> [[x]] | p # ps \<Rightarrow> (x # p) # ps))"

text \<open>\<open>s.rsplit(sep).next().unwrap_or(s)\<close>: the piece after the last separator.\<close>

definition after_last :: "char \<Rightarrow> string \<Rightarrow> string" where
  "after_last c s = rev (takeWhile (\<lambda>x. x \<noteq> c) (rev s))"

lemma starts_with_prefix: "starts_with s p \<longleftrightarrow> prefix p s"
  by (induction s p rule: starts_with.induct) auto

lemma ends_with_suffix: "ends_with s p \<longleftrightarrow> suffix p s"
  by (simp add: ends_with_def starts_with_prefix suffix_to_prefix)

lemma contains_sublist: "contains s p \<longleftrightarrow> sublist p s"
  by (induction s) (auto simp: starts_with_prefix sublist_Cons_right)

lemma split_on_nonempty [simp]: "split_on c s \<noteq> []"
  by (induction s) (auto split: list.splits)

lemma split_on_no_sep: "p \<in> set (split_on c s) \<Longrightarrow> c \<notin> set p"
proof (induction s arbitrary: p)
  case (Cons x xs)
  then show ?case
    by (cases "split_on c xs") (auto split: if_splits)
qed simp

lemma after_last_no_sep: "c \<notin> set (after_last c s)"
  by (auto simp: after_last_def dest: set_takeWhileD)

lemma eq_ignore_ascii_case_refl [simp]: "eq_ignore_ascii_case s s"
  by (simp add: eq_ignore_ascii_case_def)

subsection \<open>Process incarnations\<close>

text \<open>
  \<open>same_generation\<close> is repeated in several crates (\<open>verdict\<close>, \<open>correlator\<close>,
  \<open>rules\<close>) with the same body: an unstamped side cannot disprove identity, two known
  and different stamps do.
\<close>

definition same_generation :: "generation \<Rightarrow> generation \<Rightarrow> bool" where
  "same_generation recorded wanted =
     (\<not> (case (recorded, wanted) of (Some a, Some b) \<Rightarrow> a \<noteq> b | _ \<Rightarrow> False))"

lemma same_generation_None [simp]:
  "same_generation None g" "same_generation g None"
  by (auto simp: same_generation_def split: option.splits)

lemma same_generation_Some [simp]: "same_generation (Some a) (Some b) \<longleftrightarrow> a = b"
  by (simp add: same_generation_def)

lemma same_generation_refl [simp]: "same_generation g g"
  by (cases g) auto

lemma same_generation_sym: "same_generation a b \<longleftrightarrow> same_generation b a"
  by (cases a; cases b) auto

lemma not_same_generationE:
  assumes "\<not> same_generation a b"
  obtains x y where "a = Some x" "b = Some y" "x \<noteq> y"
  using assms by (cases a; cases b) auto

subsection \<open>Lists\<close>

lemma distinct_map_filter: "distinct (map f xs) \<Longrightarrow> distinct (map f (filter P xs))"
  by (induction xs) auto

lemma length_filter_notin:
  "distinct xs \<Longrightarrow> distinct ys \<Longrightarrow> set ys \<subseteq> set xs \<Longrightarrow>
   length (filter (\<lambda>x. x \<notin> set ys) xs) = length xs - length ys"
proof -
  assume d: "distinct xs" "distinct ys" "set ys \<subseteq> set xs"
  have "length (filter (\<lambda>x. x \<notin> set ys) xs) = card (set xs - set ys)"
    using d(1) by (simp add: distinct_card [symmetric] set_diff_eq)
  also have "\<dots> = length xs - length ys"
    using d by (simp add: card_Diff_subset distinct_card)
  finally show ?thesis .
qed

lemma take_sorted_split:
  assumes "sorted (map f xs)" and "x \<in> set (take n xs)" and "y \<in> set (drop n xs)"
  shows "f x \<le> f y"
proof -
  have "sorted (map f (take n xs) @ map f (drop n xs))"
    using assms(1) by (simp flip: map_append)
  then show ?thesis using assms(2,3) by (auto simp: sorted_append)
qed

lemma length_tl_le_append: "length (if n < length (xs @ [x]) then tl (xs @ [x]) else xs @ [x]) \<le> max n (length xs)"
  by auto

subsection \<open>Hash maps as association lists\<close>

text \<open>
  A \<open>HashMap\<close> is an association list with distinct keys; the order of the list stands
  for the unspecified iteration order. \<open>AList.update\<close> is \<open>insert\<close>,
  \<open>AList.delete\<close> is \<open>remove\<close>, \<open>map_of\<close> is \<open>get\<close>.
\<close>

abbreviation wf_alist :: "('k \<times> 'v) list \<Rightarrow> bool" where
  "wf_alist al \<equiv> distinct (map fst al)"

lemma length_update:
  "length (AList.update k v al) = (if k \<in> fst ` set al then length al else Suc (length al))"
  by (induction al) auto

lemma delete_absent: "k \<notin> fst ` set al \<Longrightarrow> AList.delete k al = al"
  by (induction al) auto

lemma fst_image_update: "fst ` set (AList.update k v al) = insert k (fst ` set al)"
  by (induction al) auto

lemma set_update_eq:
  "wf_alist al \<Longrightarrow> set (AList.update k v al) = insert (k, v) {p \<in> set al. fst p \<noteq> k}"
  by (induction al) force+

end
