(* ===== verification/Decimal.thy ===== *)
theory Decimal
  imports Prelude
begin

text \<open>
  The text conversions of the standard library that the sources rely on: decimal
  formatting and parsing of unsigned integers (\<open>{n}\<close>, \<open>{n:012}\<close>,
  \<open>str::parse\<close>), \<open>strip_prefix\<close> and \<open>strip_suffix\<close>, and the splitting of a text
  into lines (\<open>str::lines\<close>), each with its round trip.
\<close>

subsection \<open>Decimal numbers\<close>

definition digit_char :: "nat \<Rightarrow> char" where
  "digit_char d = char_of (48 + d)"

definition char_digit :: "char \<Rightarrow> nat option" where
  "char_digit c = (let n = (of_char c :: nat) in if 48 \<le> n \<and> n \<le> 57 then Some (n - 48) else None)"

fun show_nat :: "nat \<Rightarrow> string" where
  "show_nat n = (if n < 10 then [digit_char n] else show_nat (n div 10) @ [digit_char (n mod 10)])"

declare show_nat.simps [simp del]

definition pad_zero :: "nat \<Rightarrow> string \<Rightarrow> string" where
  "pad_zero w s = replicate (w - length s) (digit_char 0) @ s"

fun read_digits :: "nat \<Rightarrow> string \<Rightarrow> nat option" where
  "read_digits acc [] = Some acc"
| "read_digits acc (c # cs) =
     (case char_digit c of None \<Rightarrow> None | Some d \<Rightarrow> read_digits (10 * acc + d) cs)"

text \<open>\<open>u64::from_str\<close>: an optional plus sign, at least one digit, no overflow.\<close>

definition parse_u64 :: "string \<Rightarrow> nat option" where
  "parse_u64 s =
     (let ds = (case s of [] \<Rightarrow> [] | c # cs \<Rightarrow> if c = CHR ''+'' then cs else s)
      in if ds = [] then None
         else case read_digits 0 ds of
                None \<Rightarrow> None
              | Some n \<Rightarrow> if n \<le> u64_max then Some n else None)"

lemma of_char_digit: "d < 10 \<Longrightarrow> (of_char (digit_char d) :: nat) = 48 + d"
  by (simp add: digit_char_def)

lemma char_digit_digit_char [simp]: "d < 10 \<Longrightarrow> char_digit (digit_char d) = Some d"
  by (simp add: char_digit_def of_char_digit Let_def)

lemma digit_char_neq:
  assumes "d < 10" and "(of_char c :: nat) < 48 \<or> 57 < (of_char c :: nat)"
  shows "digit_char d \<noteq> c"
  using of_char_digit [OF assms(1)] assms by auto

lemma show_nat_digits: "c \<in> set (show_nat n) \<Longrightarrow> \<exists>d < 10. c = digit_char d"
proof (induction n rule: show_nat.induct)
  case (1 n)
  then show ?case
    by (subst (asm) show_nat.simps) (auto split: if_splits intro: exI [of _ "n mod 10"])
qed

lemma show_nat_nonempty [simp]: "show_nat n \<noteq> []"
  by (subst show_nat.simps) simp

lemma read_digits_append:
  "read_digits acc (xs @ ys) = (case read_digits acc xs of None \<Rightarrow> None | Some a \<Rightarrow> read_digits a ys)"
  by (induction acc xs rule: read_digits.induct) (auto split: option.splits)

lemma read_digits_show_nat: "read_digits 0 (show_nat n) = Some n"
proof (induction n rule: show_nat.induct)
  case (1 n)
  show ?case
  proof (cases "n < 10")
    case True
    then show ?thesis by (subst show_nat.simps) simp
  next
    case False
    then show ?thesis
      using 1 by (subst show_nat.simps) (simp add: read_digits_append)
  qed
qed

lemma read_digits_zeros: "read_digits 0 (replicate k (digit_char 0) @ xs) = read_digits 0 xs"
  by (induction k) simp_all

lemma plus_not_digit: "d < 10 \<Longrightarrow> digit_char d \<noteq> CHR ''+''"
  by (rule digit_char_neq) simp_all

lemma pad_show_nat_digits:
  assumes "c \<in> set (pad_zero w (show_nat n))"
  shows "\<exists>d < 10. c = digit_char d"
proof -
  from assms consider "c = digit_char 0" | "c \<in> set (show_nat n)"
    by (auto simp: pad_zero_def split: if_splits)
  then show ?thesis
    by cases (auto intro: exI [of _ 0] show_nat_digits)
qed

lemma parse_pad_show_nat:
  assumes "n \<le> u64_max"
  shows "parse_u64 (pad_zero w (show_nat n)) = Some n"
proof -
  let ?s = "pad_zero w (show_nat n)"
  have "\<forall>c \<in> set ?s. c \<noteq> CHR ''+''"
    using pad_show_nat_digits plus_not_digit by metis
  moreover have ne: "?s \<noteq> []" by (simp add: pad_zero_def)
  ultimately have "(case ?s of [] \<Rightarrow> [] | c # cs \<Rightarrow> if c = CHR ''+'' then cs else ?s) = ?s"
    by (cases ?s) auto
  moreover have "read_digits 0 ?s = Some n"
    by (simp add: pad_zero_def read_digits_zeros read_digits_show_nat)
  ultimately show ?thesis
    using assms ne by (simp add: parse_u64_def Let_def)
qed

lemma parse_show_nat: "n \<le> u64_max \<Longrightarrow> parse_u64 (show_nat n) = Some n"
  using parse_pad_show_nat [of n 0] by (simp add: pad_zero_def)

subsection \<open>Prefixes and suffixes\<close>

fun strip_prefix :: "string \<Rightarrow> string \<Rightarrow> string option" where
  "strip_prefix s [] = Some s"
| "strip_prefix [] (p # ps) = None"
| "strip_prefix (c # s) (p # ps) = (if c = p then strip_prefix s ps else None)"

definition strip_suffix :: "string \<Rightarrow> string \<Rightarrow> string option" where
  "strip_suffix s p = map_option rev (strip_prefix (rev s) (rev p))"

lemma strip_prefix_append [simp]: "strip_prefix (p @ s) p = Some s"
  by (induction p) auto

lemma strip_suffix_append [simp]: "strip_suffix (s @ p) p = Some s"
  by (simp add: strip_suffix_def)

lemma strip_prefix_Some: "strip_prefix s p = Some r \<longleftrightarrow> s = p @ r"
  by (induction s p rule: strip_prefix.induct) auto

lemma strip_suffix_Some: "strip_suffix s p = Some r \<longleftrightarrow> s = r @ p"
  by (auto simp: strip_suffix_def strip_prefix_Some) (metis rev_append rev_rev_ident)

subsection \<open>Lines\<close>

abbreviation nl :: char where
  "nl \<equiv> CHR 0x0A"

abbreviation cr :: char where
  "cr \<equiv> CHR 0x0D"

definition strip_cr :: "string \<Rightarrow> string" where
  "strip_cr l = (if l \<noteq> [] \<and> last l = cr then butlast l else l)"

text \<open>A carriage return is part of the line end only before a newline: an unterminated last line keeps it.\<close>

definition lines_of :: "string \<Rightarrow> string list" where
  "lines_of s =
     (let ps = split_on nl s in map strip_cr (butlast ps) @ (if last ps = [] then [] else [last ps]))"

definition is_whitespace :: "char \<Rightarrow> bool" where
  "is_whitespace c = (c = CHR '' '' \<or> (9 \<le> (of_char c :: nat) \<and> (of_char c :: nat) \<le> 13))"

definition trim :: "string \<Rightarrow> string" where
  "trim s = rev (dropWhile is_whitespace (rev (dropWhile is_whitespace s)))"

definition is_blank :: "string \<Rightarrow> bool" where
  "is_blank l = list_all is_whitespace l"

text \<open>The encoding of a list of lines, each closed by a newline.\<close>

definition enc_lines :: "string list \<Rightarrow> string" where
  "enc_lines ls = concat (map (\<lambda>l. l @ [nl]) ls)"

definition good_line :: "string \<Rightarrow> bool" where
  "good_line l \<longleftrightarrow> nl \<notin> set l \<and> cr \<notin> set l \<and> \<not> is_blank l"

lemma split_on_no_sep_id: "c \<notin> set s \<Longrightarrow> split_on c s = [s]"
  by (induction s) auto

lemma split_on_append_sep: "split_on c (a @ c # b) = split_on c a @ split_on c b"
  by (induction a) (auto split: list.splits)

lemma split_on_append_piece:
  "c \<notin> set l \<Longrightarrow> split_on c (l @ c # b) = l # split_on c b"
  by (simp add: split_on_append_sep split_on_no_sep_id)

lemma enc_lines_simps [simp]:
  "enc_lines [] = []" "enc_lines (l # ls) = l @ nl # enc_lines ls"
  "enc_lines (ls @ ls') = enc_lines ls @ enc_lines ls'"
  by (simp_all add: enc_lines_def)

lemma split_on_enc_lines:
  "\<forall>l \<in> set ls. nl \<notin> set l \<Longrightarrow> split_on nl (enc_lines ls @ t) = ls @ split_on nl t"
  by (induction ls) (simp_all add: split_on_append_piece)

lemma strip_cr_id: "cr \<notin> set l \<Longrightarrow> strip_cr l = l"
  by (auto simp: strip_cr_def dest: last_in_set)

lemma lines_of_enc_torn:
  assumes "\<forall>l \<in> set ls. good_line l" and "nl \<notin> set t" and "cr \<notin> set t"
  shows "lines_of (enc_lines ls @ t) = ls @ (if t = [] then [] else [t])"
proof -
  have "map strip_cr ls = ls"
    using assms(1) by (intro map_idI) (simp add: good_line_def strip_cr_id)
  then show ?thesis
    using assms
    by (simp add: lines_of_def split_on_enc_lines good_line_def split_on_no_sep_id strip_cr_id)
qed

lemma lines_of_enc [simp]: "\<forall>l \<in> set ls. good_line l \<Longrightarrow> lines_of (enc_lines ls) = ls"
  using lines_of_enc_torn [of ls "[]"] by simp

end
