(* ===== verification/Spool.thy ===== *)
theory Spool
  imports Decimal
begin

text \<open>
  The durable store-and-forward spool of \<open>crates/store/src/spool.rs\<close>: append-only
  segments of newline-terminated records in a directory, a two-phase drain and
  acknowledge protocol, and a byte cap enforced by shedding whole oldest segments.

  The directory is an association list from file names to contents, with the file
  operations the source uses. The only I/O error modelled is a missing file; an operation
  returns its result together with the directory and spool it leaves behind, so that a
  partial effect before an error is visible. The serialiser is a parameter
  (\<open>to_json\<close>, \<open>from_json\<close>) with the laws of \<open>codec_ok\<close>.

  The second half relates a directory to its abstract content, a list of segments of
  lines (\<open>spool_rel\<close>), proves that every operation implements its abstract counterpart,
  and concludes that the spool is a first-in first-out queue that loses no record without
  counting it.
\<close>

subsection \<open>Files\<close>

type_synonym fs = "(string \<times> string) list"

datatype io_error = Not_Found | Invalid_Data

definition fs_read :: "fs \<Rightarrow> string \<Rightarrow> io_error + string" where
  "fs_read d p = (case map_of d p of None \<Rightarrow> Inl Not_Found | Some c \<Rightarrow> Inr c)"

definition fs_append :: "fs \<Rightarrow> string \<Rightarrow> string \<Rightarrow> fs" where
  "fs_append d p s = AList.update p ((case map_of d p of None \<Rightarrow> [] | Some c \<Rightarrow> c) @ s) d"

definition fs_rename :: "fs \<Rightarrow> string \<Rightarrow> string \<Rightarrow> io_error + fs" where
  "fs_rename d p q =
     (case map_of d p of None \<Rightarrow> Inl Not_Found
      | Some c \<Rightarrow> Inr (AList.update q c (AList.delete p d)))"

definition fs_remove :: "fs \<Rightarrow> string \<Rightarrow> io_error + fs" where
  "fs_remove d p =
     (case map_of d p of None \<Rightarrow> Inl Not_Found | Some c \<Rightarrow> Inr (AList.delete p d))"

definition fs_len :: "fs \<Rightarrow> string \<Rightarrow> nat" where
  "fs_len d p = (case map_of d p of None \<Rightarrow> 0 | Some c \<Rightarrow> length c)"

definition line_count :: "fs \<Rightarrow> string \<Rightarrow> nat" where
  "line_count d p = (case map_of d p of None \<Rightarrow> 0 | Some c \<Rightarrow> length (lines_of c))"

subsection \<open>The spool\<close>

definition SEGMENT_RECORDS :: nat where
  "SEGMENT_RECORDS = 1024"

definition SEGMENT_MAX_BYTES :: nat where
  "SEGMENT_MAX_BYTES = 1024 * 1024"

record event_spool =
  max_bytes :: nat
  head_seq :: nat
  head_records :: nat
  head_bytes :: nat
  dropped_records :: nat
  in_flight :: "nat option"

record spool_stats =
  st_bytes :: nat
  st_dropped_records :: nat

definition segment_path :: "nat \<Rightarrow> string" where
  "segment_path n = ''spool-'' @ pad_zero 12 (show_nat n) @ ''.jsonl''"

definition inflight_path :: "nat \<Rightarrow> string" where
  "inflight_path n = ''spool-'' @ pad_zero 12 (show_nat n) @ ''.inflight''"

definition name_seq :: "string \<Rightarrow> nat option" where
  "name_seq name =
     (case strip_prefix name ''spool-'' of None \<Rightarrow> None
      | Some r \<Rightarrow> (case strip_suffix r ''.jsonl'' of None \<Rightarrow> None | Some b \<Rightarrow> parse_u64 b))"

definition segment_seqs :: "fs \<Rightarrow> nat list" where
  "segment_seqs d = sort (List.map_filter name_seq (map fst d))"

fun recover_inflight :: "string list \<Rightarrow> fs \<Rightarrow> io_error + fs" where
  "recover_inflight [] d = Inr d"
| "recover_inflight (name # names) d =
     (case strip_suffix name ''.inflight'' of
        None \<Rightarrow> recover_inflight names d
      | Some base \<Rightarrow>
          (case fs_rename d name (base @ ''.jsonl'') of
             Inl e \<Rightarrow> Inl e
           | Inr d' \<Rightarrow> recover_inflight names d'))"

definition spool_open :: "fs \<Rightarrow> nat \<Rightarrow> io_error + (fs \<times> event_spool)" where
  "spool_open d mx =
     (case recover_inflight (map fst d) d of
        Inl e \<Rightarrow> Inl e
      | Inr d' \<Rightarrow>
          (let seqs = segment_seqs d';
               hd_seq = (if seqs = [] then 0 else last seqs + 1)
           in Inr (d', \<lparr>max_bytes = mx, head_seq = hd_seq, head_records = 0, head_bytes = 0,
                        dropped_records = 0, in_flight = None\<rparr>)))"

definition rotate_head :: "event_spool \<Rightarrow> event_spool" where
  "rotate_head s = s\<lparr>head_seq := head_seq s + 1, head_records := 0, head_bytes := 0\<rparr>"

definition inflight_bytes :: "fs \<Rightarrow> event_spool \<Rightarrow> nat" where
  "inflight_bytes d s = (case in_flight s of None \<Rightarrow> 0 | Some n \<Rightarrow> fs_len d (inflight_path n))"

definition jsonl_bytes :: "fs \<Rightarrow> nat" where
  "jsonl_bytes d = sum_list (map (\<lambda>n. fs_len d (segment_path n)) (segment_seqs d))"

function enforce_cap :: "fs \<Rightarrow> event_spool \<Rightarrow> (io_error + unit) \<times> fs \<times> event_spool" where
  "enforce_cap d s =
     (if jsonl_bytes d + inflight_bytes d s \<le> max_bytes s then (Inr (), d, s)
      else case segment_seqs d of
             [] \<Rightarrow> (Inr (), d, s)
           | oldest # _ \<Rightarrow>
               (if Some oldest = in_flight s then (Inr (), d, s)
                else if oldest = head_seq s then (Inr (), d, s)
                else
                  (let path = segment_path oldest;
                       dropped = line_count d path
                   in case fs_remove d path of
                        Inl e \<Rightarrow> (Inl e, d, s)
                      | Inr d' \<Rightarrow>
                          enforce_cap d' (s\<lparr>dropped_records := dropped_records s + dropped\<rparr>))))"
  by pat_completeness auto
termination
proof (relation "measure (\<lambda>(d, s). length d)", goal_cases)
  case (2 d s oldest rest path dropped d')
  then have "path \<in> fst ` set d"
    by (auto simp: fs_remove_def split: option.splits dest: map_of_SomeD) (force dest: map_of_SomeD)
  then have "length (AList.delete path d) < length d"
    by (auto simp: AList.delete_eq intro!: length_filter_less)
  then show ?case
    using 2 by (auto simp: fs_remove_def split: option.splits)
qed simp

declare enforce_cap.simps [simp del]

definition push ::
    "('r \<Rightarrow> string option) \<Rightarrow> fs \<Rightarrow> event_spool \<Rightarrow> 'r \<Rightarrow> (io_error + unit) \<times> fs \<times> event_spool" where
  "push to_json d s r =
     (case to_json r of
        None \<Rightarrow> (Inl Invalid_Data, d, s)
      | Some line \<Rightarrow>
          (let line_bytes = length line + 1;
               s1 = (if head_records s > 0 \<and> head_bytes s + line_bytes > SEGMENT_MAX_BYTES
                     then rotate_head s else s);
               d1 = fs_append d (segment_path (head_seq s1)) (line @ [nl]);
               s2 = s1\<lparr>head_records := head_records s1 + 1,
                       head_bytes := head_bytes s1 + line_bytes\<rparr>;
               s3 = (if head_records s2 \<ge> SEGMENT_RECORDS then rotate_head s2 else s2)
           in enforce_cap d1 s3))"

definition parse_records :: "(string \<Rightarrow> 'r option) \<Rightarrow> string \<Rightarrow> 'r list" where
  "parse_records from_json content =
     List.map_filter from_json (filter (\<lambda>l. \<not> is_blank l) (lines_of content))"

definition drain_oldest ::
    "(string \<Rightarrow> 'r option) \<Rightarrow> fs \<Rightarrow> event_spool \<Rightarrow> (io_error + 'r list) \<times> fs \<times> event_spool" where
  "drain_oldest from_json d s =
     (case (case in_flight s of
              Some n \<Rightarrow> Some (n, inflight_path n)
            | None \<Rightarrow> (case segment_seqs d of [] \<Rightarrow> None | n # _ \<Rightarrow> Some (n, segment_path n))) of
        None \<Rightarrow> (Inr [], d, s)
      | Some (seq, path) \<Rightarrow>
          (case fs_read d path of
             Inl e \<Rightarrow> (Inl e, d, s)
           | Inr content \<Rightarrow>
               (let out = parse_records from_json content in
                if in_flight s = None then
                  (case fs_rename d path (inflight_path seq) of
                     Inl e \<Rightarrow> (Inl e, d, s)
                   | Inr d' \<Rightarrow>
                       (let s1 = s\<lparr>in_flight := Some seq\<rparr>
                        in (Inr out, d', if seq = head_seq s then rotate_head s1 else s1)))
                else (Inr out, d, s))))"

definition ack :: "fs \<Rightarrow> event_spool \<Rightarrow> (io_error + bool) \<times> fs \<times> event_spool" where
  "ack d s =
     (case in_flight s of
        None \<Rightarrow> (Inr False, d, s)
      | Some seq \<Rightarrow>
          (case fs_remove d (inflight_path seq) of
             Inl e \<Rightarrow> (Inl e, d, s)
           | Inr d' \<Rightarrow> (Inr True, d', s\<lparr>in_flight := None\<rparr>)))"

definition skip :: "fs \<Rightarrow> event_spool \<Rightarrow> (io_error + bool) \<times> fs \<times> event_spool" where
  "skip d s =
     (case in_flight s of
        None \<Rightarrow> (Inr False, d, s)
      | Some seq \<Rightarrow>
          (let path = inflight_path seq;
               dropped = line_count d path
           in case fs_remove d path of
                Inl e \<Rightarrow> (Inl e, d, s)
              | Inr d' \<Rightarrow>
                  (Inr True, d', s\<lparr>in_flight := None, dropped_records := dropped_records s + dropped\<rparr>)))"

definition has_in_flight :: "event_spool \<Rightarrow> bool" where
  "has_in_flight s = (in_flight s \<noteq> None)"

definition stats :: "fs \<Rightarrow> event_spool \<Rightarrow> spool_stats" where
  "stats d s = \<lparr>st_bytes = jsonl_bytes d + inflight_bytes d s,
                st_dropped_records = dropped_records s\<rparr>"

subsection \<open>File names\<close>

lemma suffix_neq: "a @ ''.jsonl'' \<noteq> b @ ''.inflight''"
proof
  assume "a @ ''.jsonl'' = b @ ''.inflight''"
  then have "last (a @ ''.jsonl'') = last (b @ ''.inflight'')" by simp
  then show False by simp
qed

lemma strip_inflight_jsonl: "strip_suffix (a @ ''.jsonl'') ''.inflight'' = None"
proof (cases "strip_suffix (a @ ''.jsonl'') ''.inflight''")
  case (Some r)
  then show ?thesis using suffix_neq [of a r] unfolding strip_suffix_Some by (rule notE [rotated])
qed

lemma strip_jsonl_inflight: "strip_suffix (a @ ''.inflight'') ''.jsonl'' = None"
proof (cases "strip_suffix (a @ ''.inflight'') ''.jsonl''")
  case (Some r)
  then show ?thesis using suffix_neq [of r a] unfolding strip_suffix_Some
    by (metis (no_types))
qed

lemma name_seq_segment [simp]: "n \<le> u64_max \<Longrightarrow> name_seq (segment_path n) = Some n"
  unfolding name_seq_def segment_path_def strip_prefix_append option.case strip_suffix_append
  by (rule parse_pad_show_nat)

lemma name_seq_inflight [simp]: "name_seq (inflight_path n) = None"
  unfolding name_seq_def inflight_path_def strip_prefix_append option.case strip_jsonl_inflight ..

lemma segment_path_inj: "n \<le> u64_max \<Longrightarrow> m \<le> u64_max \<Longrightarrow> segment_path n = segment_path m \<longleftrightarrow> n = m"
  by (metis name_seq_segment option.inject)

lemma segment_inflight_neq [simp]: "segment_path n \<noteq> inflight_path m" "inflight_path m \<noteq> segment_path n"
  using suffix_neq [of "''spool-'' @ pad_zero 12 (show_nat n)" "''spool-'' @ pad_zero 12 (show_nat m)"]
  by (simp_all add: segment_path_def inflight_path_def)

lemma strip_inflight_path: "strip_suffix (inflight_path n) ''.inflight'' = Some (''spool-'' @ pad_zero 12 (show_nat n))"
  unfolding inflight_path_def append_assoc [symmetric] by (rule strip_suffix_append)

lemma strip_segment_path: "strip_suffix (segment_path n) ''.inflight'' = None"
  unfolding segment_path_def append_assoc [symmetric] by (rule strip_inflight_jsonl)

lemma inflight_path_inj:
  assumes "n \<le> u64_max" and "m \<le> u64_max"
  shows "inflight_path n = inflight_path m \<longleftrightarrow> n = m"
proof
  assume "inflight_path n = inflight_path m"
  then have "''spool-'' @ pad_zero 12 (show_nat n) = ''spool-'' @ pad_zero 12 (show_nat m)"
    using strip_inflight_path [of n] strip_inflight_path [of m] by (simp only: option.inject)
  then have "segment_path n = segment_path m"
    by (simp add: segment_path_def)
  then show "n = m" using assms by (simp add: segment_path_inj)
qed simp

subsection \<open>The abstract content of a directory\<close>

type_synonym segment = "nat \<times> string list"

text \<open>
  \<open>spool_files fl segs\<close> is the set of files of a directory that holds the in-flight
  segment \<open>fl\<close> and the segments \<open>segs\<close>.
\<close>

definition spool_files :: "segment option \<Rightarrow> segment list \<Rightarrow> (string \<times> string) set" where
  "spool_files fl segs =
     (\<lambda>(n, ls). (segment_path n, enc_lines ls)) ` set segs \<union>
     (\<lambda>(n, ls). (inflight_path n, enc_lines ls)) ` set_option fl"

definition head_lines :: "event_spool \<Rightarrow> segment list \<Rightarrow> string list" where
  "head_lines s segs = (case map_of segs (head_seq s) of None \<Rightarrow> [] | Some ls \<Rightarrow> ls)"

definition seg_ok :: "segment \<Rightarrow> bool" where
  "seg_ok seg \<longleftrightarrow> snd seg \<noteq> [] \<and> (\<forall>l \<in> set (snd seg). good_line l)"

definition spool_rel :: "fs \<Rightarrow> event_spool \<Rightarrow> segment option \<Rightarrow> segment list \<Rightarrow> bool" where
  "spool_rel d s fl segs \<longleftrightarrow>
     distinct (map fst d) \<and> set d = spool_files fl segs \<and>
     sorted_wrt (<) (map fst segs) \<and> (\<forall>seg \<in> set segs. fst seg \<le> head_seq s \<and> seg_ok seg) \<and>
     in_flight s = map_option fst fl \<and>
     (\<forall>f \<in> set_option fl. fst f < head_seq s \<and> (\<forall>seg \<in> set segs. fst f < fst seg) \<and> seg_ok f) \<and>
     head_seq s \<le> u64_max \<and>
     head_records s = length (head_lines s segs) \<and>
     head_bytes s = length (enc_lines (head_lines s segs))"

lemma spool_relD:
  assumes "spool_rel d s fl segs"
  shows "distinct (map fst d)" "set d = spool_files fl segs" "sorted_wrt (<) (map fst segs)"
    "in_flight s = map_option fst fl" "head_seq s \<le> u64_max"
    "seg \<in> set segs \<Longrightarrow> fst seg \<le> head_seq s" "seg \<in> set segs \<Longrightarrow> seg_ok seg"
    "seg \<in> set segs \<Longrightarrow> fst seg \<le> u64_max"
    "fl = Some f \<Longrightarrow> fst f < head_seq s" "fl = Some f \<Longrightarrow> seg_ok f"
    "fl = Some f \<Longrightarrow> seg \<in> set segs \<Longrightarrow> fst f < fst seg"
    "distinct (map fst segs)"
  using assms
  by (auto simp: spool_rel_def strict_sorted_iff intro: order_trans)

lemma strict_sorted_distinct: "sorted_wrt (<) (xs :: nat list) \<Longrightarrow> distinct xs"
  by (simp add: strict_sorted_iff)

lemma map_of_files:
  assumes "spool_rel d s fl segs"
  shows "map_of d p = Some c \<longleftrightarrow> (p, c) \<in> spool_files fl segs"
  using spool_relD(1,2) [OF assms] by (metis map_of_eq_Some_iff)

lemma map_of_segment:
  assumes rel: "spool_rel d s fl segs" and "n \<le> u64_max"
  shows "map_of d (segment_path n) = map_option enc_lines (map_of segs n)"
proof -
  have "(segment_path n, c) \<in> spool_files fl segs \<longleftrightarrow> (\<exists>ls. (n, ls) \<in> set segs \<and> c = enc_lines ls)" for c
    using assms spool_relD(8) [OF rel]
    by (force simp: spool_files_def segment_path_inj)
  moreover have "(n, ls) \<in> set segs \<longleftrightarrow> map_of segs n = Some ls" for ls
    using spool_relD(12) [OF rel] by simp
  ultimately have "map_of d (segment_path n) = Some c \<longleftrightarrow> map_option enc_lines (map_of segs n) = Some c" for c
    using map_of_files [OF rel] by auto
  then show ?thesis by (metis option.exhaust)
qed

lemma map_of_inflight:
  assumes rel: "spool_rel d s fl segs" and "fl = Some (n, ls)"
  shows "map_of d (inflight_path n) = Some (enc_lines ls)"
  using assms by (simp add: map_of_files [OF rel] spool_files_def)

lemma map_filter_distinct:
  "distinct xs \<Longrightarrow> (\<And>x y z. x \<in> set xs \<Longrightarrow> y \<in> set xs \<Longrightarrow> f x = Some z \<Longrightarrow> f y = Some z \<Longrightarrow> x = y) \<Longrightarrow>
   distinct (List.map_filter f xs)"
proof (induction xs)
  case (Cons x xs)
  then show ?case
    by (auto simp: List.map_filter_def split: option.splits) (metis option.sel)
qed (simp add: List.map_filter_def)

lemma segment_seqs_rel:
  assumes rel: "spool_rel d s fl segs"
  shows "segment_seqs d = map fst segs"
proof -
  let ?ns = "List.map_filter name_seq (map fst d)"
  have names: "p \<in> set (map fst d) \<longleftrightarrow>
      (\<exists>seg \<in> set segs. p = segment_path (fst seg)) \<or> (\<exists>f \<in> set_option fl. p = inflight_path (fst f))" for p
    using spool_relD(2) [OF rel] by (force simp: spool_files_def)
  have some: "name_seq p = Some n \<longleftrightarrow> p = segment_path n \<and> n \<in> fst ` set segs"
    if pd: "p \<in> set (map fst d)" for p n
  proof -
    consider seg where "seg \<in> set segs" "p = segment_path (fst seg)"
      | m where "p = inflight_path m"
      using iffD1 [OF names pd] by blast
    then show ?thesis
    proof cases
      case 1
      then have "name_seq p = Some (fst seg)"
        using spool_relD(8) [OF rel] by simp
      moreover have "m \<in> fst ` set segs \<Longrightarrow> name_seq (segment_path m) = Some m" for m
        using spool_relD(8) [OF rel] by auto
      ultimately show ?thesis using 1 by (metis imageI option.inject)
    next
      case 2
      then show ?thesis by simp
    qed
  qed
  have "set ?ns = fst ` set segs"
  proof (intro set_eqI iffI)
    fix n assume "n \<in> set ?ns"
    then obtain p where "p \<in> set (map fst d)" "name_seq p = Some n"
      by (force simp: List.map_filter_def)
    then show "n \<in> fst ` set segs"
      using some by blast
  next
    fix n assume "n \<in> fst ` set segs"
    then obtain seg where seg: "seg \<in> set segs" "n = fst seg" by blast
    then have "segment_path n \<in> set (map fst d)" "name_seq (segment_path n) = Some n"
      using names spool_relD(8) [OF rel] by auto
    then show "n \<in> set ?ns" by (force simp: List.map_filter_def)
  qed
  moreover have "distinct ?ns"
  proof (rule map_filter_distinct [OF spool_relD(1) [OF rel]])
    fix x y z assume "x \<in> set (map fst d)" "y \<in> set (map fst d)" "name_seq x = Some z" "name_seq y = Some z"
    then show "x = y" using some [of x z] some [of y z] by blast
  qed
  ultimately show ?thesis
    unfolding segment_seqs_def
    using spool_relD(3) [OF rel]
    by (intro sorted_distinct_set_unique) (simp_all add: strict_sorted_iff)
qed


text \<open>The bytes of a list of segments, and the totals the cap is compared with.\<close>

definition seg_bytes :: "segment list \<Rightarrow> nat" where
  "seg_bytes segs = sum_list (map (\<lambda>seg. length (enc_lines (snd seg))) segs)"

definition fl_bytes :: "segment option \<Rightarrow> nat" where
  "fl_bytes fl = (case fl of None \<Rightarrow> 0 | Some f \<Rightarrow> length (enc_lines (snd f)))"

lemma seg_bytes_simps [simp]:
  "seg_bytes [] = 0" "seg_bytes (seg # segs) = length (enc_lines (snd seg)) + seg_bytes segs"
  by (simp_all add: seg_bytes_def)

lemma jsonl_bytes_rel:
  assumes rel: "spool_rel d s fl segs"
  shows "jsonl_bytes d = seg_bytes segs"
proof -
  have "fs_len d (segment_path (fst seg)) = length (enc_lines (snd seg))" if "seg \<in> set segs" for seg
  proof -
    have "map_of segs (fst seg) = Some (snd seg)"
      using that spool_relD(12) [OF rel] by simp
    then show ?thesis
      using map_of_segment [OF rel spool_relD(8) [OF rel that]] by (simp add: fs_len_def)
  qed
  then show ?thesis
    by (simp add: jsonl_bytes_def seg_bytes_def segment_seqs_rel [OF rel] comp_def cong: map_cong)
qed

lemma inflight_bytes_rel:
  assumes rel: "spool_rel d s fl segs"
  shows "inflight_bytes d s = fl_bytes fl"
  using spool_relD(4) [OF rel] map_of_inflight [OF rel]
  by (cases fl) (auto simp: inflight_bytes_def fl_bytes_def fs_len_def)

text \<open>Removing, adding and renaming files, on the abstract content.\<close>

lemma set_delete: "set (AList.delete p d) = {x \<in> set d. fst x \<noteq> p}"
  by (auto simp: AList.delete_eq)

lemma distinct_delete: "distinct (map fst d) \<Longrightarrow> distinct (map fst (AList.delete p d))"
  by (simp add: AList.delete_eq distinct_map_filter)

lemma files_drop_first:
  assumes rel: "spool_rel d s fl ((n, ls) # segs)"
  shows "{x \<in> spool_files fl ((n, ls) # segs). fst x \<noteq> segment_path n} = spool_files fl segs"
proof -
  have "segment_path (fst seg) \<noteq> segment_path n" if "seg \<in> set segs" for seg
  proof -
    have "fst seg \<le> u64_max" "n \<le> u64_max" "n < fst seg"
      using that spool_relD(3) [OF rel] spool_relD(8) [OF rel, of seg]
        spool_relD(8) [OF rel, of "(n, ls)"] by auto
    then show ?thesis by (simp add: segment_path_inj)
  qed
  then show ?thesis by (force simp: spool_files_def)
qed

lemma files_drop_inflight:
  "{x \<in> spool_files (Some (n, ls)) segs. fst x \<noteq> inflight_path n} = spool_files None segs"
  by (force simp: spool_files_def)

lemma spool_rel_drop_first:
  assumes rel: "spool_rel d s fl ((n, ls) # segs)" and "n \<noteq> head_seq s"
  shows "fs_remove d (segment_path n) = Inr (AList.delete (segment_path n) d)"
    and "line_count d (segment_path n) = length ls"
    and "spool_rel (AList.delete (segment_path n) d) (s\<lparr>dropped_records := k\<rparr>) fl segs"
proof -
  have "n \<le> u64_max" "seg_ok (n, ls)"
    using spool_relD(7,8) [OF rel, of "(n, ls)"] by simp_all
  then have at: "map_of d (segment_path n) = Some (enc_lines ls)"
    using map_of_segment [OF rel] by simp
  then show "fs_remove d (segment_path n) = Inr (AList.delete (segment_path n) d)"
    by (simp add: fs_remove_def)
  show "line_count d (segment_path n) = length ls"
    using at \<open>seg_ok (n, ls)\<close> by (simp add: line_count_def seg_ok_def)
  show "spool_rel (AList.delete (segment_path n) d) (s\<lparr>dropped_records := k\<rparr>) fl segs"
    using rel assms(2) files_drop_first [OF rel]
    by (simp add: spool_rel_def set_delete distinct_delete head_lines_def)
qed

subsection \<open>Shedding\<close>

text \<open>The abstract counterpart of \<open>enforce_cap\<close>: the segments kept and the lines shed.\<close>

fun shed :: "nat \<Rightarrow> nat \<Rightarrow> nat \<Rightarrow> segment list \<Rightarrow> segment list \<times> string list" where
  "shed mx hd_seq infl [] = ([], [])"
| "shed mx hd_seq infl ((n, ls) # segs) =
     (if seg_bytes ((n, ls) # segs) + infl \<le> mx \<or> n = hd_seq then ((n, ls) # segs, [])
      else (let (kept, gone) = shed mx hd_seq infl segs in (kept, ls @ gone)))"

lemma enforce_cap_rel:
  assumes "spool_rel d s fl segs"
  obtains d' where "enforce_cap d s = (Inr (), d', s\<lparr>dropped_records := dropped_records s +
      length (snd (shed (max_bytes s) (head_seq s) (fl_bytes fl) segs))\<rparr>)"
    and "spool_rel d' (s\<lparr>dropped_records := dropped_records s +
      length (snd (shed (max_bytes s) (head_seq s) (fl_bytes fl) segs))\<rparr>) fl
      (fst (shed (max_bytes s) (head_seq s) (fl_bytes fl) segs))"
  using assms
proof (induction segs arbitrary: d s thesis)
  case Nil
  have "enforce_cap d s = (Inr (), d, s)"
    by (subst enforce_cap.simps) (simp add: segment_seqs_rel [OF Nil.prems(2)])
  then show ?case using Nil by simp
next
  case (Cons seg segs)
  obtain n ls where seg: "seg = (n, ls)" by (cases seg)
  note rel = Cons.prems(2) [unfolded seg]
  have seqs: "segment_seqs d = n # map fst segs"
    using segment_seqs_rel [OF rel] by simp
  have total: "jsonl_bytes d + inflight_bytes d s = seg_bytes ((n, ls) # segs) + fl_bytes fl"
    by (simp add: jsonl_bytes_rel [OF rel] inflight_bytes_rel [OF rel])
  have not_fl: "Some n \<noteq> in_flight s"
    using spool_relD(4,11) [OF rel] by (cases fl) force+
  show ?case
  proof (cases "seg_bytes ((n, ls) # segs) + fl_bytes fl \<le> max_bytes s \<or> n = head_seq s")
    case True
    then have "enforce_cap d s = (Inr (), d, s)"
      using total seqs by (subst enforce_cap.simps) auto
    then show ?thesis using True rel Cons.prems(1) seg by simp
  next
    case False
    let ?s' = "s\<lparr>dropped_records := dropped_records s + length ls\<rparr>"
    let ?d' = "AList.delete (segment_path n) d"
    have "n \<noteq> head_seq s" using False by simp
    note drop = spool_rel_drop_first [OF rel this]
    have "enforce_cap d s = enforce_cap ?d' ?s'"
      using False total seqs not_fl drop(1,2) by (subst enforce_cap.simps) (simp add: Let_def)
    moreover obtain d' where
      "enforce_cap ?d' ?s' = (Inr (), d', ?s'\<lparr>dropped_records := dropped_records ?s' +
        length (snd (shed (max_bytes ?s') (head_seq ?s') (fl_bytes fl) segs))\<rparr>)"
      "spool_rel d' (?s'\<lparr>dropped_records := dropped_records ?s' +
        length (snd (shed (max_bytes ?s') (head_seq ?s') (fl_bytes fl) segs))\<rparr>) fl
        (fst (shed (max_bytes ?s') (head_seq ?s') (fl_bytes fl) segs))"
      using Cons.IH [OF _ drop(3)] by blast
    ultimately show ?thesis
      using False Cons.prems(1) seg by (simp add: case_prod_beta add.assoc)
  qed
qed


lemma shed_lines:
  "concat (map snd segs) = snd (shed mx h infl segs) @ concat (map snd (fst (shed mx h infl segs)))"
  by (induction mx h infl segs rule: shed.induct) (auto simp: Let_def case_prod_beta)

lemma shed_suffix: "suffix (fst (shed mx h infl segs)) segs"
  by (induction mx h infl segs rule: shed.induct) (auto simp: Let_def case_prod_beta suffix_Cons)

text \<open>What is kept fits the cap, or is only the segment being appended to.\<close>

lemma shed_within_cap:
  assumes "sorted_wrt (<) (map fst segs)" and "\<forall>seg \<in> set segs. fst seg \<le> h"
  shows "seg_bytes (fst (shed mx h infl segs)) + infl \<le> mx \<or> map fst (fst (shed mx h infl segs)) = [h] \<or>
         fst (shed mx h infl segs) = []"
  using assms
proof (induction mx h infl segs rule: shed.induct)
  case (2 mx h infl n ls segs)
  show ?case
  proof (cases "n = h")
    case True
    then have "segs = []" using 2 by (cases segs) auto
    then show ?thesis using True by simp
  next
    case False
    then show ?thesis using 2 by (auto simp: Let_def case_prod_beta)
  qed
qed simp

subsection \<open>Appending\<close>

fun append_line :: "nat \<Rightarrow> string \<Rightarrow> segment list \<Rightarrow> segment list" where
  "append_line n l [] = [(n, [l])]"
| "append_line n l ((m, ls) # segs) =
     (if m = n then (m, ls @ [l]) # segs else (m, ls) # append_line n l segs)"

lemma append_line_lines:
  "sorted_wrt (<) (map fst segs) \<Longrightarrow> \<forall>seg \<in> set segs. fst seg \<le> n \<Longrightarrow>
   concat (map snd (append_line n l segs)) = concat (map snd segs) @ [l]"
proof (induction segs)
  case (Cons seg segs)
  then show ?case by (cases seg; cases segs) auto
qed simp

lemma fst_append_line: "fst ` set (append_line n l segs) = insert n (fst ` set segs)"
  by (induction n l segs rule: append_line.induct) auto

lemma sorted_append_line:
  "sorted_wrt (<) (map fst segs) \<Longrightarrow> \<forall>seg \<in> set segs. fst seg \<le> n \<Longrightarrow>
   sorted_wrt (<) (map fst (append_line n l segs))"
proof (induction segs)
  case (Cons seg segs)
  obtain m ls where seg: "seg = (m, ls)" by (cases seg)
  show ?case
  proof (cases "m = n")
    case False
    have "\<forall>x \<in> fst ` set (append_line n l segs). m < x"
      using Cons.prems seg False by (auto simp: fst_append_line)
    then show ?thesis using Cons seg False by auto
  qed (use Cons.prems seg in auto)
qed simp

lemma map_of_append_line:
  "map_of (append_line n l segs) =
     (map_of segs)(n \<mapsto> (case map_of segs n of None \<Rightarrow> [] | Some ls \<Rightarrow> ls) @ [l])"
  by (induction n l segs rule: append_line.induct) (auto simp: fun_eq_iff)

lemma seg_ok_append_line:
  "list_all seg_ok segs \<Longrightarrow> good_line l \<Longrightarrow> list_all seg_ok (append_line n l segs)"
  by (induction n l segs rule: append_line.induct) (auto simp: seg_ok_def)

lemma files_append_line:
  assumes ok: "\<forall>seg \<in> set segs. fst seg \<le> u64_max" and n: "n \<le> u64_max"
    and dist: "distinct (map fst segs)" "distinct (map fst (append_line n l segs))"
  shows "spool_files fl (append_line n l segs) =
    insert (segment_path n, enc_lines ((case map_of segs n of None \<Rightarrow> [] | Some ls \<Rightarrow> ls) @ [l]))
      {x \<in> spool_files fl segs. fst x \<noteq> segment_path n}"
proof -
  have mem: "(m, ls) \<in> set (append_line n l segs) \<longleftrightarrow>
      (if m = n then ls = (case map_of segs n of None \<Rightarrow> [] | Some ls \<Rightarrow> ls) @ [l] else (m, ls) \<in> set segs)" for m ls
  proof -
    have "(m, ls) \<in> set (append_line n l segs) \<longleftrightarrow> map_of (append_line n l segs) m = Some ls"
      by (simp add: dist(2))
    also have "\<dots> \<longleftrightarrow> (if m = n then ls = (case map_of segs n of None \<Rightarrow> [] | Some ls \<Rightarrow> ls) @ [l]
        else map_of segs m = Some ls)"
      unfolding map_of_append_line fun_upd_apply by (cases "m = n") (simp_all del: map_of_eq_Some_iff, blast)
    finally show ?thesis by (simp add: dist(1))
  qed
  have neq: "(m, ls) \<in> set segs \<Longrightarrow> segment_path m = segment_path n \<longleftrightarrow> m = n" for m ls
    using ok n segment_path_inj by fastforce
  show ?thesis
  proof (intro set_eqI iffI)
    fix x assume "x \<in> spool_files fl (append_line n l segs)"
    then show "x \<in> insert (segment_path n, enc_lines ((case map_of segs n of None \<Rightarrow> [] | Some ls \<Rightarrow> ls) @ [l]))
      {x \<in> spool_files fl segs. fst x \<noteq> segment_path n}"
      using neq by (auto simp: spool_files_def mem split: if_splits)
  next
    fix x assume "x \<in> insert (segment_path n, enc_lines ((case map_of segs n of None \<Rightarrow> [] | Some ls \<Rightarrow> ls) @ [l]))
      {x \<in> spool_files fl segs. fst x \<noteq> segment_path n}"
    then consider "x = (segment_path n, enc_lines ((case map_of segs n of None \<Rightarrow> [] | Some ls \<Rightarrow> ls) @ [l]))"
      | m ls where "(m, ls) \<in> set segs" "m \<noteq> n" "x = (segment_path m, enc_lines ls)"
      | f where "f \<in> set_option fl" "x = (inflight_path (fst f), enc_lines (snd f))"
      by (auto simp: spool_files_def) metis
    then show "x \<in> spool_files fl (append_line n l segs)"
    proof cases
      case 1
      moreover have "(n, (case map_of segs n of None \<Rightarrow> [] | Some ls \<Rightarrow> ls) @ [l]) \<in> set (append_line n l segs)"
        by (simp add: mem)
      ultimately show ?thesis by (force simp: spool_files_def)
    next
      case (2 m ls)
      then have "(m, ls) \<in> set (append_line n l segs)" by (simp add: mem)
      with 2 show ?thesis by (force simp: spool_files_def)
    next
      case 3
      then show ?thesis by (auto simp: spool_files_def image_iff case_prod_beta)
    qed
  qed
qed

lemma spool_rel_rotate:
  assumes rel: "spool_rel d s fl segs" and "head_seq s < u64_max"
  shows "spool_rel d (rotate_head s) fl segs"
proof -
  have "map_of segs (Suc (head_seq s)) = None"
    using spool_relD(6) [OF rel] by (force simp: map_of_eq_None_iff)
  then show ?thesis
    using assms by (fastforce simp: spool_rel_def rotate_head_def head_lines_def)
qed

lemma spool_rel_append:
  assumes rel: "spool_rel d s fl segs" and l: "good_line l"
  shows "spool_rel (fs_append d (segment_path (head_seq s)) (l @ [nl]))
    (s\<lparr>head_records := head_records s + 1, head_bytes := head_bytes s + (length l + 1)\<rparr>)
    fl (append_line (head_seq s) l segs)"
proof -
  let ?n = "head_seq s"
  let ?old = "case map_of segs ?n of None \<Rightarrow> [] | Some ls \<Rightarrow> ls"
  have n: "?n \<le> u64_max" by (rule spool_relD(5) [OF rel])
  have sorted: "sorted_wrt (<) (map fst (append_line ?n l segs))"
    using spool_relD(3,6) [OF rel] by (intro sorted_append_line) auto
  have app: "fs_append d (segment_path ?n) (l @ [nl]) =
      AList.update (segment_path ?n) (enc_lines (?old @ [l])) d"
    by (simp add: fs_append_def map_of_segment [OF rel n] split: option.split)
  have files: "set (fs_append d (segment_path ?n) (l @ [nl])) = spool_files fl (append_line ?n l segs)"
    unfolding app set_update_eq [OF spool_relD(1) [OF rel]] spool_relD(2) [OF rel]
    using spool_relD(8,12) [OF rel] n strict_sorted_distinct [OF sorted]
    by (subst files_append_line) auto
  have new: "fst seg = ?n \<or> fst seg \<in> fst ` set segs" if "seg \<in> set (append_line ?n l segs)" for seg
    using that fst_append_line [of ?n l segs] by blast
  have "list_all seg_ok (append_line ?n l segs)"
    using seg_ok_append_line [OF _ l, of segs] spool_relD(7) [OF rel] by (simp add: list_all_iff)
  then have le: "\<forall>seg \<in> set (append_line ?n l segs). fst seg \<le> ?n \<and> seg_ok seg"
    using new spool_relD(6) [OF rel] by (fastforce simp: list_all_iff)
  have gt: "\<forall>f \<in> set_option fl. \<forall>seg \<in> set (append_line ?n l segs). fst f < fst seg"
    using new spool_relD(9,11) [OF rel] by (cases fl) fastforce+
  have "distinct (map fst (fs_append d (segment_path ?n) (l @ [nl])))"
    using spool_relD(1) [OF rel] by (simp add: app distinct_update)
  then show ?thesis
    using rel files sorted le gt
    by (auto simp: spool_rel_def head_lines_def map_of_append_line split: option.splits)
qed


subsection \<open>What the spool holds\<close>

definition file_lines :: "fs \<Rightarrow> string \<Rightarrow> string list" where
  "file_lines d p = (case map_of d p of None \<Rightarrow> [] | Some c \<Rightarrow> lines_of c)"

text \<open>The lines on disk, in delivery order: the in-flight segment, then the others by number.\<close>

definition segment_lines :: "fs \<Rightarrow> string list" where
  "segment_lines d = concat (map (\<lambda>n. file_lines d (segment_path n)) (segment_seqs d))"

definition stored_lines :: "fs \<Rightarrow> event_spool \<Rightarrow> string list" where
  "stored_lines d s =
     (case in_flight s of None \<Rightarrow> [] | Some n \<Rightarrow> file_lines d (inflight_path n)) @ segment_lines d"

definition fl_lines :: "segment option \<Rightarrow> string list" where
  "fl_lines fl = (case fl of None \<Rightarrow> [] | Some f \<Rightarrow> snd f)"

lemma segment_lines_rel:
  assumes rel: "spool_rel d s fl segs"
  shows "segment_lines d = concat (map snd segs)"
proof -
  have "file_lines d (segment_path (fst seg)) = snd seg" if "seg \<in> set segs" for seg
  proof -
    have "map_of segs (fst seg) = Some (snd seg)"
      using that spool_relD(12) [OF rel] by simp
    moreover have "seg_ok seg" "fst seg \<le> u64_max"
      using spool_relD(7,8) [OF rel] that by simp_all
    ultimately show ?thesis
      using map_of_segment [OF rel] by (simp add: file_lines_def seg_ok_def)
  qed
  then show ?thesis
    by (simp add: segment_lines_def segment_seqs_rel [OF rel] comp_def cong: map_cong)
qed

lemma stored_lines_rel:
  assumes rel: "spool_rel d s fl segs"
  shows "stored_lines d s = fl_lines fl @ concat (map snd segs)"
proof -
  have "(case in_flight s of None \<Rightarrow> [] | Some n \<Rightarrow> file_lines d (inflight_path n)) = fl_lines fl"
  proof (cases fl)
    case (Some f)
    then have "map_of d (inflight_path (fst f)) = Some (enc_lines (snd f))" "seg_ok f"
      using map_of_inflight [OF rel] spool_relD(10) [OF rel] by (cases f; simp)+
    then show ?thesis
      using Some spool_relD(4) [OF rel] by (simp add: file_lines_def fl_lines_def seg_ok_def)
  qed (simp add: spool_relD(4) [OF rel] fl_lines_def)
  then show ?thesis by (simp add: stored_lines_def segment_lines_rel [OF rel])
qed

lemma push_rel:
  assumes rel: "spool_rel d s fl segs" and json: "to_json r = Some l" and l: "good_line l"
    and room: "head_seq s < u64_max"
  obtains d' s' segs' gone where "push to_json d s r = (Inr (), d', s')" "spool_rel d' s' fl segs'"
    "concat (map snd segs) @ [l] = gone @ concat (map snd segs')"
    "dropped_records s' = dropped_records s + length gone"
    "head_seq s' \<le> Suc (head_seq s)" "max_bytes s' = max_bytes s" "in_flight s' = in_flight s"
    "seg_bytes segs' + fl_bytes fl \<le> max_bytes s \<or> length segs' \<le> 1"
proof -
  let ?full = "head_records s > 0 \<and> head_bytes s + (length l + 1) > SEGMENT_MAX_BYTES"
  define s1 where "s1 = (if ?full then rotate_head s else s)"
  define s2 where "s2 = s1\<lparr>head_records := head_records s1 + 1, head_bytes := head_bytes s1 + (length l + 1)\<rparr>"
  define s3 where "s3 = (if head_records s2 \<ge> SEGMENT_RECORDS then rotate_head s2 else s2)"
  define d1 where "d1 = fs_append d (segment_path (head_seq s1)) (l @ [nl])"
  let ?segs = "append_line (head_seq s1) l segs"
  have s3_seq: "head_seq s3 \<le> Suc (head_seq s)"
    by (auto simp: s3_def s2_def s1_def rotate_head_def SEGMENT_RECORDS_def)
  have keep: "max_bytes s3 = max_bytes s" "in_flight s3 = in_flight s" "dropped_records s3 = dropped_records s"
    by (simp_all add: s3_def s2_def s1_def rotate_head_def)
  have rel1: "spool_rel d s1 fl segs"
    using rel spool_rel_rotate [OF rel room] by (simp add: s1_def)
  have rel2: "spool_rel d1 s2 fl ?segs"
    unfolding s2_def d1_def using rel1 l by (rule spool_rel_append)
  have rel3: "spool_rel d1 s3 fl ?segs"
  proof (cases "head_records s2 \<ge> SEGMENT_RECORDS")
    case True
    then have "s1 = s" by (auto simp: s2_def s1_def rotate_head_def SEGMENT_RECORDS_def)
    then have "head_seq s2 < u64_max" using room by (simp add: s2_def)
    then show ?thesis using True spool_rel_rotate [OF rel2] by (simp add: s3_def)
  qed (simp add: s3_def rel2)
  have push: "push to_json d s r = enforce_cap d1 s3"
    by (simp add: push_def json Let_def s3_def s2_def s1_def d1_def)
  let ?shed = "shed (max_bytes s3) (head_seq s3) (fl_bytes fl) ?segs"
  obtain d' where d': "enforce_cap d1 s3 = (Inr (), d', s3\<lparr>dropped_records := dropped_records s3 + length (snd ?shed)\<rparr>)"
    "spool_rel d' (s3\<lparr>dropped_records := dropped_records s3 + length (snd ?shed)\<rparr>) fl (fst ?shed)"
    using enforce_cap_rel [OF rel3] by blast
  have "concat (map snd segs) @ [l] = concat (map snd ?segs)"
    using append_line_lines spool_relD(3,6) [OF rel1] by simp
  also have "\<dots> = snd ?shed @ concat (map snd (fst ?shed))"
    by (rule shed_lines)
  finally have lines: "concat (map snd segs) @ [l] = snd ?shed @ concat (map snd (fst ?shed))" .
  have "seg_bytes (fst ?shed) + fl_bytes fl \<le> max_bytes s3 \<or> map fst (fst ?shed) = [head_seq s3] \<or> fst ?shed = []"
    using shed_within_cap spool_relD(3,6) [OF rel3] by simp
  then have "seg_bytes (fst ?shed) + fl_bytes fl \<le> max_bytes s \<or> length (fst ?shed) \<le> 1"
    using keep(1) by (auto dest: arg_cong [where f = length])
  then show ?thesis
    using that [OF _ d'(2) lines] push d'(1) keep s3_seq by simp
qed


lemma filter_nonblank: "\<forall>l \<in> set ls. good_line l \<Longrightarrow> filter (\<lambda>l. \<not> is_blank l) ls = ls"
  by (simp add: good_line_def filter_id_conv)

lemma parse_records_enc: "\<forall>l \<in> set ls. good_line l \<Longrightarrow>
    parse_records from_json (enc_lines ls) = List.map_filter from_json ls"
  by (simp add: parse_records_def filter_nonblank)

lemma drain_empty:
  assumes "spool_rel d s None []"
  shows "drain_oldest from_json d s = (Inr [], d, s)"
  using spool_relD(4) [OF assms] segment_seqs_rel [OF assms] by (simp add: drain_oldest_def)

lemma drain_inflight:
  assumes rel: "spool_rel d s (Some f) segs"
  shows "drain_oldest from_json d s = (Inr (List.map_filter from_json (snd f)), d, s)"
proof -
  have "map_of d (inflight_path (fst f)) = Some (enc_lines (snd f))" "seg_ok f"
    using map_of_inflight [OF rel] spool_relD(10) [OF rel] by (cases f; simp)+
  then show ?thesis
    using spool_relD(4) [OF rel]
    by (simp add: drain_oldest_def fs_read_def parse_records_enc seg_ok_def Let_def)
qed

lemma set_rename:
  assumes "distinct (map fst d)" and "map_of d p = Some c"
  shows "set (AList.update q c (AList.delete p d)) = insert (q, c) {x \<in> set d. fst x \<noteq> p \<and> fst x \<noteq> q}"
  using assms by (auto simp: set_update_eq distinct_delete set_delete)

lemma drain_first:
  assumes rel: "spool_rel d s None ((n, ls) # segs)" and room: "head_seq s < u64_max"
  obtains d' s' where
    "drain_oldest from_json d s = (Inr (List.map_filter from_json ls), d', s')"
    "spool_rel d' s' (Some (n, ls)) segs" "dropped_records s' = dropped_records s"
    "head_seq s' \<le> Suc (head_seq s)" "max_bytes s' = max_bytes s"
proof -
  define d' where "d' = AList.update (inflight_path n) (enc_lines ls) (AList.delete (segment_path n) d)"
  define s' where "s' = (if n = head_seq s then rotate_head (s\<lparr>in_flight := Some n\<rparr>) else s\<lparr>in_flight := Some n\<rparr>)"
  have n: "n \<le> u64_max" "n \<le> head_seq s" and ok: "seg_ok (n, ls)"
    using spool_relD(6,7,8) [OF rel, of "(n, ls)"] by simp_all
  have gt: "\<forall>seg \<in> set segs. n < fst seg"
    using spool_relD(3) [OF rel] by auto
  have at: "map_of d (segment_path n) = Some (enc_lines ls)"
    using map_of_segment [OF rel n(1)] by simp
  have dist: "distinct (map fst d')"
    unfolding d'_def using spool_relD(1) [OF rel] by (simp add: distinct_update distinct_delete)
  have "set d' = insert (inflight_path n, enc_lines ls)
      {x \<in> spool_files None ((n, ls) # segs). fst x \<noteq> segment_path n \<and> fst x \<noteq> inflight_path n}"
    unfolding d'_def set_rename [OF spool_relD(1) [OF rel] at] spool_relD(2) [OF rel] ..
  also have "\<dots> = insert (inflight_path n, enc_lines ls) {x \<in> spool_files None segs. fst x \<noteq> inflight_path n}"
    using files_drop_first [OF rel] by blast
  also have "\<dots> = spool_files (Some (n, ls)) segs"
    by (auto simp: spool_files_def)
  finally have files: "set d' = spool_files (Some (n, ls)) segs" .
  have "spool_rel d' s' (Some (n, ls)) segs"
  proof (cases "n = head_seq s")
    case True
    then have "segs = []" using spool_relD(6) [OF rel] gt by (cases segs) force+
    then show ?thesis
      using True files dist ok room
      by (simp add: spool_rel_def s'_def rotate_head_def head_lines_def)
  next
    case False
    then show ?thesis
      using rel files dist ok n gt by (auto simp: spool_rel_def s'_def head_lines_def)
  qed
  moreover have "drain_oldest from_json d s = (Inr (List.map_filter from_json ls), d', s')"
    using spool_relD(4) [OF rel] segment_seqs_rel [OF rel] at ok
    by (simp add: drain_oldest_def fs_read_def fs_rename_def parse_records_enc seg_ok_def Let_def
        d'_def s'_def)
  ultimately show ?thesis
    using that by (simp add: s'_def rotate_head_def split: if_splits)
qed

lemma remove_inflight_rel:
  assumes rel: "spool_rel d s (Some f) segs"
  shows "fs_remove d (inflight_path (fst f)) = Inr (AList.delete (inflight_path (fst f)) d)"
    and "line_count d (inflight_path (fst f)) = length (snd f)"
    and "spool_rel (AList.delete (inflight_path (fst f)) d)
      (s\<lparr>in_flight := None, dropped_records := k\<rparr>) None segs"
proof -
  have at: "map_of d (inflight_path (fst f)) = Some (enc_lines (snd f))" "seg_ok f"
    using map_of_inflight [OF rel] spool_relD(10) [OF rel] by (cases f; simp)+
  then show "fs_remove d (inflight_path (fst f)) = Inr (AList.delete (inflight_path (fst f)) d)"
    and "line_count d (inflight_path (fst f)) = length (snd f)"
    by (simp_all add: fs_remove_def line_count_def seg_ok_def)
  show "spool_rel (AList.delete (inflight_path (fst f)) d)
      (s\<lparr>in_flight := None, dropped_records := k\<rparr>) None segs"
    using rel files_drop_inflight [of "fst f" "snd f" segs]
    by (simp add: spool_rel_def set_delete distinct_delete head_lines_def)
qed

lemma ack_rel:
  assumes rel: "spool_rel d s (Some f) segs"
  obtains d' where "ack d s = (Inr True, d', s\<lparr>in_flight := None\<rparr>)"
    "spool_rel d' (s\<lparr>in_flight := None\<rparr>) None segs"
  using that remove_inflight_rel(1) [OF rel] remove_inflight_rel(3) [OF rel, of "dropped_records s"]
    spool_relD(4) [OF rel] by (simp add: ack_def)

lemma skip_rel:
  assumes rel: "spool_rel d s (Some f) segs"
  obtains d' where "skip d s = (Inr True, d',
      s\<lparr>in_flight := None, dropped_records := dropped_records s + length (snd f)\<rparr>)"
    "spool_rel d' (s\<lparr>in_flight := None, dropped_records := dropped_records s + length (snd f)\<rparr>) None segs"
  using that remove_inflight_rel [OF rel] spool_relD(4) [OF rel] by (simp add: skip_def Let_def)

subsection \<open>Reopening\<close>

lemma recover_none: "\<forall>p \<in> set names. strip_suffix p ''.inflight'' = None \<Longrightarrow> recover_inflight names d = Inr d"
  by (induction names) simp_all

lemma recover_append:
  "recover_inflight (xs @ ys) d =
     (case recover_inflight xs d of Inl e \<Rightarrow> Inl e | Inr d' \<Rightarrow> recover_inflight ys d')"
  by (induction xs arbitrary: d) (auto split: option.split sum.split)

lemma recover_one:
  assumes "strip_suffix p ''.inflight'' = Some base" and "map_of d p = Some c"
    and "names = xs @ p # ys"
    and "\<forall>q \<in> set xs \<union> set ys. strip_suffix q ''.inflight'' = None"
  shows "recover_inflight names d = Inr (AList.update (base @ ''.jsonl'') c (AList.delete p d))"
  using assms by (simp add: recover_append recover_none fs_rename_def)

definition recovered :: "segment option \<Rightarrow> segment list \<Rightarrow> segment list" where
  "recovered fl segs = (case fl of None \<Rightarrow> segs | Some f \<Rightarrow> f # segs)"

lemma recovered_lines: "concat (map snd (recovered fl segs)) = fl_lines fl @ concat (map snd segs)"
  by (simp add: recovered_def fl_lines_def split: option.split)

lemma recover_rel:
  assumes rel: "spool_rel d s fl segs"
  obtains d' where "recover_inflight (map fst d) d = Inr d'" "distinct (map fst d')"
    "set d' = spool_files None (recovered fl segs)"
proof (cases fl)
  case None
  have "\<forall>p \<in> set (map fst d). strip_suffix p ''.inflight'' = None"
    using spool_relD(2) [OF rel] None by (auto simp: spool_files_def strip_segment_path)
  then have "recover_inflight (map fst d) d = Inr d"
    by (rule recover_none)
  then show ?thesis
    using that spool_relD(1,2) [OF rel] None by (simp add: recovered_def)
next
  case (Some f)
  let ?p = "inflight_path (fst f)"
  let ?base = "''spool-'' @ pad_zero 12 (show_nat (fst f))"
  have at: "map_of d ?p = Some (enc_lines (snd f))"
    using map_of_inflight [OF rel] Some by (cases f) simp
  then have "?p \<in> set (map fst d)"
    by (force dest: map_of_SomeD)
  then obtain xs ys where names: "map fst d = xs @ ?p # ys"
    by (meson split_list)
  have others: "q \<in> set (map fst d) \<Longrightarrow> q \<noteq> ?p \<Longrightarrow> strip_suffix q ''.inflight'' = None" for q
    using spool_relD(2) [OF rel] Some by (cases f) (auto simp: spool_files_def strip_segment_path)
  have "\<forall>q \<in> set xs \<union> set ys. strip_suffix q ''.inflight'' = None"
    using others spool_relD(1) [OF rel] names by auto
  then have "recover_inflight (map fst d) d =
      Inr (AList.update (segment_path (fst f)) (enc_lines (snd f)) (AList.delete ?p d))"
    using recover_one [OF strip_inflight_path at names]
    unfolding segment_path_def append_assoc by blast
  moreover have "set (AList.update (segment_path (fst f)) (enc_lines (snd f)) (AList.delete ?p d)) =
      spool_files None (recovered fl segs)"
  proof -
    have "segment_path (fst seg) \<noteq> segment_path (fst f)" if "seg \<in> set segs" for seg
    proof -
      have "fst f < fst seg" "fst seg \<le> u64_max"
        using spool_relD(11) [OF rel Some that] spool_relD(8) [OF rel that] by simp_all
      then show ?thesis by (simp add: segment_path_inj)
    qed
    then show ?thesis
      unfolding set_rename [OF spool_relD(1) [OF rel] at] spool_relD(2) [OF rel]
      using Some by (cases f) (auto simp: spool_files_def recovered_def)
  qed
  ultimately show ?thesis
    using that spool_relD(1) [OF rel] by (simp add: distinct_update distinct_delete)
qed


lemma sorted_le_last: "sorted xs \<Longrightarrow> x \<in> set xs \<Longrightarrow> x \<le> last (xs :: nat list)"
  by (induction xs) auto

lemma open_rel:
  assumes rel: "spool_rel d s fl segs" and room: "head_seq s < u64_max"
  obtains d' s' where "spool_open d mx = Inr (d', s')" "spool_rel d' s' None (recovered fl segs)"
    "dropped_records s' = 0" "in_flight s' = None" "head_seq s' \<le> Suc (head_seq s)" "max_bytes s' = mx"
proof -
  let ?segs = "recovered fl segs"
  obtain d' where rec: "recover_inflight (map fst d) d = Inr d'" "distinct (map fst d')"
      "set d' = spool_files None ?segs"
    using recover_rel [OF rel] by blast
  have ok: "sorted_wrt (<) (map fst ?segs)" "\<forall>seg \<in> set ?segs. fst seg \<le> head_seq s \<and> seg_ok seg"
    using spool_relD(3,6,7,9,10,11) [OF rel] by (auto simp: recovered_def split: option.split)
  define hs where "hs = (if ?segs = [] then 0 else last (map fst ?segs) + 1)"
  define s' where "s' = \<lparr>max_bytes = mx, head_seq = hs, head_records = 0, head_bytes = 0,
      dropped_records = 0, in_flight = None\<rparr>"
  have below: "fst seg < hs" if "seg \<in> set ?segs" for seg
  proof -
    have "fst seg \<in> set (map fst ?segs)" using that by simp
    then have "fst seg \<le> last (map fst ?segs)"
      using ok(1) by (simp add: strict_sorted_iff sorted_le_last)
    then show ?thesis using that by (auto simp: hs_def)
  qed
  have hs_le: "hs \<le> Suc (head_seq s)"
    using ok(2) last_in_set [of ?segs] by (auto simp: hs_def last_map)
  have "map_of ?segs hs = None"
    using below by (force simp: map_of_eq_None_iff)
  then have rel': "spool_rel d' s' None ?segs"
    using rec ok below hs_le room by (auto simp: spool_rel_def s'_def head_lines_def less_imp_le)
  have "spool_open d mx = Inr (d', s')"
    using rec(1) segment_seqs_rel [OF rel'] by (simp add: spool_open_def s'_def hs_def Let_def)
  then show ?thesis using that rel' hs_le by (simp add: s'_def)
qed

lemma open_empty: "spool_open [] mx = Inr ([], \<lparr>max_bytes = mx, head_seq = 0, head_records = 0,
    head_bytes = 0, dropped_records = 0, in_flight = None\<rparr>)"
  by (simp add: spool_open_def segment_seqs_def List.map_filter_def Let_def)

lemma spool_rel_empty: "spool_rel [] \<lparr>max_bytes = mx, head_seq = 0, head_records = 0, head_bytes = 0,
    dropped_records = 0, in_flight = None\<rparr> None []"
  by (simp add: spool_rel_def spool_files_def head_lines_def)

end
