(* ===== verification/SpoolLedger.thy ===== *)
theory SpoolLedger
  imports Spool
begin

text \<open>
  What a client of the spool of \<open>crates/store/src/spool.rs\<close> may rely on. A client's run
  is any sequence of pushes, drains, acknowledgements, skips and crashes; a ledger
  records what the client saw. The simulation of the previous theory carries the
  invariant that every pushed record is acknowledged, still stored, or counted as dropped.
\<close>

subsection \<open>Every record is delivered, held or counted\<close>

text \<open>
  The laws of the serialiser the spool relies on: a serialised record is one non-blank
  line without line breaks, and it parses back to the record.
\<close>

definition codec_ok :: "('r \<Rightarrow> string option) \<Rightarrow> (string \<Rightarrow> 'r option) \<Rightarrow> bool" where
  "codec_ok to_json from_json \<longleftrightarrow>
     (\<forall>r l. to_json r = Some l \<longrightarrow> good_line l \<and> from_json l = Some r)"

text \<open>
  A client's run: the operations of the spool in any order, with a crash and reopening
  between any two of them. The ledger records what the client can see: the records it
  pushed successfully, the records of its last drain, the records whose segment it
  acknowledged, and the losses the spool had counted before each crash.
\<close>

datatype 'r spool_op = Push 'r | Drain | Ack | Skip | Reopen

record 'r ledger =
  pushed :: "'r list"
  pending :: "'r list"
  acked :: "'r list"
  lost_before :: nat

type_synonym 'r spool_state = "fs \<times> event_spool \<times> 'r ledger"

fun spool_exec :: "('r \<Rightarrow> string option) \<Rightarrow> (string \<Rightarrow> 'r option) \<Rightarrow> 'r spool_state \<Rightarrow> 'r spool_op \<Rightarrow> 'r spool_state" where
  "spool_exec to_json from_json (d, s, g) (Push r) =
     (case push to_json d s r of
        (Inr _, d', s') \<Rightarrow> (d', s', g\<lparr>pushed := pushed g @ [r]\<rparr>)
      | (Inl _, d', s') \<Rightarrow> (d', s', g))"
| "spool_exec to_json from_json (d, s, g) Drain =
     (case drain_oldest from_json d s of
        (Inr out, d', s') \<Rightarrow> (d', s', g\<lparr>pending := out\<rparr>)
      | (Inl _, d', s') \<Rightarrow> (d', s', g))"
| "spool_exec to_json from_json (d, s, g) Ack =
     (case ack d s of
        (Inr True, d', s') \<Rightarrow> (d', s', g\<lparr>acked := acked g @ pending g, pending := []\<rparr>)
      | (_, d', s') \<Rightarrow> (d', s', g))"
| "spool_exec to_json from_json (d, s, g) Skip =
     (case skip d s of
        (Inr True, d', s') \<Rightarrow> (d', s', g\<lparr>pending := []\<rparr>)
      | (_, d', s') \<Rightarrow> (d', s', g))"
| "spool_exec to_json from_json (d, s, g) Reopen =
     (case spool_open d (max_bytes s) of
        Inr (d', s') \<Rightarrow> (d', s', g\<lparr>pending := [], lost_before := lost_before g + dropped_records s\<rparr>)
      | Inl _ \<Rightarrow> (d, s, g))"

definition stored_records :: "(string \<Rightarrow> 'r option) \<Rightarrow> fs \<Rightarrow> event_spool \<Rightarrow> 'r list" where
  "stored_records from_json d s = List.map_filter from_json (stored_lines d s)"

definition ledger_inv :: "('r \<Rightarrow> string option) \<Rightarrow> (string \<Rightarrow> 'r option) \<Rightarrow> 'r spool_state \<Rightarrow> nat \<Rightarrow> bool" where
  "ledger_inv to_json from_json st k \<longleftrightarrow>
     (case st of (d, s, g) \<Rightarrow> \<exists>fl segs rs.
        spool_rel d s fl segs \<and> head_seq s \<le> k \<and>
        map Some (fl_lines fl @ concat (map snd segs)) = map to_json rs \<and>
        subseq (acked g @ rs) (pushed g) \<and>
        length (pushed g) = length (acked g) + length rs + lost_before g + dropped_records s \<and>
        (fl \<noteq> None \<longrightarrow> map Some (fl_lines fl) = map to_json (pending g)))"

lemma codec_decode:
  assumes "codec_ok to_json from_json" and "map Some ls = map to_json rs"
  shows "List.map_filter from_json ls = rs"
  using assms(2)
proof (induction ls arbitrary: rs)
  case (Cons l ls)
  then obtain r rs' where rs: "rs = r # rs'" by (cases rs) auto
  then have "from_json l = Some r"
    using Cons.prems assms(1) by (simp add: codec_ok_def)
  then show ?case using Cons rs by (simp add: List.map_filter_simps)
qed (simp add: List.map_filter_def)


lemma map_to_json_append:
  assumes "map Some (a @ b) = map to_json rs"
  obtains ra rb where "rs = ra @ rb" "map Some a = map to_json ra" "map Some b = map to_json rb"
  using assms by (metis append_eq_map_conv map_append)

lemma ledger_invE:
  assumes "ledger_inv to_json from_json (d, s, g) k"
  obtains fl segs ra rb where "spool_rel d s fl segs" "head_seq s \<le> k"
    "map Some (fl_lines fl) = map to_json ra" "map Some (concat (map snd segs)) = map to_json rb"
    "subseq (acked g @ ra @ rb) (pushed g)"
    "length (pushed g) = length (acked g) + length ra + length rb + lost_before g + dropped_records s"
    "fl \<noteq> None \<longrightarrow> map Some (fl_lines fl) = map to_json (pending g)"
proof -
  obtain fl segs rs where a: "spool_rel d s fl segs" "head_seq s \<le> k"
    "map Some (fl_lines fl @ concat (map snd segs)) = map to_json rs"
    "subseq (acked g @ rs) (pushed g)"
    "length (pushed g) = length (acked g) + length rs + lost_before g + dropped_records s"
    "fl \<noteq> None \<longrightarrow> map Some (fl_lines fl) = map to_json (pending g)"
    using assms by (auto simp: ledger_inv_def)
  from a(3) obtain ra rb where b: "rs = ra @ rb" "map Some (fl_lines fl) = map to_json ra"
      "map Some (concat (map snd segs)) = map to_json rb"
    by (rule map_to_json_append)
  show ?thesis
    by (rule that [OF a(1,2) b(2,3)]) (use a b in simp_all)
qed

lemma ledger_invI:
  assumes "spool_rel d s fl segs" "head_seq s \<le> k"
    "map Some (fl_lines fl) = map to_json ra" "map Some (concat (map snd segs)) = map to_json rb"
    "subseq (acked g @ ra @ rb) (pushed g)"
    "length (pushed g) = length (acked g) + length ra + length rb + lost_before g + dropped_records s"
    "fl \<noteq> None \<Longrightarrow> map Some (fl_lines fl) = map to_json (pending g)"
  shows "ledger_inv to_json from_json (d, s, g) k"
  unfolding ledger_inv_def prod.case
  by (rule exI [of _ fl], rule exI [of _ segs], rule exI [of _ "ra @ rb"]) (use assms in simp)

lemma ledger_inv_mono: "ledger_inv to_json from_json st k \<Longrightarrow> k \<le> k' \<Longrightarrow> ledger_inv to_json from_json st k'"
  by (fastforce simp: ledger_inv_def split: prod.splits)

lemma ledger_push:
  assumes codec: "codec_ok to_json from_json" and inv: "ledger_inv to_json from_json (d, s, g) k"
    and room: "k < u64_max"
  shows "ledger_inv to_json from_json (spool_exec to_json from_json (d, s, g) (Push r)) (Suc k)"
proof (cases "to_json r")
  case None
  then show ?thesis using ledger_inv_mono [OF inv] by (simp add: push_def)
next
  case (Some l)
  obtain fl segs ra rb where a: "spool_rel d s fl segs" "head_seq s \<le> k"
    "map Some (fl_lines fl) = map to_json ra" "map Some (concat (map snd segs)) = map to_json rb"
    "subseq (acked g @ ra @ rb) (pushed g)"
    "length (pushed g) = length (acked g) + length ra + length rb + lost_before g + dropped_records s"
    "fl \<noteq> None \<longrightarrow> map Some (fl_lines fl) = map to_json (pending g)"
    by (rule ledger_invE [OF inv])
  have good: "good_line l" using codec Some by (simp add: codec_ok_def)
  have free: "head_seq s < u64_max" using a(2) room by simp
  obtain d' s' segs' gone where p: "push to_json d s r = (Inr (), d', s')"
    "spool_rel d' s' fl segs'" "concat (map snd segs) @ [l] = gone @ concat (map snd segs')"
    "dropped_records s' = dropped_records s + length gone" "head_seq s' \<le> Suc (head_seq s)"
    "max_bytes s' = max_bytes s" "in_flight s' = in_flight s"
    "seg_bytes segs' + fl_bytes fl \<le> max_bytes s \<or> length segs' \<le> 1"
    by (rule push_rel [where to_json = to_json and r = r, OF a(1) Some good free])
  have "map Some (gone @ concat (map snd segs')) = map to_json (rb @ [r])"
    using a(4) Some p(3) [symmetric] by simp
  then obtain rg rk where b: "rb @ [r] = rg @ rk" "map Some gone = map to_json rg"
      "map Some (concat (map snd segs')) = map to_json rk"
    by (rule map_to_json_append)
  have "subseq (acked g @ ra @ rk) (acked g @ ra @ rg @ rk)"
    by (intro list_emb_append_mono) (auto intro: list_emb_append2)
  also have "acked g @ ra @ rg @ rk = (acked g @ ra @ rb) @ [r]"
    using b(1) by (metis append.assoc)
  also have "subseq \<dots> (pushed g @ [r])"
    using a(5) by (intro list_emb_append_mono) auto
  finally have sub: "subseq (acked g @ ra @ rk) (pushed g @ [r])" .
  have len: "length rb + 1 = length gone + length rk"
    using arg_cong [OF b(1), of length] arg_cong [OF b(2), of length] by simp
  show ?thesis
    unfolding spool_exec.simps p(1) prod.case sum.case
    by (rule ledger_invI [OF p(2) _ a(3) b(3)]) (use a(2,6,7) p(4,5) sub len in auto)
qed

lemma ledger_drain:
  assumes codec: "codec_ok to_json from_json" and inv: "ledger_inv to_json from_json (d, s, g) k"
    and room: "k < u64_max"
  shows "ledger_inv to_json from_json (spool_exec to_json from_json (d, s, g) Drain) (Suc k)"
proof -
  obtain fl segs ra rb where a: "spool_rel d s fl segs" "head_seq s \<le> k"
    "map Some (fl_lines fl) = map to_json ra" "map Some (concat (map snd segs)) = map to_json rb"
    "subseq (acked g @ ra @ rb) (pushed g)"
    "length (pushed g) = length (acked g) + length ra + length rb + lost_before g + dropped_records s"
    "fl \<noteq> None \<longrightarrow> map Some (fl_lines fl) = map to_json (pending g)"
    by (rule ledger_invE [OF inv])
  consider (held) f where "fl = Some f" | (empty) "fl = None" "segs = []"
    | (first) n ls rest where "fl = None" "segs = (n, ls) # rest"
    by (metis neq_Nil_conv option.exhaust prod.exhaust)
  then show ?thesis
  proof cases
    case held
    have "List.map_filter from_json (snd f) = pending g"
      using codec_decode [OF codec] a(7) held by (simp add: fl_lines_def)
    then show ?thesis
      using drain_inflight [OF a(1) [unfolded held], of from_json] ledger_inv_mono [OF inv, of "Suc k"]
      by simp
  next
    case empty
    show ?thesis
      unfolding spool_exec.simps drain_empty [OF a(1) [unfolded empty]] prod.case sum.case
      by (rule ledger_invI [OF a(1) _ a(3,4)]) (use a empty in simp_all)
  next
    case first
    have free: "head_seq s < u64_max" using a(2) room by simp
    obtain d' s' where p: "drain_oldest from_json d s = (Inr (List.map_filter from_json ls), d', s')"
      "spool_rel d' s' (Some (n, ls)) rest" "dropped_records s' = dropped_records s"
      "head_seq s' \<le> Suc (head_seq s)" "max_bytes s' = max_bytes s"
      by (rule drain_first [where from_json = from_json, OF a(1) [unfolded first] free])
    have "ra = []" using a(3) first by (simp add: fl_lines_def)
    have "map Some (ls @ concat (map snd rest)) = map to_json rb"
      using a(4) first by simp
    then obtain r1 r2 where b: "rb = r1 @ r2" "map Some ls = map to_json r1"
        "map Some (concat (map snd rest)) = map to_json r2"
      by (rule map_to_json_append)
    have dec: "List.map_filter from_json ls = r1"
      using codec_decode [OF codec b(2)] .
    show ?thesis
      unfolding spool_exec.simps p(1) prod.case sum.case dec
      by (rule ledger_invI [where ra = r1, OF p(2) _ _ b(3)])
         (use a(2,5,6) b p(3,4) \<open>ra = []\<close> in \<open>simp_all add: fl_lines_def\<close>)
  qed
qed

lemma ledger_ack:
  assumes codec: "codec_ok to_json from_json" and inv: "ledger_inv to_json from_json (d, s, g) k"
  shows "ledger_inv to_json from_json (spool_exec to_json from_json (d, s, g) Ack) k"
proof -
  obtain fl segs ra rb where a: "spool_rel d s fl segs" "head_seq s \<le> k"
    "map Some (fl_lines fl) = map to_json ra" "map Some (concat (map snd segs)) = map to_json rb"
    "subseq (acked g @ ra @ rb) (pushed g)"
    "length (pushed g) = length (acked g) + length ra + length rb + lost_before g + dropped_records s"
    "fl \<noteq> None \<longrightarrow> map Some (fl_lines fl) = map to_json (pending g)"
    by (rule ledger_invE [OF inv])
  show ?thesis
  proof (cases fl)
    case None
    then show ?thesis using inv spool_relD(4) [OF a(1)] by (simp add: ack_def)
  next
    case (Some f)
    have "ra = pending g"
      using codec_decode [OF codec a(3)] codec_decode [OF codec, of "fl_lines fl" "pending g"] a(7) Some
      by simp
    moreover obtain d' where p: "ack d s = (Inr True, d', s\<lparr>in_flight := None\<rparr>)"
        "spool_rel d' (s\<lparr>in_flight := None\<rparr>) None segs"
      by (rule ack_rel [OF a(1) [unfolded Some]])
    ultimately show ?thesis
      unfolding spool_exec.simps p(1) prod.case sum.case bool.case
      by (intro ledger_invI [where ra = "[]", OF p(2) _ _ a(4)]) (use a(2,5,6) in \<open>simp_all add: fl_lines_def\<close>)
  qed
qed

lemma ledger_skip:
  assumes codec: "codec_ok to_json from_json" and inv: "ledger_inv to_json from_json (d, s, g) k"
  shows "ledger_inv to_json from_json (spool_exec to_json from_json (d, s, g) Skip) k"
proof -
  obtain fl segs ra rb where a: "spool_rel d s fl segs" "head_seq s \<le> k"
    "map Some (fl_lines fl) = map to_json ra" "map Some (concat (map snd segs)) = map to_json rb"
    "subseq (acked g @ ra @ rb) (pushed g)"
    "length (pushed g) = length (acked g) + length ra + length rb + lost_before g + dropped_records s"
    "fl \<noteq> None \<longrightarrow> map Some (fl_lines fl) = map to_json (pending g)"
    by (rule ledger_invE [OF inv])
  show ?thesis
  proof (cases fl)
    case None
    then show ?thesis using inv spool_relD(4) [OF a(1)] by (simp add: skip_def)
  next
    case (Some f)
    let ?s' = "s\<lparr>in_flight := None, dropped_records := dropped_records s + length (snd f)\<rparr>"
    have len: "length (snd f) = length ra"
      using arg_cong [OF a(3), of length] Some by (simp add: fl_lines_def)
    obtain d' where p: "skip d s = (Inr True, d', ?s')" "spool_rel d' ?s' None segs"
      by (rule skip_rel [OF a(1) [unfolded Some]])
    have sub: "subseq (acked g @ rb) (pushed g)"
    proof (rule subseq_order.trans [OF _ a(5)])
      show "subseq (acked g @ rb) (acked g @ ra @ rb)"
        by (intro list_emb_append_mono) (auto intro: list_emb_append2)
    qed
    show ?thesis
      unfolding spool_exec.simps p(1) prod.case sum.case bool.case
      by (rule ledger_invI [where ra = "[]", OF p(2) _ _ a(4)])
         (use a(2,6) len sub in \<open>simp_all add: fl_lines_def\<close>)
  qed
qed

lemma ledger_reopen:
  assumes inv: "ledger_inv to_json from_json (d, s, g) k" and room: "k < u64_max"
  shows "ledger_inv to_json from_json (spool_exec to_json from_json (d, s, g) Reopen) (Suc k)"
proof -
  obtain fl segs ra rb where a: "spool_rel d s fl segs" "head_seq s \<le> k"
    "map Some (fl_lines fl) = map to_json ra" "map Some (concat (map snd segs)) = map to_json rb"
    "subseq (acked g @ ra @ rb) (pushed g)"
    "length (pushed g) = length (acked g) + length ra + length rb + lost_before g + dropped_records s"
    "fl \<noteq> None \<longrightarrow> map Some (fl_lines fl) = map to_json (pending g)"
    by (rule ledger_invE [OF inv])
  have free: "head_seq s < u64_max" using a(2) room by simp
  obtain d' s' where p: "spool_open d (max_bytes s) = Inr (d', s')" "spool_rel d' s' None (recovered fl segs)"
    "dropped_records s' = 0" "in_flight s' = None" "head_seq s' \<le> Suc (head_seq s)"
    "max_bytes s' = max_bytes s"
    by (rule open_rel [where mx = "max_bytes s", OF a(1) free])
  have rec: "map Some (concat (map snd (recovered fl segs))) = map to_json (ra @ rb)"
    using a(3,4) by (simp add: recovered_lines)
  show ?thesis
    unfolding spool_exec.simps p(1) prod.case sum.case
    by (rule ledger_invI [where ra = "[]" and rb = "ra @ rb", OF p(2) _ _ rec])
       (use a(2,5,6) p(3,5) in \<open>simp_all add: fl_lines_def\<close>)
qed

subsection \<open>Runs\<close>

lemma ledger_step:
  assumes "codec_ok to_json from_json" "ledger_inv to_json from_json st k" "k < u64_max"
  shows "ledger_inv to_json from_json (spool_exec to_json from_json st op) (Suc k)"
proof -
  obtain d s g where st: "st = (d, s, g)" by (cases st)
  note inv = assms(2) [unfolded st]
  show ?thesis
    unfolding st
    using ledger_push [OF assms(1) inv assms(3)] ledger_drain [OF assms(1) inv assms(3)]
      ledger_ack [OF assms(1) inv] ledger_skip [OF assms(1) inv] ledger_reopen [OF inv assms(3)]
      ledger_inv_mono [of to_json from_json _ k "Suc k"]
    by (cases op) simp_all
qed

lemma ledger_steps:
  assumes "codec_ok to_json from_json"
  shows "ledger_inv to_json from_json st k \<Longrightarrow> k + length ops \<le> u64_max \<Longrightarrow>
    ledger_inv to_json from_json (foldl (spool_exec to_json from_json) st ops) (k + length ops)"
proof (induction ops arbitrary: st k)
  case (Cons op ops)
  then show ?case
    using ledger_step [OF assms, of st k op] Cons.IH [of "spool_exec to_json from_json st op" "Suc k"]
    by simp
qed simp

definition empty_ledger :: "'r ledger" where
  "empty_ledger = \<lparr>pushed = [], pending = [], acked = [], lost_before = 0\<rparr>"

text \<open>A run from a fresh directory; \<open>None\<close> when the spool cannot be opened.\<close>

definition spool_run ::
    "('r \<Rightarrow> string option) \<Rightarrow> (string \<Rightarrow> 'r option) \<Rightarrow> nat \<Rightarrow> 'r spool_op list \<Rightarrow> 'r spool_state option" where
  "spool_run to_json from_json mx ops =
     (case spool_open [] mx of
        Inl _ \<Rightarrow> None
      | Inr (d, s) \<Rightarrow> Some (foldl (spool_exec to_json from_json) (d, s, empty_ledger) ops))"

lemma spool_run_inv:
  assumes "codec_ok to_json from_json" "length ops \<le> u64_max"
  obtains d s g where "spool_run to_json from_json mx ops = Some (d, s, g)"
    "ledger_inv to_json from_json (d, s, g) (length ops)"
proof -
  let ?s0 = "\<lparr>max_bytes = mx, head_seq = 0, head_records = 0, head_bytes = 0, dropped_records = 0,
    in_flight = None\<rparr>"
  let ?fin = "foldl (spool_exec to_json from_json) ([], ?s0, empty_ledger) ops"
  have "ledger_inv to_json from_json ([], ?s0, empty_ledger) 0"
    by (rule ledger_invI [where ra = "[]" and rb = "[]", OF spool_rel_empty])
       (simp_all add: fl_lines_def empty_ledger_def)
  then have inv: "ledger_inv to_json from_json ?fin (length ops)"
    using ledger_steps [OF assms(1), where k = 0] assms(2) by fastforce
  obtain d s g where e: "?fin = (d, s, g)" by (cases ?fin)
  show ?thesis
    by (rule that) (use inv e in \<open>simp_all add: spool_run_def open_empty\<close>)
qed

lemma ledger_inv_stored:
  assumes codec: "codec_ok to_json from_json" and inv: "ledger_inv to_json from_json (d, s, g) k"
  shows "subseq (acked g @ stored_records from_json d s) (pushed g)"
    and "length (pushed g) = length (acked g) + length (stored_records from_json d s) + lost_before g + dropped_records s"
proof -
  obtain fl segs ra rb where a: "spool_rel d s fl segs" "head_seq s \<le> k"
    "map Some (fl_lines fl) = map to_json ra" "map Some (concat (map snd segs)) = map to_json rb"
    "subseq (acked g @ ra @ rb) (pushed g)"
    "length (pushed g) = length (acked g) + length ra + length rb + lost_before g + dropped_records s"
    "fl \<noteq> None \<longrightarrow> map Some (fl_lines fl) = map to_json (pending g)"
    by (rule ledger_invE [OF inv])
  have "map Some (fl_lines fl @ concat (map snd segs)) = map to_json (ra @ rb)"
    using a(3,4) by simp
  then have "stored_records from_json d s = ra @ rb"
    using codec_decode [OF codec] by (simp add: stored_records_def stored_lines_rel [OF a(1)])
  then show "subseq (acked g @ stored_records from_json d s) (pushed g)"
    and "length (pushed g) = length (acked g) + length (stored_records from_json d s) + lost_before g + dropped_records s"
    using a(5,6) by simp_all
qed

lemma spool_run_rel:
  assumes "codec_ok to_json from_json" "length ops < u64_max"
  obtains d s g fl segs where "spool_run to_json from_json mx ops = Some (d, s, g)"
    "spool_rel d s fl segs" "head_seq s < u64_max"
    "\<forall>l \<in> set (fl_lines fl @ concat (map snd segs)). \<exists>r. to_json r = Some l \<and> from_json l = Some r"
proof -
  have "length ops \<le> u64_max" using assms(2) by simp
  then obtain d s g where run: "spool_run to_json from_json mx ops = Some (d, s, g)"
    and inv: "ledger_inv to_json from_json (d, s, g) (length ops)"
    by (rule spool_run_inv [OF assms(1)])
  obtain fl segs ra rb where a: "spool_rel d s fl segs" "head_seq s \<le> length ops"
    "map Some (fl_lines fl) = map to_json ra" "map Some (concat (map snd segs)) = map to_json rb"
    "subseq (acked g @ ra @ rb) (pushed g)"
    "length (pushed g) = length (acked g) + length ra + length rb + lost_before g + dropped_records s"
    "fl \<noteq> None \<longrightarrow> map Some (fl_lines fl) = map to_json (pending g)"
    by (rule ledger_invE [OF inv])
  have "map Some (fl_lines fl @ concat (map snd segs)) = map to_json (ra @ rb)"
    using a(3,4) by simp
  then have "Some ` set (fl_lines fl @ concat (map snd segs)) = to_json ` set (ra @ rb)"
    by (metis list.set_map)
  then have "\<exists>r. to_json r = Some l" if "l \<in> set (fl_lines fl @ concat (map snd segs))" for l
    using that by (metis image_eqI imageE)
  then show ?thesis
    using that [OF run a(1)] a(2) assms(1,2) by (fastforce simp: codec_ok_def)
qed

lemma map_filter_nonempty: "l \<in> set ls \<Longrightarrow> f l = Some r \<Longrightarrow> List.map_filter f ls \<noteq> []"
  by (induction ls) (auto simp: List.map_filter_simps split: option.splits)

lemma map_filter_append [simp]: "List.map_filter f (xs @ ys) = List.map_filter f xs @ List.map_filter f ys"
  by (simp add: List.map_filter_def)

text \<open>A drain under the simulation, whatever the segments parse to.\<close>

lemma drain_rel:
  assumes rel: "spool_rel d s fl segs" and room: "head_seq s < u64_max"
    and parse: "\<forall>l \<in> set (fl_lines fl @ concat (map snd segs)). from_json l \<noteq> None"
  obtains out d' s' fl' segs' where "drain_oldest from_json d s = (Inr out, d', s')"
    "spool_rel d' s' fl' segs'" "fl_lines fl' @ concat (map snd segs') = fl_lines fl @ concat (map snd segs)"
    "out = List.map_filter from_json (fl_lines fl')" "fl' = None \<longrightarrow> segs' = []" "fl' \<noteq> None \<longrightarrow> out \<noteq> []"
    "dropped_records s' = dropped_records s" "head_seq s' \<le> Suc (head_seq s)"
    "drain_oldest from_json d' s' = (Inr out, d', s')"
proof -
  have nonempty: "List.map_filter from_json ls \<noteq> []"
    if "seg_ok (n, ls)" "set ls \<subseteq> set (fl_lines fl @ concat (map snd segs))" for n ls
    using that parse map_filter_nonempty [of "hd ls" ls from_json]
    by (metis seg_ok_def hd_in_set not_None_eq snd_conv subsetD)
  consider (held) n ls where "fl = Some (n, ls)" | (empty) "fl = None" "segs = []"
    | (first) n ls rest where "fl = None" "segs = (n, ls) # rest"
    by (metis neq_Nil_conv option.exhaust prod.exhaust)
  then show ?thesis
  proof cases
    case held
    have "seg_ok (n, ls)" using spool_relD(10) [OF rel, of "(n, ls)"] held by simp
    then have "List.map_filter from_json ls \<noteq> []"
      by (rule nonempty) (simp add: held fl_lines_def)
    then show ?thesis
      using that [OF drain_inflight [OF rel [unfolded held]] rel] drain_inflight [OF rel [unfolded held], of from_json]
        held by (simp add: fl_lines_def)
  next
    case empty
    show ?thesis
      by (rule that [OF drain_empty [OF rel [unfolded empty]] rel])
         (use empty drain_empty [OF rel [unfolded empty]] in \<open>simp_all add: fl_lines_def List.map_filter_simps\<close>)
  next
    case first
    obtain d' s' where p: "drain_oldest from_json d s = (Inr (List.map_filter from_json ls), d', s')"
      "spool_rel d' s' (Some (n, ls)) rest" "dropped_records s' = dropped_records s"
      "head_seq s' \<le> Suc (head_seq s)" "max_bytes s' = max_bytes s"
      by (rule drain_first [where from_json = from_json, OF rel [unfolded first] room])
    have "seg_ok (n, ls)" using spool_relD(7) [OF rel, of "(n, ls)"] first by simp
    then have ne: "List.map_filter from_json ls \<noteq> []"
      by (rule nonempty) (auto simp: first)
    show ?thesis
      by (rule that [OF p(1,2)])
         (use p first ne drain_inflight [OF p(2), of from_json] in \<open>simp_all add: fl_lines_def\<close>)
  qed
qed

lemma parse_records_torn:
  assumes "\<forall>l \<in> set ls. good_line l" "nl \<notin> set t" "cr \<notin> set t" "from_json t = None"
  shows "parse_records from_json (enc_lines ls @ t) = List.map_filter from_json ls"
  using assms by (auto simp: parse_records_def lines_of_enc_torn filter_nonblank List.map_filter_simps)

text \<open>A concrete codec: numbers in decimal.\<close>

definition nat_to_json :: "nat \<Rightarrow> string option" where
  "nat_to_json n = (if n \<le> u64_max then Some (show_nat n) else None)"

lemma show_nat_good_line: "good_line (show_nat n)"
proof -
  have digit: "c \<noteq> nl \<and> c \<noteq> cr \<and> \<not> is_whitespace c" if "c \<in> set (show_nat n)" for c
  proof -
    have "\<forall>d \<in> set [0..<10]. digit_char d \<noteq> nl \<and> digit_char d \<noteq> cr \<and> \<not> is_whitespace (digit_char d)"
      by code_simp
    then show ?thesis using show_nat_digits [OF that] by auto
  qed
  then have "\<not> is_whitespace (hd (show_nat n))" by simp
  then have "\<not> is_blank (show_nat n)"
    unfolding is_blank_def list_all_iff by (meson hd_in_set show_nat_nonempty)
  then show ?thesis using digit by (auto simp: good_line_def)
qed

lemma nat_codec_ok: "codec_ok nat_to_json parse_u64"
  by (auto simp: codec_ok_def nat_to_json_def show_nat_good_line parse_show_nat split: if_splits)

lemma open_head_fresh:
  assumes "spool_open d mx = Inr (d', s')"
  shows "head_seq s' \<notin> set (segment_seqs d')"
proof -
  have "n < last (segment_seqs d') + 1" if "n \<in> set (segment_seqs d')" for n
    using sorted_le_last [of "segment_seqs d'" n] that by (simp add: segment_seqs_def)
  then show ?thesis
    using assms by (fastforce simp: spool_open_def Let_def split: sum.splits if_splits)
qed

subsection \<open>What the spool promises\<close>

text \<open>
  C1: At-least-once delivery without silent loss. From a fresh directory, any run of pushes,
  drains, acknowledgements, skips and crash recoveries succeeds in opening the spool, and at its
  end the acknowledged records followed by the stored ones are, in push order, a subsequence of
  the pushed ones; every pushed record that is missing there is counted as dropped.
\<close>

theorem spool_no_silent_loss:
  assumes "codec_ok to_json from_json" "length ops \<le> u64_max"
  shows "\<exists>d s g. spool_run to_json from_json mx ops = Some (d, s, g) \<and>
    subseq (acked g @ stored_records from_json d s) (pushed g) \<and>
    length (pushed g) =
      length (acked g) + length (stored_records from_json d s) + lost_before g + dropped_records s"
proof -
  obtain d s g where "spool_run to_json from_json mx ops = Some (d, s, g)"
    "ledger_inv to_json from_json (d, s, g) (length ops)"
    by (rule spool_run_inv [OF assms])
  then show ?thesis using ledger_inv_stored [OF assms(1)] by blast
qed

theorem spool_no_silent_loss_witness:
  "\<exists>d s g. spool_run nat_to_json parse_u64 10 [Push 1, Push 22, Drain, Push 333, Ack, Reopen, Drain, Skip] = Some (d, s, g) \<and>
    subseq (acked g @ stored_records parse_u64 d s) (pushed g) \<and>
    length (pushed g) =
      length (acked g) + length (stored_records parse_u64 d s) + lost_before g + dropped_records s"
  by (rule spool_no_silent_loss [OF nat_codec_ok]) (simp add: u64_max_def)

text \<open>
  C22: After any run, a drain succeeds and returns the oldest stored records, none only when
  none is stored; it discards nothing, and draining again returns the same records and changes
  nothing.
\<close>

theorem spool_drain_redelivers:
  assumes codec: "codec_ok to_json from_json" and len: "length ops < u64_max"
  shows "\<exists>d s g out d' s'. spool_run to_json from_json mx ops = Some (d, s, g) \<and>
    drain_oldest from_json d s = (Inr out, d', s') \<and>
    prefix out (stored_records from_json d s) \<and> (out = [] \<longleftrightarrow> stored_records from_json d s = []) \<and>
    stored_records from_json d' s' = stored_records from_json d s \<and>
    drain_oldest from_json d' s' = (Inr out, d', s')"
proof -
  obtain d s g fl segs where run: "spool_run to_json from_json mx ops = Some (d, s, g)"
    and r: "spool_rel d s fl segs" "head_seq s < u64_max"
    "\<forall>l \<in> set (fl_lines fl @ concat (map snd segs)). \<exists>r. to_json r = Some l \<and> from_json l = Some r"
    by (rule spool_run_rel [OF codec len])
  have parse: "\<forall>l \<in> set (fl_lines fl @ concat (map snd segs)). from_json l \<noteq> None"
    using r(3) by auto
  obtain out d' s' fl' segs' where p: "drain_oldest from_json d s = (Inr out, d', s')"
    "spool_rel d' s' fl' segs'" "fl_lines fl' @ concat (map snd segs') = fl_lines fl @ concat (map snd segs)"
    "out = List.map_filter from_json (fl_lines fl')" "fl' = None \<longrightarrow> segs' = []" "fl' \<noteq> None \<longrightarrow> out \<noteq> []"
    "dropped_records s' = dropped_records s" "head_seq s' \<le> Suc (head_seq s)"
    "drain_oldest from_json d' s' = (Inr out, d', s')"
    by (rule drain_rel [OF r(1,2) parse])
  have st: "stored_records from_json d' s' = stored_records from_json d s"
    "stored_records from_json d s = List.map_filter from_json (fl_lines fl') @ List.map_filter from_json (concat (map snd segs'))"
    using p(3) by (simp_all add: stored_records_def stored_lines_rel [OF r(1)] stored_lines_rel [OF p(2)]
        flip: map_filter_append)
  have ne: "out = [] \<longleftrightarrow> stored_records from_json d s = []"
    using st(2) p(4-6) by (cases fl') (auto simp: fl_lines_def List.map_filter_simps)
  show ?thesis
    by (rule exI [of _ d], rule exI [of _ s], rule exI [of _ g], rule exI [of _ out])
       (use run p(1,9) p(4) [symmetric] st ne in auto)
qed

theorem spool_drain_redelivers_witness:
  "\<exists>d s g out d' s'. spool_run nat_to_json parse_u64 1000 [Push 7, Drain, Reopen, Push 8] = Some (d, s, g) \<and>
    drain_oldest parse_u64 d s = (Inr out, d', s') \<and>
    prefix out (stored_records parse_u64 d s) \<and> (out = [] \<longleftrightarrow> stored_records parse_u64 d s = []) \<and>
    stored_records parse_u64 d' s' = stored_records parse_u64 d s \<and>
    drain_oldest parse_u64 d' s' = (Inr out, d', s')"
  by (rule spool_drain_redelivers [OF nat_codec_ok]) (simp add: u64_max_def)

text \<open>
  C23: After any run, pushing a serialisable record succeeds, and then the bytes on disk are
  within the cap or at most one segment besides the one in flight is left; nothing is dropped
  but the oldest stored records, and the drop is counted.
\<close>

theorem spool_push_enforces_cap:
  assumes codec: "codec_ok to_json from_json" and len: "length ops < u64_max"
    and json: "to_json r = Some l"
  shows "\<exists>d s g d' s' gone kept. spool_run to_json from_json mx ops = Some (d, s, g) \<and>
    push to_json d s r = (Inr (), d', s') \<and>
    (st_bytes (stats d' s') \<le> max_bytes s' \<or> length (segment_seqs d') \<le> 1) \<and>
    segment_lines d @ [l] = gone @ kept \<and> segment_lines d' = kept \<and> in_flight s' = in_flight s \<and>
    st_dropped_records (stats d' s') = st_dropped_records (stats d s) + length gone"
proof -
  obtain d s g fl segs where run: "spool_run to_json from_json mx ops = Some (d, s, g)"
    and r: "spool_rel d s fl segs" "head_seq s < u64_max"
    "\<forall>l \<in> set (fl_lines fl @ concat (map snd segs)). \<exists>r. to_json r = Some l \<and> from_json l = Some r"
    by (rule spool_run_rel [OF codec len])
  have good: "good_line l" using codec json by (simp add: codec_ok_def)
  obtain d' s' segs' gone where p: "push to_json d s r = (Inr (), d', s')"
    "spool_rel d' s' fl segs'" "concat (map snd segs) @ [l] = gone @ concat (map snd segs')"
    "dropped_records s' = dropped_records s + length gone" "head_seq s' \<le> Suc (head_seq s)"
    "max_bytes s' = max_bytes s" "in_flight s' = in_flight s"
    "seg_bytes segs' + fl_bytes fl \<le> max_bytes s \<or> length segs' \<le> 1"
    by (rule push_rel [where to_json = to_json and r = r, OF r(1) json good r(2)])
  have "st_bytes (stats d' s') = seg_bytes segs' + fl_bytes fl" "segment_seqs d' = map fst segs'"
    by (simp_all add: stats_def jsonl_bytes_rel [OF p(2)] inflight_bytes_rel [OF p(2)] segment_seqs_rel [OF p(2)])
  then show ?thesis
    using run p segment_lines_rel [OF r(1)] segment_lines_rel [OF p(2)]
    by (intro exI [of _ d] exI [of _ s] exI [of _ g] exI [of _ d'] exI [of _ s'] exI [of _ gone]
        exI [of _ "concat (map snd segs')"]) (simp add: stats_def)
qed

theorem spool_push_enforces_cap_witness:
  "\<exists>d s g d' s' gone kept. spool_run nat_to_json parse_u64 3 [Push 7, Drain, Reopen, Push 8] = Some (d, s, g) \<and>
    push nat_to_json d s 9 = (Inr (), d', s') \<and>
    (st_bytes (stats d' s') \<le> max_bytes s' \<or> length (segment_seqs d') \<le> 1) \<and>
    segment_lines d @ [show_nat 9] = gone @ kept \<and> segment_lines d' = kept \<and> in_flight s' = in_flight s \<and>
    st_dropped_records (stats d' s') = st_dropped_records (stats d s) + length gone"
  by (rule spool_push_enforces_cap [OF nat_codec_ok]) (simp_all add: u64_max_def nat_to_json_def)

text \<open>
  Reopening the directory after a crash at any point between two operations succeeds, keeps
  every stored record in the same order, whether its segment was in flight or not, leaves
  nothing in flight, and starts a fresh segment instead of appending to one on disk.
\<close>

theorem spool_reopen_keeps_records:
  assumes codec: "codec_ok to_json from_json" and len: "length ops < u64_max"
  shows "\<exists>d s g d' s'. spool_run to_json from_json mx ops = Some (d, s, g) \<and>
    spool_open d mx' = Inr (d', s') \<and>
    stored_records from_json d' s' = stored_records from_json d s \<and>
    \<not> has_in_flight s' \<and> head_seq s' \<notin> set (segment_seqs d')"
proof -
  obtain d s g fl segs where run: "spool_run to_json from_json mx ops = Some (d, s, g)"
    and r: "spool_rel d s fl segs" "head_seq s < u64_max"
    "\<forall>l \<in> set (fl_lines fl @ concat (map snd segs)). \<exists>r. to_json r = Some l \<and> from_json l = Some r"
    by (rule spool_run_rel [OF codec len])
  obtain d' s' where p: "spool_open d mx' = Inr (d', s')" "spool_rel d' s' None (recovered fl segs)"
    "dropped_records s' = 0" "in_flight s' = None" "head_seq s' \<le> Suc (head_seq s)" "max_bytes s' = mx'"
    by (rule open_rel [where mx = mx', OF r(1,2)])
  have "stored_lines d' s' = stored_lines d s"
    by (simp add: stored_lines_rel [OF r(1)] stored_lines_rel [OF p(2)] recovered_lines fl_lines_def)
  then show ?thesis
    using run p(1,4) open_head_fresh [OF p(1)]
    by (intro exI [of _ d] exI [of _ s] exI [of _ g] exI [of _ d'] exI [of _ s'])
       (simp add: stored_records_def has_in_flight_def)
qed

theorem spool_reopen_keeps_records_witness:
  "\<exists>d s g d' s'. spool_run nat_to_json parse_u64 1000 [Push 7, Drain, Push 8] = Some (d, s, g) \<and>
    spool_open d 500 = Inr (d', s') \<and>
    stored_records parse_u64 d' s' = stored_records parse_u64 d s \<and>
    \<not> has_in_flight s' \<and> head_seq s' \<notin> set (segment_seqs d')"
  by (rule spool_reopen_keeps_records [OF nat_codec_ok]) (simp add: u64_max_def)

text \<open>
  A torn tail is tolerated: when a crash left a partial line at the end of the oldest segment
  and the partial line does not parse, a drain still succeeds and returns every whole record of
  the segment.
\<close>

theorem spool_drain_torn_tail:
  assumes "in_flight s = None" "segment_seqs d = n # rest"
    and "map_of d (segment_path n) = Some (enc_lines ls @ t)"
    and "\<forall>l \<in> set ls. good_line l" "nl \<notin> set t" "cr \<notin> set t" "from_json t = None"
  shows "\<exists>d' s'. drain_oldest from_json d s = (Inr (List.map_filter from_json ls), d', s') \<and>
    in_flight s' = Some n"
  using assms parse_records_torn [where from_json = from_json, OF assms(4-7)]
  by (simp add: drain_oldest_def fs_read_def fs_rename_def Let_def rotate_head_def)

theorem spool_drain_torn_tail_witness:
  "\<exists>d' s'. drain_oldest parse_u64 [(segment_path 3, enc_lines [show_nat 41, show_nat 5] @ ''6x'')]
      \<lparr>max_bytes = 100, head_seq = 4, head_records = 0, head_bytes = 0, dropped_records = 0, in_flight = None\<rparr> =
      (Inr (List.map_filter parse_u64 [show_nat 41, show_nat 5]), d', s') \<and> in_flight s' = Some 3"
proof (rule spool_drain_torn_tail)
  show "segment_seqs [(segment_path 3, enc_lines [show_nat 41, show_nat 5] @ ''6x'')] = [3]"
    by (simp add: segment_seqs_def List.map_filter_def u64_max_def)
  show "parse_u64 ''6x'' = None" by code_simp
  show "nl \<notin> set ''6x''" "cr \<notin> set ''6x''" by code_simp+
qed (simp_all add: show_nat_good_line)

text \<open>
  Segment file names round-trip: a sequence number is read back from the name of its segment,
  distinct numbers have distinct names, and the name of an in-flight segment is not taken for a
  segment's.
\<close>

theorem segment_names_round_trip:
  assumes "n \<le> u64_max" "m \<le> u64_max"
  shows "name_seq (segment_path n) = Some n \<and> (segment_path n = segment_path m \<longleftrightarrow> n = m) \<and>
    name_seq (inflight_path n) = None"
  using assms segment_path_inj [OF assms] by simp

theorem segment_names_round_trip_witness:
  "name_seq (segment_path 1048576) = Some 1048576 \<and>
   (segment_path 1048576 = segment_path 5000000000000 \<longleftrightarrow> (1048576 :: nat) = 5000000000000) \<and>
   name_seq (inflight_path 1048576) = None"
  by (rule segment_names_round_trip) (simp_all add: u64_max_def)

end
