(* ===== verification/Transport.thy ===== *)
theory Transport
  imports SpoolLedger
begin

text \<open>
  The transport crate (\<open>crates/transport/src\<close>: error.rs, config.rs, client.rs, upload.rs) and the
  adapter that puts the spool behind its \<open>EventDrain\<close> trait (\<open>agent/src/upload.rs\<close>).

  The trait is the record \<open>drain_ops\<close> of its three methods and its contract is the locale
  \<open>event_drain\<close>; the uploader's lemmas are proved once against the contract, and the
  spool is shown to satisfy it. The HTTP exchange of the ureq crate and the JSON of serde are
  parameters: \<open>send w url key body\<close> is one exchange, changing the outside world \<open>w\<close>.
  Durations are milliseconds; readings of the clock and of the stop flag are explicit lists.
\<close>

subsection \<open>Errors and configuration\<close>

datatype transport_error =
    Server_Error nat string
  | Network string
  | Invalid_Response string
  | Tls string
  | Serialization string
  | Io io_error
  | Config string
  | Unreachable

fun is_retryable :: "transport_error \<Rightarrow> bool" where
  "is_retryable (Network _) = True"
| "is_retryable Unreachable = True"
| "is_retryable (Invalid_Response _) = True"
| "is_retryable (Server_Error status _) = (status \<ge> 500)"
| "is_retryable _ = False"

fun is_network_error :: "transport_error \<Rightarrow> bool" where
  "is_network_error (Network _) = True"
| "is_network_error Unreachable = True"
| "is_network_error _ = False"

record transport_config =
  server_url :: string
  client_cert_path :: "string option"
  client_key_path :: "string option"
  agent_id :: "string option"
  ingest_endpoint :: string
  detection_endpoint :: string
  heartbeat_endpoint :: string
  batch_size :: nat
  retry_base :: nat
  retry_max :: nat
  request_timeout :: nat
  heartbeat_interval :: nat
  max_drain_attempts :: nat
  max_network_drain_attempts :: nat

definition default_config :: transport_config where
  "default_config = \<lparr>server_url = [], client_cert_path = None, client_key_path = None, agent_id = None,
     ingest_endpoint = ''/api/v1/ingest/events'', detection_endpoint = ''/api/ingest/detection'',
     heartbeat_endpoint = ''/api/ingest/heartbeat'', batch_size = 100, retry_base = 1000,
     retry_max = 60000, request_timeout = 30000, heartbeat_interval = 30000,
     max_drain_attempts = 5, max_network_drain_attempts = 20\<rparr>"

definition config_new :: "string \<Rightarrow> transport_config" where
  "config_new url = default_config\<lparr>server_url := url\<rparr>"

definition with_client_cert :: "transport_config \<Rightarrow> string \<Rightarrow> string \<Rightarrow> transport_config" where
  "with_client_cert c cert key = c\<lparr>client_cert_path := Some cert, client_key_path := Some key\<rparr>"

definition with_agent_id :: "transport_config \<Rightarrow> string \<Rightarrow> transport_config" where
  "with_agent_id c i = c\<lparr>agent_id := Some i\<rparr>"

definition ingest_url :: "transport_config \<Rightarrow> string" where
  "ingest_url c = server_url c @ ingest_endpoint c"

definition detection_url :: "transport_config \<Rightarrow> string" where
  "detection_url c = server_url c @ detection_endpoint c"

definition heartbeat_url :: "transport_config \<Rightarrow> string" where
  "heartbeat_url c = server_url c @ heartbeat_endpoint c"

definition content_manifest_url :: "transport_config \<Rightarrow> string \<Rightarrow> string" where
  "content_manifest_url c ring = server_url c @ ''/api/content/manifest/'' @ ring"

definition content_artifact_url :: "transport_config \<Rightarrow> string" where
  "content_artifact_url c = server_url c @ ''/api/content/artifact''"

definition release_manifest_url :: "transport_config \<Rightarrow> string" where
  "release_manifest_url c = server_url c @ ''/api/release/manifest''"

definition release_artifact_url :: "transport_config \<Rightarrow> string" where
  "release_artifact_url c = server_url c @ ''/api/release/artifact''"

definition has_client_cert :: "transport_config \<Rightarrow> bool" where
  "has_client_cert c = (client_cert_path c \<noteq> None \<and> client_key_path c \<noteq> None)"

subsection \<open>The client\<close>

text \<open>What one exchange may fail with: a status the server sent, or anything else.\<close>

datatype http_error = Status_Code nat string | Exchange_Failed string

fun http_to_transport :: "http_error \<Rightarrow> transport_error" where
  "http_to_transport (Status_Code status msg) = Server_Error status msg"
| "http_to_transport (Exchange_Failed msg) = Network msg"

type_synonym 'w http_send =
  "'w \<Rightarrow> string \<Rightarrow> string option \<Rightarrow> string \<Rightarrow> (http_error + string) \<times> 'w"

definition post_json_with_key ::
    "('t \<Rightarrow> string + string) \<Rightarrow> 'w http_send \<Rightarrow> (string \<Rightarrow> string + 'r) \<Rightarrow>
     'w \<Rightarrow> string \<Rightarrow> 't \<Rightarrow> string option \<Rightarrow> (transport_error + 'r) \<times> 'w" where
  "post_json_with_key ser send read_json w url payload key =
     (case ser payload of
        Inl e \<Rightarrow> (Inl (Serialization e), w)
      | Inr body \<Rightarrow>
          (case send w url key body of
             (Inl e, w') \<Rightarrow> (Inl (http_to_transport e), w')
           | (Inr response, w') \<Rightarrow>
               (case read_json response of
                  Inl e \<Rightarrow> (Inl (Invalid_Response e), w')
                | Inr r \<Rightarrow> (Inr r, w'))))"

definition post_json where
  "post_json ser send read_json w url payload = post_json_with_key ser send read_json w url payload None"

record 'e upload_payload =
  up_agent_id :: "string option"
  up_events :: "'e list"

record upload_response =
  accepted :: nat
  batch_id :: "string option"

definition upload_events ::
    "('e upload_payload \<Rightarrow> string + string) \<Rightarrow> 'w http_send \<Rightarrow> (string \<Rightarrow> string + upload_response) \<Rightarrow>
     transport_config \<Rightarrow> 'w \<Rightarrow> 'e list \<Rightarrow> (transport_error + upload_response) \<times> 'w" where
  "upload_events ser send read_json c w events =
     post_json ser send read_json w (ingest_url c) \<lparr>up_agent_id = agent_id c, up_events = events\<rparr>"

definition validate_detection_response :: "string \<Rightarrow> transport_error + unit" where
  "validate_detection_response status =
     (if status \<noteq> ''accepted''
      then Inl (Invalid_Response (''unexpected detection ingest status: '' @ status)) else Inr ())"

definition upload_detection_with_key ::
    "('t \<Rightarrow> string + string) \<Rightarrow> 'w http_send \<Rightarrow> (string \<Rightarrow> string + string) \<Rightarrow>
     transport_config \<Rightarrow> 'w \<Rightarrow> 't \<Rightarrow> string \<Rightarrow> (transport_error + unit) \<times> 'w" where
  "upload_detection_with_key ser send read_json c w detection key =
     (case post_json_with_key ser send read_json w (detection_url c) detection (Some key) of
        (Inl e, w') \<Rightarrow> (Inl e, w')
      | (Inr status, w') \<Rightarrow> (validate_detection_response status, w'))"

definition upload_detection ::
    "('t \<Rightarrow> string + string) \<Rightarrow> 'w http_send \<Rightarrow> (string \<Rightarrow> string + string) \<Rightarrow>
     transport_config \<Rightarrow> 'w \<Rightarrow> 't \<Rightarrow> (transport_error + unit) \<times> 'w" where
  "upload_detection ser send read_json c w detection =
     (case post_json ser send read_json w (detection_url c) detection of
        (Inl e, w') \<Rightarrow> (Inl e, w')
      | (Inr status, w') \<Rightarrow> (validate_detection_response status, w'))"

record 'b heartbeat_payload =
  hb_agent_id :: "string option"
  hb_beacon :: 'b

definition send_heartbeat ::
    "('b heartbeat_payload \<Rightarrow> string + string) \<Rightarrow> 'w http_send \<Rightarrow> (string \<Rightarrow> string + 'json) \<Rightarrow>
     transport_config \<Rightarrow> 'w \<Rightarrow> 'b \<Rightarrow> (transport_error + unit) \<times> 'w" where
  "send_heartbeat ser send read_json c w beacon =
     (case post_json ser send read_json w (heartbeat_url c) \<lparr>hb_agent_id = agent_id c, hb_beacon = beacon\<rparr> of
        (Inl e, w') \<Rightarrow> (Inl e, w')
      | (Inr _, w') \<Rightarrow> (Inr (), w'))"

subsection \<open>The uploader\<close>

record ('q, 'e) drain_ops =
  op_drain :: "'q \<Rightarrow> (io_error + 'e list) \<times> 'q"
  op_ack :: "'q \<Rightarrow> (io_error + unit) \<times> 'q"
  op_skip :: "'q \<Rightarrow> (io_error + unit) \<times> 'q"

record event_uploader =
  u_config :: transport_config
  consecutive_failures :: nat
  consecutive_server_failures :: nat
  consecutive_network_failures :: nat

definition uploader_new :: "transport_config \<Rightarrow> event_uploader" where
  "uploader_new c = \<lparr>u_config = c, consecutive_failures = 0, consecutive_server_failures = 0,
     consecutive_network_failures = 0\<rparr>"

definition reset_failure_counters :: "event_uploader \<Rightarrow> event_uploader" where
  "reset_failure_counters u = u\<lparr>consecutive_failures := 0, consecutive_server_failures := 0,
     consecutive_network_failures := 0\<rparr>"

text \<open>\<open>slice::chunks\<close>; the source panics for size 0, which \<open>upload_once\<close> checks.\<close>

function chunks :: "nat \<Rightarrow> 'e list \<Rightarrow> 'e list list" where
  "chunks n xs = (if n = 0 \<or> xs = [] then [] else take n xs # chunks n (drop n xs))"
  by pat_completeness auto
termination by (relation "measure (\<lambda>(n, xs). length xs)") auto

declare chunks.simps [simp del]

text \<open>Uploads until the first failure, which is returned.\<close>

fun upload_batches ::
    "('w \<Rightarrow> 'e list \<Rightarrow> (transport_error + upload_response) \<times> 'w) \<Rightarrow> 'w \<Rightarrow> 'e list list \<Rightarrow>
     transport_error option \<times> 'w" where
  "upload_batches upload w [] = (None, w)"
| "upload_batches upload w (b # bs) =
     (case upload w b of
        (Inr _, w') \<Rightarrow> upload_batches upload w' bs
      | (Inl e, w') \<Rightarrow> (Some e, w'))"

text \<open>Counting a retryable failure; the flag says that the budget of its kind is spent.\<close>

definition count_failure :: "event_uploader \<Rightarrow> transport_error \<Rightarrow> event_uploader \<times> bool" where
  "count_failure u e =
     (let u1 = u\<lparr>consecutive_failures := consecutive_failures u + 1\<rparr>
      in if is_network_error e
         then (let u2 = u1\<lparr>consecutive_network_failures := consecutive_network_failures u1 + 1\<rparr>
               in (u2, consecutive_network_failures u2 \<ge> max_network_drain_attempts (u_config u2)))
         else (let u2 = u1\<lparr>consecutive_server_failures := consecutive_server_failures u1 + 1\<rparr>
               in (u2, consecutive_server_failures u2 \<ge> max_drain_attempts (u_config u2))))"

text \<open>One attempt; \<open>None\<close> is the panic of \<open>chunks(0)\<close>.\<close>

definition upload_once ::
    "('q, 'e) drain_ops \<Rightarrow> ('w \<Rightarrow> 'e list \<Rightarrow> (transport_error + upload_response) \<times> 'w) \<Rightarrow>
     event_uploader \<Rightarrow> 'q \<Rightarrow> 'w \<Rightarrow> ((transport_error + nat) \<times> event_uploader \<times> 'q \<times> 'w) option" where
  "upload_once ops upload u q w =
     (case op_drain ops q of
        (Inl e, q1) \<Rightarrow> Some (Inl (Io e), u, q1, w)
      | (Inr events, q1) \<Rightarrow>
          (if events = [] then Some (Inr 0, u, q1, w)
           else if batch_size (u_config u) = 0 then None
           else
             (case upload_batches upload w (chunks (batch_size (u_config u)) events) of
                (None, w1) \<Rightarrow>
                  (case op_ack ops q1 of
                     (Inl e, q2) \<Rightarrow> Some (Inl (Io e), u, q2, w1)
                   | (Inr _, q2) \<Rightarrow> Some (Inr (length events), reset_failure_counters u, q2, w1))
              | (Some e, w1) \<Rightarrow>
                  (if \<not> is_retryable e then
                     (case op_skip ops q1 of
                        (Inl io, q2) \<Rightarrow> Some (Inl (Io io), u, q2, w1)
                      | (Inr _, q2) \<Rightarrow> Some (Inl e, reset_failure_counters u, q2, w1))
                   else
                     (case count_failure u e of
                        (u1, spent) \<Rightarrow>
                          (if spent then
                             (case op_skip ops q1 of
                                (Inl io, q2) \<Rightarrow> Some (Inl (Io io), u1, q2, w1)
                              | (Inr _, q2) \<Rightarrow> Some (Inl e, reset_failure_counters u1, q2, w1))
                           else Some (Inl e, u1, q1, w1)))))))"

definition sat_mul :: "nat \<Rightarrow> nat \<Rightarrow> nat" where
  "sat_mul a b = min (a * b) u64_max"

definition backoff_duration :: "event_uploader \<Rightarrow> nat" where
  "backoff_duration u =
     (if consecutive_failures u = 0 then 0
      else (let base_ms = retry_base (u_config u) mod 2 ^ 64;
                max_ms = retry_max (u_config u) mod 2 ^ 64
            in min (sat_mul base_ms (2 ^ (min (consecutive_failures u - 1) 10))) max_ms))"

definition is_failing :: "event_uploader \<Rightarrow> bool" where
  "is_failing u = (consecutive_failures u > 0)"

definition reset_failures :: "event_uploader \<Rightarrow> event_uploader" where
  "reset_failures u = reset_failure_counters u"

subsection \<open>The upload loop\<close>

text \<open>
  \<open>final_drain\<close> reads the clock once for the deadline (\<open>start\<close>) and once before each
  attempt; \<open>readings\<close> are those later readings, and the loop stops at the latest when they
  run out. The result is the number of events uploaded and the final state.
\<close>

fun final_drain_loop ::
    "('q, 'e) drain_ops \<Rightarrow> ('w \<Rightarrow> 'e list \<Rightarrow> (transport_error + upload_response) \<times> 'w) \<Rightarrow> nat \<Rightarrow> nat list \<Rightarrow>
     nat \<Rightarrow> event_uploader \<Rightarrow> 'q \<Rightarrow> 'w \<Rightarrow> (nat \<times> event_uploader \<times> 'q \<times> 'w) option" where
  "final_drain_loop ops upload deadline [] uploaded u q w = Some (uploaded, u, q, w)"
| "final_drain_loop ops upload deadline (now # readings) uploaded u q w =
     (if now \<ge> deadline then Some (uploaded, u, q, w)
      else case upload_once ops upload u q w of
             None \<Rightarrow> None
           | Some (Inr n, u', q', w') \<Rightarrow>
               (if n = 0 then Some (uploaded, u', q', w')
                else final_drain_loop ops upload deadline readings (uploaded + n) u' q' w')
           | Some (Inl _, u', q', w') \<Rightarrow> Some (uploaded, u', q', w'))"

definition final_drain where
  "final_drain ops upload budget start readings u q w =
     (if budget = 0 then Some (0, u, q, w)
      else final_drain_loop ops upload (start + budget) readings 0 u q w)"

text \<open>
  \<open>run\<close>: \<open>flags\<close> are the readings of the stop flag before each attempt (the loop is cut off
  when they run out); the sleeps between attempts change no state. The second component of the
  result says whether the stop flag ended the loop, in which case the final drain has run.
\<close>

fun upload_loop_run ::
    "('q, 'e) drain_ops \<Rightarrow> ('w \<Rightarrow> 'e list \<Rightarrow> (transport_error + upload_response) \<times> 'w) \<Rightarrow> bool list \<Rightarrow> nat \<Rightarrow> nat \<Rightarrow> nat list \<Rightarrow>
     event_uploader \<Rightarrow> 'q \<Rightarrow> 'w \<Rightarrow> (bool \<times> event_uploader \<times> 'q \<times> 'w) option" where
  "upload_loop_run ops upload [] budget start readings u q w = Some (False, u, q, w)"
| "upload_loop_run ops upload (stopped # flags) budget start readings u q w =
     (if stopped then
        map_option (\<lambda>(_, u', q', w'). (True, u', q', w')) (final_drain ops upload budget start readings u q w)
      else case upload_once ops upload u q w of
             None \<Rightarrow> None
           | Some (_, u', q', w') \<Rightarrow> upload_loop_run ops upload flags budget start readings u' q' w')"

subsection \<open>The spool behind the trait\<close>

definition spool_cap_bytes :: "nat \<Rightarrow> nat" where
  "spool_cap_bytes spool_max_mb = sat_mul spool_max_mb (1024 * 1024)"

definition spool_drain :: "(string \<Rightarrow> 'r option) \<Rightarrow> (fs \<times> event_spool, 'r) drain_ops" where
  "spool_drain from_json =
     \<lparr>op_drain = (\<lambda>(d, s). drain_oldest from_json d s),
      op_ack = (\<lambda>(d, s). case ack d s of (r, q) \<Rightarrow> (map_sum id (\<lambda>_. ()) r, q)),
      op_skip = (\<lambda>(d, s). case skip d s of (r, q) \<Rightarrow> (map_sum id (\<lambda>_. ()) r, q))\<rparr>"

end
