(* ===== verification/UploadContract.thy ===== *)
theory UploadContract
  imports Transport
begin

text \<open>
  The contract of the trait \<open>EventDrain\<close> (\<open>crates/transport/src/upload.rs\<close>) as the locale
  \<open>event_drain\<close>, what the uploader achieves against any implementation of it, and the proof
  that the spool of \<open>crates/store\<close>, wired by \<open>agent/src/upload.rs\<close>, implements it.
\<close>

subsection \<open>Batches and counters\<close>

lemma concat_chunks [simp]: "n > 0 \<Longrightarrow> concat (chunks n xs) = xs"
proof (induction n xs rule: chunks.induct)
  case (1 n xs)
  then show ?case by (subst chunks.simps) auto
qed

lemma length_chunks_le: "b \<in> set (chunks n xs) \<Longrightarrow> 0 < length b \<and> length b \<le> n"
proof (induction n xs rule: chunks.induct)
  case (1 n xs)
  from 1(2) show ?case
    by (subst (asm) chunks.simps) (use 1(1) in \<open>auto split: if_splits\<close>)
qed

text \<open>
  A log of the answered batches: \<open>seen\<close> reads from the world the events of the batches that were
  answered positively, in order. The log \<open>logged\<close> keeps beside any server is one, below; nothing is
  assumed of the server.
\<close>

definition server_log :: "('w \<Rightarrow> 'e list) \<Rightarrow> ('w \<Rightarrow> 'e list \<Rightarrow> (transport_error + upload_response) \<times> 'w) \<Rightarrow> bool" where
  "server_log seen upload \<longleftrightarrow>
     (\<forall>w b. case upload w b of
        (Inr _, w') \<Rightarrow> seen w' = seen w @ b
      | (Inl _, w') \<Rightarrow> prefix (seen w) (seen w'))"

lemma server_logD:
  assumes "server_log seen upload"
  shows "upload w b = (Inr r, w') \<Longrightarrow> seen w' = seen w @ b"
    and "upload w b = (Inl e, w') \<Longrightarrow> prefix (seen w) (seen w')"
  using assms [unfolded server_log_def, rule_format, of w b] by auto

lemma upload_batches_seen:
  assumes "server_log seen upload"
  shows "upload_batches upload w bs = (None, w') \<Longrightarrow> seen w' = seen w @ concat bs"
    and "upload_batches upload w bs = (Some e, w') \<Longrightarrow> prefix (seen w) (seen w')"
  by (induction bs arbitrary: w)
     (auto split: prod.splits sum.splits dest!: server_logD [OF assms], metis append_prefixD)

definition counters_ok :: "event_uploader \<Rightarrow> bool" where
  "counters_ok u \<longleftrightarrow>
     consecutive_failures u = consecutive_server_failures u + consecutive_network_failures u \<and>
     consecutive_server_failures u \<le> max_drain_attempts (u_config u) - 1 \<and>
     consecutive_network_failures u \<le> max_network_drain_attempts (u_config u) - 1"

definition max_attempts :: "event_uploader \<Rightarrow> nat" where
  "max_attempts u = (max_drain_attempts (u_config u) - 1) + (max_network_drain_attempts (u_config u) - 1)"

lemma counters_ok_new [simp]: "counters_ok (uploader_new c)"
  by (simp add: counters_ok_def uploader_new_def)

lemma counters_ok_reset [simp]: "counters_ok (reset_failure_counters u)"
  by (simp add: counters_ok_def reset_failure_counters_def)

lemma counters_ok_le: "counters_ok u \<Longrightarrow> consecutive_failures u \<le> max_attempts u"
  by (simp add: counters_ok_def max_attempts_def)

lemma count_failure_counters:
  assumes "count_failure u e = (u', spent)"
  shows "consecutive_failures u' = Suc (consecutive_failures u)" "u_config u' = u_config u"
    "reset_failure_counters u' = reset_failure_counters u"
    and "counters_ok u \<Longrightarrow> \<not> spent \<Longrightarrow> counters_ok u'"
  using assms
  by (auto simp: count_failure_def Let_def counters_ok_def reset_failure_counters_def split: if_splits)

lemma u_config_reset [simp]: "u_config (reset_failure_counters u) = u_config u"
  by (simp add: reset_failure_counters_def)

text \<open>
  Between two states, every event that left the queue was taken in by the server, in order, or
  counted as lost.
\<close>

definition accounted :: "('q \<Rightarrow> 'e list) \<Rightarrow> ('q \<Rightarrow> nat) \<Rightarrow> ('w \<Rightarrow> 'e list) \<Rightarrow> 'q \<Rightarrow> 'w \<Rightarrow> 'q \<Rightarrow> 'w \<Rightarrow> bool" where
  "accounted content lost seen q w q' w' \<longleftrightarrow>
     (\<exists>gone delivered. content q = gone @ content q' \<and> subseq delivered gone \<and>
        length gone + lost q = length delivered + lost q' \<and> subseq (seen w @ delivered) (seen w'))"

lemma accountedI:
  assumes "content q = gone @ content q'" "subseq delivered gone"
    "length gone + lost q = length delivered + lost q'" "subseq (seen w @ delivered) (seen w')"
  shows "accounted content lost seen q w q' w'"
  using assms by (auto simp: accounted_def)

lemma accounted_trans:
  assumes "accounted content lost seen q w q1 w1" "accounted content lost seen q1 w1 q2 w2"
  shows "accounted content lost seen q w q2 w2"
proof -
  obtain g d where a: "content q = g @ content q1" "subseq d g" "length g + lost q = length d + lost q1"
    "subseq (seen w @ d) (seen w1)"
    using assms(1) by (auto simp: accounted_def)
  obtain g' d' where b: "content q1 = g' @ content q2" "subseq d' g'" "length g' + lost q1 = length d' + lost q2"
    "subseq (seen w1 @ d') (seen w2)"
    using assms(2) by (auto simp: accounted_def)
  have "subseq ((seen w @ d) @ d') (seen w1 @ d')"
    using a(4) by (intro list_emb_append_mono) simp_all
  then have "subseq (seen w @ d @ d') (seen w2)"
    using b(4) by (metis append.assoc subseq_order.trans)
  then show ?thesis
    by (intro accountedI [where gone = "g @ g'" and delivered = "d @ d'"])
       (use a b in \<open>simp_all add: list_emb_append_mono\<close>)
qed

subsection \<open>The contract\<close>

text \<open>
  \<open>invar n q\<close>: the queue is sound and \<open>n\<close> more drains are representable; \<open>content\<close>: the
  events not yet discarded, oldest first; \<open>held\<close>: the events of the last drain, if it is
  neither acknowledged nor skipped; \<open>lost\<close>: the loss the queue has counted.
\<close>

locale event_drain =
  fixes invar :: "nat \<Rightarrow> 'q \<Rightarrow> bool"
    and content :: "'q \<Rightarrow> 'e list"
    and held :: "'q \<Rightarrow> 'e list"
    and lost :: "'q \<Rightarrow> nat"
    and ops :: "('q, 'e) drain_ops"
  assumes drain_law: "invar (Suc n) q \<Longrightarrow>
      \<exists>q'. op_drain ops q = (Inr (held q'), q') \<and> invar n q' \<and> content q' = content q \<and>
        prefix (held q') (content q) \<and> (held q' = [] \<longleftrightarrow> content q = []) \<and> lost q' = lost q"
    and redeliver_law: "invar (Suc n) q \<Longrightarrow> held q \<noteq> [] \<Longrightarrow> op_drain ops q = (Inr (held q), q)"
    and ack_law: "invar n q \<Longrightarrow>
      \<exists>q'. op_ack ops q = (Inr (), q') \<and> invar n q' \<and> held q' = [] \<and>
        content q = held q @ content q' \<and> lost q' = lost q"
    and skip_law: "invar n q \<Longrightarrow>
      \<exists>q'. op_skip ops q = (Inr (), q') \<and> invar n q' \<and> held q' = [] \<and>
        content q = held q @ content q' \<and> lost q' = lost q + length (held q)"
begin

lemma upload_once_cases:
  assumes inv: "invar (Suc n) q" and size: "batch_size (u_config u) > 0"
  obtains (idle) q' where "upload_once ops upload u q w = Some (Inr 0, u, q', w)" "invar n q'"
      "content q = []" "content q' = []" "lost q' = lost q"
  | (sent) out q' w' where "upload_once ops upload u q w = Some (Inr (length out), reset_failure_counters u, q', w')"
      "invar n q'" "out \<noteq> []" "content q = out @ content q'" "lost q' = lost q"
      "upload_batches upload w (chunks (batch_size (u_config u)) out) = (None, w')"
  | (skipped) e out q' w' where "upload_once ops upload u q w = Some (Inl e, reset_failure_counters u, q', w')"
      "invar n q'" "out \<noteq> []" "content q = out @ content q'" "lost q' = lost q + length out"
      "upload_batches upload w (chunks (batch_size (u_config u)) out) = (Some e, w')"
      "\<not> is_retryable e \<or> snd (count_failure u e)"
  | (kept) e q' w' out u' where "upload_once ops upload u q w = Some (Inl e, u', q', w')"
      "invar n q'" "content q \<noteq> []" "content q' = content q" "lost q' = lost q"
      "upload_batches upload w (chunks (batch_size (u_config u)) out) = (Some e, w')"
      "is_retryable e" "count_failure u e = (u', False)"
proof -
  obtain q1 where d: "op_drain ops q = (Inr (held q1), q1)" "invar n q1" "content q1 = content q"
    "held q1 = [] \<longleftrightarrow> content q = []" "lost q1 = lost q"
    using drain_law [OF inv] by blast
  obtain qa where a: "op_ack ops q1 = (Inr (), qa)" "invar n qa" "content q1 = held q1 @ content qa" "lost qa = lost q1"
    using ack_law [OF d(2)] by blast
  obtain qs where s: "op_skip ops q1 = (Inr (), qs)" "invar n qs" "content q1 = held q1 @ content qs"
    "lost qs = lost q1 + length (held q1)"
    using skip_law [OF d(2)] by blast
  obtain r w' where b: "upload_batches upload w (chunks (batch_size (u_config u)) (held q1)) = (r, w')"
    by fastforce
  consider (empty) "held q1 = []" | (ok) "held q1 \<noteq> []" "r = None"
    | (perm) e where "held q1 \<noteq> []" "r = Some e" "\<not> is_retryable e"
    | (spent) e u' where "held q1 \<noteq> []" "r = Some e" "is_retryable e" "count_failure u e = (u', True)"
    | (retry) e u' where "held q1 \<noteq> []" "r = Some e" "is_retryable e" "count_failure u e = (u', False)"
    by (metis (full_types) not_None_eq surj_pair)
  then show ?thesis
  proof cases
    case empty
    show ?thesis
      by (rule idle [of q1]) (use empty d in \<open>simp_all add: upload_once_def\<close>)
  next
    case ok
    show ?thesis
      by (rule sent [of "held q1" qa w']) (use ok d a b size in \<open>simp_all add: upload_once_def\<close>)
  next
    case perm
    show ?thesis
      by (rule skipped [of e qs w' "held q1"]) (use perm d s b size in \<open>simp_all add: upload_once_def\<close>)
  next
    case spent
    show ?thesis
      by (rule skipped [of e qs w' "held q1"])
         (use spent d s b size count_failure_counters(3) [OF spent(4)] in \<open>simp_all add: upload_once_def\<close>)
  next
    case retry
    show ?thesis
      by (rule kept [of e u' q1 w' "held q1"]) (use retry d b size in \<open>simp_all add: upload_once_def\<close>)
  qed
qed

lemma upload_once_accounted:
  assumes inv: "invar (Suc n) q" and size: "batch_size (u_config u) > 0" and log: "server_log seen upload"
  obtains r u' q' w' where "upload_once ops upload u q w = Some (r, u', q', w')" "invar n q'"
    "u_config u' = u_config u" "accounted content lost seen q w q' w'" "counters_ok u \<longrightarrow> counters_ok u'"
  using inv size
proof (cases rule: upload_once_cases [where upload = upload and w = w])
  case (idle q')
  show ?thesis
    by (rule that [OF idle(1,2)]) (use idle in \<open>auto intro: accountedI [where gone = "[]" and delivered = "[]"]\<close>)
next
  case (sent out q' w')
  have "accounted content lost seen q w q' w'"
    by (rule accountedI [where gone = out and delivered = out])
       (use sent size upload_batches_seen(1) [OF log sent(6)] in simp_all)
  then show ?thesis by (intro that [OF sent(1,2)]) simp_all
next
  case (skipped e out q' w')
  have "accounted content lost seen q w q' w'"
    by (rule accountedI [where gone = out and delivered = "[]"])
       (use skipped upload_batches_seen(2) [OF log skipped(6)] in \<open>auto intro: prefix_imp_subseq\<close>)
  then show ?thesis by (intro that [OF skipped(1,2)]) simp_all
next
  case (kept e q' w' out u')
  have "accounted content lost seen q w q' w'"
    by (rule accountedI [where gone = "[]" and delivered = "[]"])
       (use kept upload_batches_seen(2) [OF log kept(6)] in \<open>auto intro: prefix_imp_subseq\<close>)
  then show ?thesis
    using count_failure_counters [OF kept(8)] by (intro that [OF kept(1,2)]) simp_all
qed

lemma accounted_refl: "accounted content lost seen q w q w"
  by (rule accountedI [where gone = "[]" and delivered = "[]"]) simp_all

lemma final_drain_loop_accounted:
  assumes "server_log seen upload"
  shows "invar (n + length readings) q \<Longrightarrow> batch_size (u_config u) > 0 \<Longrightarrow>
    \<exists>k u' q' w'. final_drain_loop ops upload deadline readings uploaded u q w = Some (k, u', q', w') \<and>
      accounted content lost seen q w q' w' \<and> (counters_ok u \<longrightarrow> counters_ok u')"
proof (induction readings arbitrary: uploaded u q w)
  case Nil
  then show ?case by (simp add: accounted_refl)
next
  case (Cons now readings)
  have inv: "invar (Suc (n + length readings)) q" using Cons.prems(1) by simp
  obtain r u' q' w' where o: "upload_once ops upload u q w = Some (r, u', q', w')" "invar (n + length readings) q'"
    "u_config u' = u_config u" "accounted content lost seen q w q' w'" "counters_ok u \<longrightarrow> counters_ok u'"
    by (rule upload_once_accounted [OF inv Cons.prems(2) assms])
  have size: "batch_size (u_config u') > 0" using o(3) Cons.prems(2) by simp
  consider "now \<ge> deadline" | e where "now < deadline" "r = Inl e" | "now < deadline" "r = Inr 0"
    | m where "now < deadline" "r = Inr m" "m > 0"
    by (metis gr0I leI obj_sumE)
  then show ?case
  proof cases
    case 4
    then show ?thesis
      using o(1,5) Cons.IH [OF o(2) size, of "uploaded + m" w'] accounted_trans [OF o(4)] by fastforce
  qed (use o accounted_refl in simp_all)
qed

lemma upload_loop_accounted:
  assumes "server_log seen upload"
  shows "invar (length flags + length readings) q \<Longrightarrow> batch_size (u_config u) > 0 \<Longrightarrow>
    \<exists>b u' q' w'. upload_loop_run ops upload flags budget start readings u q w = Some (b, u', q', w') \<and>
      accounted content lost seen q w q' w' \<and> (counters_ok u \<longrightarrow> counters_ok u')"
proof (induction flags arbitrary: u q w)
  case Nil
  then show ?case using accounted_refl by auto
next
  case (Cons stopped flags)
  have inv: "invar (Suc (length flags + length readings)) q" using Cons.prems(1) by simp
  show ?case
  proof (cases stopped)
    case True
    obtain k u' q' w' where "final_drain ops upload budget start readings u q w = Some (k, u', q', w')"
      "accounted content lost seen q w q' w'" "counters_ok u \<longrightarrow> counters_ok u'"
    proof (cases "budget = 0")
      case True
      then show ?thesis using that [of 0 u q w] by (simp add: final_drain_def accounted_refl)
    next
      case False
      have "invar (Suc (length flags) + length readings) q" using inv by simp
      then show ?thesis
        using that final_drain_loop_accounted [OF assms, of "Suc (length flags)" readings q u "start + budget" 0 w]
          Cons.prems(2) False by (auto simp: final_drain_def)
    qed
    then show ?thesis using True by auto
  next
    case False
    obtain r u' q' w' where o: "upload_once ops upload u q w = Some (r, u', q', w')"
      "invar (length flags + length readings) q'" "u_config u' = u_config u"
      "accounted content lost seen q w q' w'" "counters_ok u \<longrightarrow> counters_ok u'"
      by (rule upload_once_accounted [OF inv Cons.prems(2) assms])
    have size: "batch_size (u_config u') > 0" using o(3) Cons.prems(2) by simp
    show ?thesis
      using False o(1,5) Cons.IH [OF o(2) size, of w'] accounted_trans [OF o(4)] by fastforce
  qed
qed

text \<open>
  An attempt on a non-empty queue either shortens it or spends one attempt of the budget; after
  \<open>max_attempts u + 1\<close> attempts in a row the oldest batch is gone.
\<close>

lemma upload_once_progress:
  assumes inv: "invar (Suc n) q" and size: "batch_size (u_config u) > 0" and ok: "counters_ok u"
  obtains r u' q' w' where "upload_once ops upload u q w = Some (r, u', q', w')" "invar n q'"
    "u_config u' = u_config u" "counters_ok u'" "length (content q') \<le> length (content q)"
    "content q \<noteq> [] \<longrightarrow> length (content q') < length (content q) \<or>
       consecutive_failures u' = Suc (consecutive_failures u) \<and> content q' = content q"
  using inv size
proof (cases rule: upload_once_cases [where upload = upload and w = w])
  case (idle q')
  then show ?thesis using that [OF idle(1,2)] ok by simp
next
  case (sent out q' w')
  then show ?thesis using that [OF sent(1,2)] by simp
next
  case (skipped e out q' w')
  then show ?thesis using that [OF skipped(1,2)] by simp
next
  case (kept e q' w' out u')
  then show ?thesis using that [OF kept(1,2)] count_failure_counters [OF kept(8)] ok by simp
qed

lemma upload_loop_progress:
  "invar k q \<Longrightarrow> batch_size (u_config u) > 0 \<Longrightarrow> counters_ok u \<Longrightarrow>
   \<exists>u' q' w'. upload_loop_run ops upload (replicate k False) budget start readings u q w = Some (False, u', q', w') \<and>
     length (content q') \<le> length (content q) \<and>
     (content q \<noteq> [] \<longrightarrow> max_attempts u < consecutive_failures u + k \<longrightarrow> length (content q') < length (content q))"
proof (induction k arbitrary: u q w)
  case 0
  then show ?case using counters_ok_le [of u] by simp
next
  case (Suc k)
  obtain r u' q' w' where o: "upload_once ops upload u q w = Some (r, u', q', w')" "invar k q'"
    "u_config u' = u_config u" "counters_ok u'" "length (content q') \<le> length (content q)"
    "content q \<noteq> [] \<longrightarrow> length (content q') < length (content q) \<or>
       consecutive_failures u' = Suc (consecutive_failures u) \<and> content q' = content q"
    by (rule upload_once_progress [where upload = upload and w = w, OF Suc.prems])
  have "batch_size (u_config u') > 0" "max_attempts u' = max_attempts u"
    using o(3) Suc.prems(2) by (simp_all add: max_attempts_def)
  then obtain u2 q2 w2 where
    "upload_loop_run ops upload (replicate k False) budget start readings u' q' w' = Some (False, u2, q2, w2)"
    "length (content q2) \<le> length (content q')"
    "content q' \<noteq> [] \<longrightarrow> max_attempts u < consecutive_failures u' + k \<longrightarrow> length (content q2) < length (content q')"
    using Suc.IH [of q' u' w'] o(2,4) by auto
  then show ?case using o by fastforce
qed

end

subsection \<open>The spool implements it\<close>

definition spool_invar :: "(string \<Rightarrow> 'r option) \<Rightarrow> nat \<Rightarrow> fs \<times> event_spool \<Rightarrow> bool" where
  "spool_invar from_json n q \<longleftrightarrow>
     (case q of (d, s) \<Rightarrow> \<exists>fl segs. spool_rel d s fl segs \<and> head_seq s + n \<le> u64_max \<and>
        (\<forall>l \<in> set (fl_lines fl @ concat (map snd segs)). from_json l \<noteq> None))"

definition spool_content :: "(string \<Rightarrow> 'r option) \<Rightarrow> fs \<times> event_spool \<Rightarrow> 'r list" where
  "spool_content from_json q = (case q of (d, s) \<Rightarrow> stored_records from_json d s)"

definition spool_held :: "(string \<Rightarrow> 'r option) \<Rightarrow> fs \<times> event_spool \<Rightarrow> 'r list" where
  "spool_held from_json q =
     (case q of (d, s) \<Rightarrow>
        (case in_flight s of None \<Rightarrow> [] | Some n \<Rightarrow> List.map_filter from_json (file_lines d (inflight_path n))))"

definition spool_lost :: "fs \<times> event_spool \<Rightarrow> nat" where
  "spool_lost q = dropped_records (snd q)"

lemma spool_held_rel:
  assumes rel: "spool_rel d s fl segs"
  shows "spool_held from_json (d, s) = List.map_filter from_json (fl_lines fl)"
proof (cases fl)
  case (Some f)
  then have "map_of d (inflight_path (fst f)) = Some (enc_lines (snd f))" "seg_ok f"
    using map_of_inflight [OF rel] spool_relD(10) [OF rel] by (cases f; simp)+
  then show ?thesis
    using Some spool_relD(4) [OF rel]
    by (simp add: spool_held_def file_lines_def fl_lines_def seg_ok_def)
qed (simp add: spool_held_def spool_relD(4) [OF rel] fl_lines_def List.map_filter_simps)

lemma spool_content_rel:
  assumes "spool_rel d s fl segs"
  shows "spool_content from_json (d, s) =
    List.map_filter from_json (fl_lines fl) @ List.map_filter from_json (concat (map snd segs))"
  by (simp add: spool_content_def stored_records_def stored_lines_rel [OF assms])

lemma length_map_filter_total: "\<forall>l \<in> set ls. f l \<noteq> None \<Longrightarrow> length (List.map_filter f ls) = length ls"
  by (induction ls) (auto simp: List.map_filter_simps)

lemma spool_invarE:
  assumes "spool_invar from_json n q"
  obtains d s fl segs where "q = (d, s)" "spool_rel d s fl segs" "head_seq s + n \<le> u64_max"
    "\<forall>l \<in> set (fl_lines fl @ concat (map snd segs)). from_json l \<noteq> None"
  using assms by (cases q) (auto simp: spool_invar_def)

lemma spool_invarI:
  assumes "spool_rel d s fl segs" "head_seq s + n \<le> u64_max"
    "\<forall>l \<in> set (fl_lines fl @ concat (map snd segs)). from_json l \<noteq> None"
  shows "spool_invar from_json n (d, s)"
  unfolding spool_invar_def prod.case using assms by blast

lemma spool_drain_law:
  assumes "spool_invar from_json (Suc n) q"
  shows "\<exists>q'. op_drain (spool_drain from_json) q = (Inr (spool_held from_json q'), q') \<and>
    spool_invar from_json n q' \<and> spool_content from_json q' = spool_content from_json q \<and>
    prefix (spool_held from_json q') (spool_content from_json q) \<and>
    (spool_held from_json q' = [] \<longleftrightarrow> spool_content from_json q = []) \<and> spool_lost q' = spool_lost q"
proof -
  obtain d s fl segs where q: "q = (d, s)" "spool_rel d s fl segs" "head_seq s + Suc n \<le> u64_max"
    "\<forall>l \<in> set (fl_lines fl @ concat (map snd segs)). from_json l \<noteq> None"
    by (rule spool_invarE [OF assms])
  have room: "head_seq s < u64_max" using q(3) by simp
  obtain out d' s' fl' segs' where p: "drain_oldest from_json d s = (Inr out, d', s')"
    "spool_rel d' s' fl' segs'" "fl_lines fl' @ concat (map snd segs') = fl_lines fl @ concat (map snd segs)"
    "out = List.map_filter from_json (fl_lines fl')" "fl' = None \<longrightarrow> segs' = []" "fl' \<noteq> None \<longrightarrow> out \<noteq> []"
    "dropped_records s' = dropped_records s" "head_seq s' \<le> Suc (head_seq s)"
    "drain_oldest from_json d' s' = (Inr out, d', s')"
    by (rule drain_rel [OF q(2) room q(4)])
  have held: "spool_held from_json (d', s') = out"
    using p(4) by (simp add: spool_held_rel [OF p(2)])
  have content: "spool_content from_json (d', s') = spool_content from_json q"
    using p(3) by (simp add: q(1) spool_content_rel [OF q(2)] spool_content_rel [OF p(2)] flip: map_filter_append)
  have "spool_content from_json (d', s') = out @ List.map_filter from_json (concat (map snd segs'))"
    using p(4) by (simp add: spool_content_rel [OF p(2)])
  then have pre: "prefix out (spool_content from_json q)" "out = [] \<longleftrightarrow> spool_content from_json q = []"
    using content p(4-6) by (cases fl', auto simp: fl_lines_def List.map_filter_simps)+
  have "spool_invar from_json n (d', s')"
    by (rule spool_invarI [OF p(2)]) (use p(3,8) q(3,4) in simp_all)
  then show ?thesis
    using p(1,7) held content pre by (intro exI [of _ "(d', s')"]) (simp add: q(1) spool_drain_def spool_lost_def)
qed

lemma spool_redeliver_law:
  assumes "spool_invar from_json (Suc n) q" "spool_held from_json q \<noteq> []"
  shows "op_drain (spool_drain from_json) q = (Inr (spool_held from_json q), q)"
proof -
  obtain d s fl segs where q: "q = (d, s)" "spool_rel d s fl segs" "head_seq s + Suc n \<le> u64_max"
    "\<forall>l \<in> set (fl_lines fl @ concat (map snd segs)). from_json l \<noteq> None"
    by (rule spool_invarE [OF assms(1)])
  show ?thesis
  proof (cases fl)
    case None
    then show ?thesis
      using assms(2) by (simp add: q(1) spool_held_rel [OF q(2)] fl_lines_def List.map_filter_simps)
  next
    case (Some f)
    then show ?thesis
      using drain_inflight [OF q(2) [unfolded Some]]
      by (simp add: q(1) spool_held_rel [OF q(2)] fl_lines_def spool_drain_def)
  qed
qed

lemma spool_ack_law:
  assumes "spool_invar from_json n q"
  shows "\<exists>q'. op_ack (spool_drain from_json) q = (Inr (), q') \<and> spool_invar from_json n q' \<and>
    spool_held from_json q' = [] \<and> spool_content from_json q = spool_held from_json q @ spool_content from_json q' \<and>
    spool_lost q' = spool_lost q"
proof -
  obtain d s fl segs where q: "q = (d, s)" "spool_rel d s fl segs" "head_seq s + n \<le> u64_max"
    "\<forall>l \<in> set (fl_lines fl @ concat (map snd segs)). from_json l \<noteq> None"
    by (rule spool_invarE [OF assms])
  show ?thesis
  proof (cases fl)
    case None
    then have "ack d s = (Inr False, d, s)" using spool_relD(4) [OF q(2)] by (simp add: ack_def)
    then show ?thesis
      using None assms
      by (simp add: q(1) spool_drain_def spool_held_rel [OF q(2)] fl_lines_def List.map_filter_simps)
  next
    case (Some f)
    obtain d' where p: "ack d s = (Inr True, d', s\<lparr>in_flight := None\<rparr>)"
        "spool_rel d' (s\<lparr>in_flight := None\<rparr>) None segs"
      by (rule ack_rel [OF q(2) [unfolded Some]])
    have "spool_invar from_json n (d', s\<lparr>in_flight := None\<rparr>)"
      by (rule spool_invarI [OF p(2)]) (use q in \<open>simp_all add: fl_lines_def\<close>)
    then show ?thesis
      using p(1) by (simp add: q(1) spool_drain_def spool_held_rel [OF q(2)] spool_held_rel [OF p(2)]
          spool_content_rel [OF q(2)] spool_content_rel [OF p(2)] fl_lines_def spool_lost_def List.map_filter_simps)
  qed
qed

lemma spool_skip_law:
  assumes "spool_invar from_json n q"
  shows "\<exists>q'. op_skip (spool_drain from_json) q = (Inr (), q') \<and> spool_invar from_json n q' \<and>
    spool_held from_json q' = [] \<and> spool_content from_json q = spool_held from_json q @ spool_content from_json q' \<and>
    spool_lost q' = spool_lost q + length (spool_held from_json q)"
proof -
  obtain d s fl segs where q: "q = (d, s)" "spool_rel d s fl segs" "head_seq s + n \<le> u64_max"
    "\<forall>l \<in> set (fl_lines fl @ concat (map snd segs)). from_json l \<noteq> None"
    by (rule spool_invarE [OF assms])
  show ?thesis
  proof (cases fl)
    case None
    then have "skip d s = (Inr False, d, s)" using spool_relD(4) [OF q(2)] by (simp add: skip_def)
    then show ?thesis
      using None assms
      by (simp add: q(1) spool_drain_def spool_held_rel [OF q(2)] fl_lines_def List.map_filter_simps)
  next
    case (Some f)
    let ?s' = "s\<lparr>in_flight := None, dropped_records := dropped_records s + length (snd f)\<rparr>"
    obtain d' where p: "skip d s = (Inr True, d', ?s')" "spool_rel d' ?s' None segs"
      by (rule skip_rel [OF q(2) [unfolded Some]])
    have "spool_invar from_json n (d', ?s')"
      by (rule spool_invarI [OF p(2)]) (use q in \<open>simp_all add: fl_lines_def\<close>)
    moreover have "length (List.map_filter from_json (snd f)) = length (snd f)"
      using q(4) Some by (intro length_map_filter_total) (simp add: fl_lines_def)
    ultimately show ?thesis
      using p(1) Some by (simp add: q(1) spool_drain_def spool_held_rel [OF q(2)] spool_held_rel [OF p(2)]
          spool_content_rel [OF q(2)] spool_content_rel [OF p(2)] fl_lines_def spool_lost_def List.map_filter_simps)
  qed
qed

interpretation sp: event_drain "spool_invar from_json" "spool_content from_json" "spool_held from_json"
    spool_lost "spool_drain from_json" for from_json
  by unfold_locales (fact spool_drain_law spool_redeliver_law spool_ack_law spool_skip_law)+

lemma spool_run_invar:
  assumes codec: "codec_ok to_json from_json" and len: "length ops + n \<le> u64_max"
  obtains d s g where "spool_run to_json from_json mx ops = Some (d, s, g)" "spool_invar from_json n (d, s)"
proof -
  have "length ops \<le> u64_max" using len by simp
  then obtain d s g where run: "spool_run to_json from_json mx ops = Some (d, s, g)"
    and inv: "ledger_inv to_json from_json (d, s, g) (length ops)"
    by (rule spool_run_inv [OF codec])
  obtain fl segs rs where a: "spool_rel d s fl segs" "head_seq s \<le> length ops"
    "map Some (fl_lines fl @ concat (map snd segs)) = map to_json rs"
    using inv by (auto simp: ledger_inv_def)
  have "from_json l \<noteq> None" if "l \<in> set (fl_lines fl @ concat (map snd segs))" for l
  proof -
    have "Some l \<in> set (map to_json rs)" using that unfolding a(3) [symmetric] by auto
    then show ?thesis using codec by (auto simp: codec_ok_def)
  qed
  then have "spool_invar from_json n (d, s)"
    by (intro spool_invarI [OF a(1)]) (use a(2) len in auto)
  then show ?thesis using that run by blast
qed

subsection \<open>The upload pipeline\<close>

text \<open>
  Any server, with a log of the batches it answered positively kept beside its state. The answers
  and the state of the server are those of the server alone.
\<close>

definition logged ::
    "('w \<Rightarrow> 'e list \<Rightarrow> (transport_error + upload_response) \<times> 'w) \<Rightarrow> 'w \<times> 'e list \<Rightarrow> 'e list \<Rightarrow>
     (transport_error + upload_response) \<times> ('w \<times> 'e list)" where
  "logged upload wl b =
     (case upload (fst wl) b of
        (Inr r, w') \<Rightarrow> (Inr r, (w', snd wl @ b))
      | (Inl e, w') \<Rightarrow> (Inl e, (w', snd wl)))"

lemma logged_server_log: "server_log snd (logged upload)"
  by (simp add: server_log_def logged_def split: prod.split sum.split)

lemma logged_batches: "map_prod id fst (upload_batches (logged upload) wl bs) = upload_batches upload (fst wl) bs"
  by (induction bs arbitrary: wl) (auto simp: logged_def split: prod.split sum.split)

lemma logged_batchesD:
  "upload_batches (logged upload) wl bs = (r, wl') \<Longrightarrow> upload_batches upload (fst wl) bs = (r, fst wl')"
  using logged_batches [of upload wl bs] by simp

definition unlogged :: "('r \<times> 'u \<times> 'q \<times> 'w \<times> 'e list) option \<Rightarrow> ('r \<times> 'u \<times> 'q \<times> 'w) option" where
  "unlogged x = map_option (\<lambda>(r, u, q, wl). (r, u, q, fst wl)) x"

lemma unlogged_simps [simp]: "unlogged None = None" "unlogged (Some (r, u, q, wl)) = Some (r, u, q, fst wl)"
  by (simp_all add: unlogged_def)

lemma unlogged_stop: "unlogged (map_option (\<lambda>(_, y). (True, y)) x) = map_option (\<lambda>(_, y). (True, y)) (unlogged x)"
  by (auto simp: unlogged_def option.map_comp comp_def split_beta)

lemma logged_once: "unlogged (upload_once ops (logged upload) u q wl) = upload_once ops upload u q (fst wl)"
  by (auto simp: upload_once_def dest: logged_batchesD split: prod.split sum.split option.split)

lemma logged_onceD:
  "upload_once ops (logged upload) u q wl = None \<Longrightarrow> upload_once ops upload u q (fst wl) = None"
  "upload_once ops (logged upload) u q wl = Some (r, u', q', wl') \<Longrightarrow> upload_once ops upload u q (fst wl) = Some (r, u', q', fst wl')"
  using logged_once [of ops upload u q wl] by simp_all

lemma logged_drain_loop:
  "unlogged (final_drain_loop ops (logged upload) deadline readings n u q wl) =
     final_drain_loop ops upload deadline readings n u q (fst wl)"
  by (induction readings arbitrary: n u q wl) (auto dest: logged_onceD split: option.split sum.split prod.split)

lemma logged_loop_run:
  "unlogged (upload_loop_run ops (logged upload) flags budget start readings u q wl) =
     upload_loop_run ops upload flags budget start readings u q (fst wl)"
proof (induction flags arbitrary: u q wl)
  case (Cons stopped flags)
  have "unlogged (final_drain ops (logged upload) budget start readings u q wl) = final_drain ops upload budget start readings u q (fst wl)"
    by (simp add: final_drain_def logged_drain_loop)
  then show ?case
    using Cons.IH by (auto simp: unlogged_stop dest: logged_onceD split: option.split prod.split)
qed simp

text \<open>
  C2: The upload loop over the spool never loses an event without an answer: from any state a run
  of the spool reaches, for every server and whenever the stop flag is raised, every event that
  leaves the spool was in a batch the server answered positively, in order, or is counted as
  dropped, and what is left is the unread rest of the spool. What the server does with a batch it
  answers positively, and the number of accepted events in its answer, play no part: the uploader
  does not read it.
\<close>

theorem upload_loop_accounts_for_spool:
  assumes codec: "codec_ok to_json from_json"
    and size: "batch_size c > 0" and len: "length ops + (length flags + length readings) \<le> u64_max"
  shows "\<exists>d s g b u' q' w' answered. spool_run to_json from_json mx ops = Some (d, s, g) \<and>
    upload_loop_run (spool_drain from_json) upload flags budget start readings (uploader_new c) (d, s) w =
      Some (b, u', q', w') \<and>
    upload_loop_run (spool_drain from_json) (logged upload) flags budget start readings (uploader_new c) (d, s) (w, []) =
      Some (b, u', q', w', answered) \<and>
    accounted (spool_content from_json) spool_lost snd (d, s) (w, []) q' (w', answered)"
proof -
  obtain d s g where run: "spool_run to_json from_json mx ops = Some (d, s, g)"
    and inv: "spool_invar from_json (length flags + length readings) (d, s)"
    by (rule spool_run_invar [OF codec len])
  have "batch_size (u_config (uploader_new c)) > 0" using size by (simp add: uploader_new_def)
  then obtain b u' q' w' answered where l:
    "upload_loop_run (spool_drain from_json) (logged upload) flags budget start readings (uploader_new c) (d, s) (w, []) =
      Some (b, u', q', w', answered)"
    "accounted (spool_content from_json) spool_lost snd (d, s) (w, []) q' (w', answered)"
    using sp.upload_loop_accounted [OF logged_server_log inv, of "uploader_new c" upload budget start "(w, [])"] by auto
  have "upload_loop_run (spool_drain from_json) upload flags budget start readings (uploader_new c) (d, s) w = Some (b, u', q', w')"
    using logged_loop_run [of "spool_drain from_json" upload flags budget start readings "uploader_new c" "(d, s)" "(w, [])"] l(1) by simp
  then show ?thesis using run l by blast
qed

text \<open>
  A server of numbers that answers 503 to every batch holding 13 and 200 to the others, keeping
  only the even numbers of a batch it accepts.
\<close>

definition demo_upload :: "nat list \<Rightarrow> nat list \<Rightarrow> (transport_error + upload_response) \<times> nat list" where
  "demo_upload w b = (if 13 \<in> set b then (Inl (Server_Error 503 ''busy''), w)
     else (Inr \<lparr>accepted = length (filter even b), batch_id = None\<rparr>, w @ filter even b))"

theorem upload_loop_accounts_for_spool_witness:
  "\<exists>d s g b u' q' w' answered. spool_run nat_to_json parse_u64 1000 [Push 12, Push 13, Drain, Push 14] = Some (d, s, g) \<and>
    upload_loop_run (spool_drain parse_u64) demo_upload [False, False, True] 3000 0 [10, 20, 5000]
      (uploader_new default_config) (d, s) [] = Some (b, u', q', w') \<and>
    upload_loop_run (spool_drain parse_u64) (logged demo_upload) [False, False, True] 3000 0 [10, 20, 5000]
      (uploader_new default_config) (d, s) ([], []) = Some (b, u', q', w', answered) \<and>
    accounted (spool_content parse_u64) spool_lost snd (d, s) ([], []) q' (w', answered)"
  by (rule upload_loop_accounts_for_spool [OF nat_codec_ok])
     (simp_all add: default_config_def u64_max_def)

lemma progress_from_invar:
  assumes inv: "spool_invar from_json k (d, s)" and size: "batch_size c > 0"
    and more: "max_attempts (uploader_new c) < k"
  shows "\<exists>u' q' w'. upload_loop_run (spool_drain from_json) upload (replicate k False) budget start readings
      (uploader_new c) (d, s) w = Some (False, u', q', w') \<and>
    (spool_content from_json (d, s) = [] \<and> spool_content from_json q' = [] \<or>
     length (spool_content from_json q') < length (spool_content from_json (d, s)))"
proof -
  have "batch_size (u_config (uploader_new c)) > 0" using size by (simp add: uploader_new_def)
  then obtain u' q' w' where "upload_loop_run (spool_drain from_json) upload (replicate k False) budget start readings
      (uploader_new c) (d, s) w = Some (False, u', q', w')"
    "length (spool_content from_json q') \<le> length (spool_content from_json (d, s))"
    "spool_content from_json (d, s) \<noteq> [] \<longrightarrow> max_attempts (uploader_new c) < consecutive_failures (uploader_new c) + k \<longrightarrow>
      length (spool_content from_json q') < length (spool_content from_json (d, s))"
    using sp.upload_loop_progress [OF inv, of "uploader_new c" upload budget start readings w] by auto
  then show ?thesis using more by (cases "spool_content from_json (d, s) = []") auto
qed

text \<open>
  C24: The uploader makes progress on a spool that only its own operations have written, in any
  order and with any crash recoveries, and whose codec reads back what it writes: once more
  attempts in a row are made than the two retry budgets allow together, a non-empty spool holds
  fewer events than before, whatever the server does, and an empty one stays empty. A segment that
  does not parse, which no such run writes, is the case of the next property.
\<close>

theorem upload_makes_progress:
  assumes codec: "codec_ok to_json from_json" and len: "length ops + k \<le> u64_max"
    and size: "batch_size c > 0" and more: "max_attempts (uploader_new c) < k"
  shows "\<exists>d s g u' q' w'. spool_run to_json from_json mx ops = Some (d, s, g) \<and>
    upload_loop_run (spool_drain from_json) upload (replicate k False) budget start readings
      (uploader_new c) (d, s) w = Some (False, u', q', w') \<and>
    (spool_content from_json (d, s) = [] \<and> spool_content from_json q' = [] \<or>
     length (spool_content from_json q') < length (spool_content from_json (d, s)))"
proof -
  obtain d s g where run: "spool_run to_json from_json mx ops = Some (d, s, g)" and inv: "spool_invar from_json k (d, s)"
    by (rule spool_run_invar [OF codec len])
  show ?thesis
    using run progress_from_invar [OF inv size more, of upload budget start readings w] by blast
qed

theorem upload_makes_progress_witness:
  "\<exists>d s g u' q' w'. spool_run nat_to_json parse_u64 1000 [Push 13, Drain, Reopen] = Some (d, s, g) \<and>
    upload_loop_run (spool_drain parse_u64) demo_upload (replicate 25 False) 0 0 []
      (uploader_new default_config) (d, s) [] = Some (False, u', q', w') \<and>
    (spool_content parse_u64 (d, s) = [] \<and> spool_content parse_u64 q' = [] \<or>
     length (spool_content parse_u64 q') < length (spool_content parse_u64 (d, s)))"
  by (rule upload_makes_progress [OF nat_codec_ok])
     (simp_all add: default_config_def max_attempts_def uploader_new_def u64_max_def)

text \<open>
  C25: A segment without a single parseable record wedges the pipeline: when the oldest segment
  parses to no record (a crash in the middle of its first append leaves such a file), one attempt
  puts it in flight and reports an empty spool, and from then on every attempt reports an empty
  spool and changes nothing, whatever newer segments hold.
\<close>

theorem unparseable_segment_wedges_upload:
  assumes "in_flight s = None" "segment_seqs d = n # rest"
    and "map_of d (segment_path n) = Some content" "parse_records from_json content = []"
  shows "\<exists>d' s'. upload_once (spool_drain from_json) upload u (d, s) w = Some (Inr 0, u, (d', s'), w) \<and>
    upload_once (spool_drain from_json) upload u (d', s') w = Some (Inr 0, u, (d', s'), w) \<and>
    in_flight s' = Some n"
proof -
  define d' where "d' = AList.update (inflight_path n) content (AList.delete (segment_path n) d)"
  define s' where "s' = (if n = head_seq s then rotate_head (s\<lparr>in_flight := Some n\<rparr>) else s\<lparr>in_flight := Some n\<rparr>)"
  have drain: "drain_oldest from_json d s = (Inr [], d', s')"
    using assms by (simp add: drain_oldest_def fs_read_def fs_rename_def Let_def d'_def s'_def)
  have flight: "in_flight s' = Some n" by (simp add: s'_def rotate_head_def)
  have "map_of d' (inflight_path n) = Some content" by (simp add: d'_def update_conv')
  then have again: "drain_oldest from_json d' s' = (Inr [], d', s')"
    using flight assms(4) by (simp add: drain_oldest_def fs_read_def)
  show ?thesis
    using drain again flight by (intro exI [of _ d'] exI [of _ s']) (simp add: upload_once_def spool_drain_def)
qed

theorem unparseable_segment_wedges_upload_witness:
  "\<exists>d' s'. upload_once (spool_drain parse_u64) demo_upload (uploader_new default_config)
      ([(segment_path 0, ''12x''), (segment_path 1, ''7\<newline>'')],
       \<lparr>max_bytes = 1000, head_seq = 2, head_records = 0, head_bytes = 0, dropped_records = 0, in_flight = None\<rparr>) [] =
      Some (Inr 0, uploader_new default_config, (d', s'), []) \<and>
    upload_once (spool_drain parse_u64) demo_upload (uploader_new default_config) (d', s') [] =
      Some (Inr 0, uploader_new default_config, (d', s'), []) \<and>
    in_flight s' = Some 0"
proof (rule unparseable_segment_wedges_upload)
  show "segment_seqs [(segment_path 0, ''12x''), (segment_path 1, ''7\<newline>'')] = 0 # [1]"
    by (simp add: segment_seqs_def List.map_filter_def u64_max_def)
  show "parse_records parse_u64 ''12x'' = []" by code_simp
qed simp_all

text \<open>
  The backoff is zero exactly without failures (for positive delays), never exceeds the
  configured maximum, and never shrinks as failures accumulate.
\<close>

theorem backoff_bounds:
  assumes "u_config v = u_config u" "consecutive_failures u \<le> consecutive_failures v"
    and "0 < retry_base (u_config u)" "retry_base (u_config u) \<le> u64_max"
    and "0 < retry_max (u_config u)" "retry_max (u_config u) \<le> u64_max"
  shows "backoff_duration u \<le> retry_max (u_config u) \<and> backoff_duration u \<le> backoff_duration v \<and>
    (backoff_duration u = 0 \<longleftrightarrow> \<not> is_failing u)"
proof -
  let ?b = "retry_base (u_config u)" and ?m = "retry_max (u_config u)"
  have mod: "?b mod 2 ^ 64 = ?b" "?m mod 2 ^ 64 = ?m"
    using assms(4,6) by (simp_all add: u64_max_def)
  define f where "f k = min (min (?b * 2 ^ min (k - 1) 10) u64_max) ?m" for k :: nat
  have eq: "backoff_duration x = (if consecutive_failures x = 0 then 0 else f (consecutive_failures x))"
    if "u_config x = u_config u" for x
    using that mod by (simp add: backoff_duration_def Let_def sat_mul_def f_def)
  have "?b * 2 ^ min (j - 1) 10 \<le> ?b * 2 ^ min (k - 1) 10" if "j \<le> k" for j k :: nat
    using that by (intro mult_le_mono2 power_increasing) auto
  then have mono: "f j \<le> f k" if "j \<le> k" for j k
    using that unfolding f_def by (intro min.mono order_refl)
  have pos: "0 < f k" for k using assms(3-5) by (simp add: f_def)
  have "f k \<le> ?m" for k by (simp add: f_def)
  then show ?thesis
    using mono [OF assms(2)] pos [of "consecutive_failures u"] eq [of u] eq [of v] assms(1,2)
    by (simp add: is_failing_def)
qed

theorem backoff_bounds_witness:
  "backoff_duration (uploader_new default_config\<lparr>consecutive_failures := 2\<rparr>) \<le> 60000 \<and>
   backoff_duration (uploader_new default_config\<lparr>consecutive_failures := 2\<rparr>) \<le>
     backoff_duration (uploader_new default_config\<lparr>consecutive_failures := 9\<rparr>) \<and>
   (backoff_duration (uploader_new default_config\<lparr>consecutive_failures := 2\<rparr>) = 0 \<longleftrightarrow>
     \<not> is_failing (uploader_new default_config\<lparr>consecutive_failures := 2\<rparr>))"
  using backoff_bounds [of "uploader_new default_config\<lparr>consecutive_failures := 9\<rparr>"
      "uploader_new default_config\<lparr>consecutive_failures := 2\<rparr>"]
  by (simp add: uploader_new_def default_config_def u64_max_def)

end
