(* ===== verification/Bounded.thy ===== *)
theory Bounded
  imports Prelude
begin

text \<open>
  The LRU-bounded map of \<open>crates/store/src/bounded.rs\<close>: a hash map whose entries carry
  the tick of their last use, a capacity, a use counter and a count of evictions. The
  record has the source's four fields; every method is one definition. A method that
  returns a mutable reference is split into the method itself and \<open>bm_write\<close>, the
  assignment its caller makes through the reference.

  The second half proves that the map keeps its invariant under every method, that
  eviction removes the least recently used entries and never the freshest one (so the
  \<open>expect\<close> of \<open>get_or_insert_with\<close> cannot fail), and states what the clients of
  the map rely on as the locale \<open>lru_store\<close>, interpreted on these definitions.
\<close>

record ('k, 'v) bounded_map =
  entries :: "('k \<times> ('v \<times> nat)) list"
  bm_cap :: nat
  tick :: nat
  evicted :: nat

definition bm_empty :: "nat \<Rightarrow> ('k, 'v) bounded_map" where
  "bm_empty c = \<lparr>entries = [], bm_cap = c, tick = 0, evicted = 0\<rparr>"

text \<open>\<open>BoundedMap::new\<close> asserts \<open>cap >= 1\<close>; the failed assertion is \<open>None\<close>.\<close>

definition bm_new :: "nat \<Rightarrow> ('k, 'v) bounded_map option" where
  "bm_new c = (if c \<ge> 1 then Some (bm_empty c) else None)"

definition next_tick :: "('k, 'v) bounded_map \<Rightarrow> ('k, 'v) bounded_map" where
  "next_tick m = m\<lparr>tick := tick m + 1\<rparr>"

definition bm_len :: "('k, 'v) bounded_map \<Rightarrow> nat" where
  "bm_len m = length (entries m)"

definition bm_is_empty :: "('k, 'v) bounded_map \<Rightarrow> bool" where
  "bm_is_empty m = (entries m = [])"

definition bm_iter :: "('k, 'v) bounded_map \<Rightarrow> ('k \<times> 'v) list" where
  "bm_iter m = map (\<lambda>(k, v, t). (k, v)) (entries m)"

definition evict_order :: "('k \<times> ('v \<times> nat)) list \<Rightarrow> (nat \<times> 'k) list" where
  "evict_order es = sort_key fst (map (\<lambda>(k, v, t). (t, k)) es)"

definition evict_batch :: "('k, 'v) bounded_map \<Rightarrow> ('k, 'v) bounded_map" where
  "evict_batch m =
     (let excess = length (entries m) - bm_cap m;
          batch = excess + max (bm_cap m div 8) 1 - 1;
          victims = take (max batch 1) (evict_order (entries m))
      in m\<lparr>entries := fold (\<lambda>(t, k). AList.delete k) victims (entries m),
           evicted := evicted m + length victims\<rparr>)"

definition bm_insert :: "('k, 'v) bounded_map \<Rightarrow> 'k \<Rightarrow> 'v \<Rightarrow> ('k, 'v) bounded_map" where
  "bm_insert m k v =
     (let m1 = next_tick m;
          m2 = m1\<lparr>entries := AList.update k (v, tick m1) (entries m1)\<rparr>
      in if length (entries m2) > bm_cap m2 then evict_batch m2 else m2)"

definition bm_get :: "('k, 'v) bounded_map \<Rightarrow> 'k \<Rightarrow> ('k, 'v) bounded_map \<times> 'v option" where
  "bm_get m k =
     (let m1 = next_tick m in
      case map_of (entries m1) k of
        None \<Rightarrow> (m1, None)
      | Some (v, t) \<Rightarrow>
          (m1\<lparr>entries := AList.update k (v, tick m1) (entries m1)\<rparr>, Some v))"

definition bm_get_mut :: "('k, 'v) bounded_map \<Rightarrow> 'k \<Rightarrow> ('k, 'v) bounded_map \<times> 'v option" where
  "bm_get_mut m k =
     (let m1 = next_tick m in
      case map_of (entries m1) k of
        None \<Rightarrow> (m1, None)
      | Some (v, t) \<Rightarrow>
          (m1\<lparr>entries := AList.update k (v, tick m1) (entries m1)\<rparr>, Some v))"

definition bm_write :: "('k, 'v) bounded_map \<Rightarrow> 'k \<Rightarrow> 'v \<Rightarrow> ('k, 'v) bounded_map" where
  "bm_write m k v = m\<lparr>entries := AList.map_entry k (\<lambda>(_, t). (v, t)) (entries m)\<rparr>"

definition bm_peek :: "('k, 'v) bounded_map \<Rightarrow> 'k \<Rightarrow> 'v option" where
  "bm_peek m k = map_option fst (map_of (entries m) k)"

definition bm_remove :: "('k, 'v) bounded_map \<Rightarrow> 'k \<Rightarrow> ('k, 'v) bounded_map \<times> 'v option" where
  "bm_remove m k =
     (m\<lparr>entries := AList.delete k (entries m)\<rparr>, map_option fst (map_of (entries m) k))"

text \<open>The second component is the reference handed out; \<open>None\<close> is the failed \<open>expect\<close>.\<close>

definition bm_get_or_insert_with ::
    "('k, 'v) bounded_map \<Rightarrow> 'k \<Rightarrow> 'v \<Rightarrow> ('k, 'v) bounded_map \<times> 'v option" where
  "bm_get_or_insert_with m k d =
     (let m1 = next_tick m;
          m2 = (if map_of (entries m1) k = None
                then (let m3 = m1\<lparr>entries := AList.update k (d, tick m1) (entries m1)\<rparr>
                      in if length (entries m3) > bm_cap m3 then evict_batch m3 else m3)
                else m1)
      in case map_of (entries m2) k of
           None \<Rightarrow> (m2, None)
         | Some (v, t) \<Rightarrow>
             (m2\<lparr>entries := AList.update k (v, tick m1) (entries m2)\<rparr>, Some v))"

fun bm_extend :: "('k, 'v) bounded_map \<Rightarrow> ('k \<times> 'v) list \<Rightarrow> ('k, 'v) bounded_map" where
  "bm_extend m [] = m"
| "bm_extend m ((k, v) # kvs) = bm_extend (bm_insert m k v) kvs"

lemmas bm_simps = next_tick_def bm_empty_def bm_new_def bm_len_def bm_is_empty_def
  bm_insert_def bm_get_def bm_get_mut_def bm_write_def bm_peek_def bm_remove_def
  bm_get_or_insert_with_def Let_def


subsection \<open>The invariant\<close>

text \<open>
  Keys are distinct, ticks are distinct and none is ahead of the use counter, and the
  map holds at most \<open>cap\<close> entries. Distinct ticks make the eviction order independent
  of the hash map's iteration order and of the instability of the sort.
\<close>

definition entries_ok :: "nat \<Rightarrow> ('k \<times> ('v \<times> nat)) list \<Rightarrow> bool" where
  "entries_ok n es \<longleftrightarrow>
     distinct (map fst es) \<and> distinct (map (snd \<circ> snd) es) \<and> (\<forall>e \<in> set es. snd (snd e) \<le> n)"

definition bm_wf :: "('k, 'v) bounded_map \<Rightarrow> bool" where
  "bm_wf m \<longleftrightarrow> bm_cap m \<ge> 1 \<and> entries_ok (tick m) (entries m) \<and> length (entries m) \<le> bm_cap m"

lemma entries_ok_mono: "entries_ok n es \<Longrightarrow> n \<le> n' \<Longrightarrow> entries_ok n' es"
  by (auto simp: entries_ok_def)

lemma entries_ok_filter: "entries_ok n es \<Longrightarrow> entries_ok n (filter P es)"
  by (simp add: entries_ok_def distinct_map_filter)

lemma entries_ok_delete: "entries_ok n es \<Longrightarrow> entries_ok n (AList.delete k es)"
  by (simp add: AList.delete_eq entries_ok_filter)

lemma set_update_subset: "set (AList.update k v es) \<subseteq> insert (k, v) (set es)"
  by (induction es) auto

lemma ticks_update_subset:
  "(snd \<circ> snd) ` set (AList.update k (v, t) es) \<subseteq> insert t ((snd \<circ> snd) ` set es)"
  using image_mono [OF set_update_subset [of k "(v, t)" es], of "snd \<circ> snd"] by simp

lemma all_less_notin: "\<forall>x \<in> A. x < t \<Longrightarrow> t \<notin> (A :: nat set)"
  by blast

lemma distinct_ticks_update:
  fixes t :: nat
  assumes "distinct (map (snd \<circ> snd) es)" and "\<forall>x \<in> (snd \<circ> snd) ` set es. x < t"
  shows "distinct (map (snd \<circ> snd) (AList.update k (v, t) es))"
  using assms
proof (induction es)
  case (Cons e es)
  have "\<forall>x \<in> insert ((snd \<circ> snd) e) ((snd \<circ> snd) ` set es). x < t"
    using Cons.prems(2) by simp
  then have "t \<notin> insert ((snd \<circ> snd) e) ((snd \<circ> snd) ` set es)"
    by (rule all_less_notin)
  moreover have "(snd \<circ> snd) e \<notin> (snd \<circ> snd) ` set es"
    using Cons.prems(1) by simp
  ultimately have "(snd \<circ> snd) e \<notin> (snd \<circ> snd) ` set (AList.update k (v, t) es)"
    using ticks_update_subset [of k v t es] by blast
  moreover have "distinct (map (snd \<circ> snd) (AList.update k (v, t) es))"
    using Cons by (simp add: comp_def)
  ultimately show ?case
    using \<open>t \<notin> _\<close> Cons.prems(1) by (cases e) (simp add: comp_def)
qed simp

lemma entries_ok_update:
  assumes "entries_ok n es" and "n < t"
  shows "entries_ok t (AList.update k (v, t) es)"
proof -
  have "\<forall>x \<in> (snd \<circ> snd) ` set es. x < t"
    using assms by (auto simp: entries_ok_def)
  moreover have "distinct (map (snd \<circ> snd) es)" "distinct (map fst es)"
    using assms(1) by (simp_all add: entries_ok_def)
  moreover have "\<forall>e \<in> set (AList.update k (v, t) es). snd (snd e) \<le> t"
    using ticks_update_subset [of k v t es] calculation(1) by force
  ultimately show ?thesis
    by (simp add: entries_ok_def distinct_update distinct_ticks_update)
qed

lemma map_entry_keys [simp]: "map fst (AList.map_entry k f es) = map fst es"
  by (induction es) auto

lemma map_entry_ticks [simp]:
  "map (snd \<circ> snd) (AList.map_entry k (\<lambda>(_, t). (v, t)) es) = map (snd \<circ> snd) es"
  by (induction es) auto

lemma length_map_entry [simp]: "length (AList.map_entry k f es) = length es"
  by (metis length_map map_entry_keys)

lemma entries_ok_map_entry:
  assumes "entries_ok n es"
  shows "entries_ok n (AList.map_entry k (\<lambda>(_, t). (v, t)) es)"
proof -
  have "(snd \<circ> snd) ` set (AList.map_entry k (\<lambda>(_, t). (v, t)) es) = (snd \<circ> snd) ` set es"
    by (metis map_entry_ticks set_map)
  with assms show ?thesis
    unfolding entries_ok_def by (simp add: image_iff set_eq_iff) (metis comp_apply)
qed

subsection \<open>Eviction\<close>

lemma set_evict_order: "set (evict_order es) = (\<lambda>(k, v, t). (t, k)) ` set es"
  by (simp add: evict_order_def)

lemma length_evict_order [simp]: "length (evict_order es) = length es"
  by (simp add: evict_order_def)

lemma sorted_evict_order: "sorted (map fst (evict_order es))"
  by (simp add: evict_order_def)

lemma distinct_evict_order_keys:
  assumes "distinct (map fst es)"
  shows "distinct (map snd (evict_order es))"
proof -
  have "distinct es" and inj: "inj_on fst (set es)"
    using assms by (simp_all add: distinct_map)
  moreover have "inj_on (\<lambda>(k, v, t). (t, k)) (set es)"
    using inj by (fastforce simp: inj_on_def)
  ultimately have "distinct (evict_order es)"
    by (simp add: evict_order_def distinct_map)
  moreover have "inj_on snd (set (evict_order es))"
    using inj by (fastforce simp: inj_on_def set_evict_order)
  ultimately show ?thesis by (simp add: distinct_map)
qed

lemma fold_delete_filter:
  "fold (\<lambda>(t, k). AList.delete k) vs es = filter (\<lambda>e. fst e \<notin> snd ` set vs) es"
proof (induction vs arbitrary: es)
  case (Cons v vs)
  then show ?case
    by (cases v) (auto simp: AList.delete_eq intro!: filter_cong)
qed simp

lemma evict_order_mem:
  assumes "distinct (map fst es)" and "(k, v, t) \<in> set es" and "(t', k) \<in> set (evict_order es)"
  shows "t' = t"
proof -
  obtain v' where "(k, v', t') \<in> set es"
    using assms(3) by (auto simp: set_evict_order)
  then show ?thesis
    using assms(1,2) by (metis map_of_is_SomeI option.inject prod.inject)
qed

lemma entry_in_take_or_drop:
  assumes ok: "distinct (map fst es)" and e: "(k, v, t) \<in> set es"
  shows "k \<in> snd ` set (take n (evict_order es)) \<longleftrightarrow> (t, k) \<in> set (take n (evict_order es))"
    and "k \<notin> snd ` set (take n (evict_order es)) \<Longrightarrow> (t, k) \<in> set (drop n (evict_order es))"
proof -
  show iff: "k \<in> snd ` set (take n (evict_order es)) \<longleftrightarrow> (t, k) \<in> set (take n (evict_order es))"
    using evict_order_mem [OF ok e] by (force dest: in_set_takeD)
  have "(t, k) \<in> set (evict_order es)"
    using e by (force simp: set_evict_order)
  then have "(t, k) \<in> set (take n (evict_order es)) \<or> (t, k) \<in> set (drop n (evict_order es))"
    by (metis Un_iff append_take_drop_id set_append)
  then show "k \<notin> snd ` set (take n (evict_order es)) \<Longrightarrow> (t, k) \<in> set (drop n (evict_order es))"
    using iff by blast
qed

text \<open>Everything evicted was used before everything kept.\<close>

lemma evict_take_lru:
  assumes ok: "entries_ok n es"
    and gone: "(k, v, t) \<in> set es" "k \<in> snd ` set (take j (evict_order es))"
    and kept: "(k', v', t') \<in> set es" "k' \<notin> snd ` set (take j (evict_order es))"
  shows "t < t'"
proof -
  have d: "distinct (map fst es)" using ok by (simp add: entries_ok_def)
  have "(t, k) \<in> set (take j (evict_order es))"
    using entry_in_take_or_drop(1) [OF d gone(1)] gone(2) by blast
  moreover have "(t', k') \<in> set (drop j (evict_order es))"
    using entry_in_take_or_drop(2) [OF d kept(1)] kept(2) by blast
  ultimately have "t \<le> t'"
    using take_sorted_split [OF sorted_evict_order] by fastforce
  moreover have "t \<noteq> t'"
  proof
    assume "t = t'"
    moreover have "inj_on (snd \<circ> snd) (set es)"
      using ok by (simp add: entries_ok_def distinct_map)
    ultimately have "(k, v, t) = (k', v', t')"
      using gone(1) kept(1) inj_onD [of "snd \<circ> snd" "set es" "(k, v, t)" "(k', v', t')"] by simp
    then show False using gone(2) kept(2) by simp
  qed
  ultimately show ?thesis by simp
qed

lemma length_evict_filter:
  assumes "entries_ok n es"
  shows "length (filter (\<lambda>e. fst e \<notin> snd ` set (take j (evict_order es))) es) =
         length es - min j (length es)"
proof -
  let ?vs = "map snd (take j (evict_order es))"
  have d: "distinct (map fst es)" using assms by (simp add: entries_ok_def)
  then have "distinct ?vs"
    using distinct_evict_order_keys by (metis distinct_take take_map)
  moreover have "set ?vs \<subseteq> set (map fst es)"
    using set_take_subset [of j "evict_order es"] set_evict_order [of es] by force
  moreover have "length (filter (\<lambda>e. fst e \<notin> set ?vs) es) =
      length (filter (\<lambda>k. k \<notin> set ?vs) (map fst es))"
    by (simp add: filter_map comp_def)
  ultimately show ?thesis
    using length_filter_notin [OF d, of ?vs] by (simp add: min.commute)
qed


lemma evict_batch_fields [simp]:
  "bm_cap (evict_batch m) = bm_cap m" "tick (evict_batch m) = tick m"
  by (simp_all add: evict_batch_def Let_def)

definition victims :: "('k, 'v) bounded_map \<Rightarrow> 'k set" where
  "victims m = snd ` set (take (max (length (entries m) - bm_cap m + max (bm_cap m div 8) 1 - 1) 1)
     (evict_order (entries m)))"

lemma entries_evict_batch: "entries (evict_batch m) = filter (\<lambda>e. fst e \<notin> victims m) (entries m)"
  by (simp add: evict_batch_def Let_def fold_delete_filter victims_def)

text \<open>An overfull map has one entry too many; a pass removes a batch of at most \<open>cap\<close>.\<close>

lemma evict_batch_overfull:
  assumes "entries_ok n (entries m)" and "length (entries m) = Suc (bm_cap m)" and "bm_cap m \<ge> 1"
  shows "length (entries (evict_batch m)) = Suc (bm_cap m) - max (bm_cap m div 8) 1"
    and "evicted (evict_batch m) = evicted m + max (bm_cap m div 8) 1"
proof -
  have le: "max (bm_cap m div 8) 1 \<le> bm_cap m" using assms(3) by auto
  then show "evicted (evict_batch m) = evicted m + max (bm_cap m div 8) 1"
    using assms by (simp add: evict_batch_def Let_def)
  show "length (entries (evict_batch m)) = Suc (bm_cap m) - max (bm_cap m div 8) 1"
    using assms(2) le
    by (simp add: entries_evict_batch victims_def length_evict_filter [OF assms(1)])
qed

lemma evict_batch_lru:
  assumes "entries_ok n (entries m)"
    and "(k, v, t) \<in> set (entries m)" "k \<in> victims m"
    and "(k', v', t') \<in> set (entries m)" "k' \<notin> victims m"
  shows "t < t'"
  using assms unfolding victims_def by (rule evict_take_lru)

lemma evict_batch_spares_freshest:
  assumes "entries_ok n (entries m)" and "length (entries m) = Suc (bm_cap m)" and "bm_cap m \<ge> 1"
    and "(k, v, t) \<in> set (entries m)" and "\<forall>e \<in> set (entries m). snd (snd e) \<le> t"
  shows "(k, v, t) \<in> set (entries (evict_batch m))"
proof (rule ccontr)
  assume "(k, v, t) \<notin> set (entries (evict_batch m))"
  then have "k \<in> victims m"
    using assms(4) by (simp add: entries_evict_batch)
  moreover have "entries (evict_batch m) \<noteq> []"
    using evict_batch_overfull(1) [OF assms(1-3)] assms(3)
    by (intro notI) simp
  then obtain k' v' t' where "(k', v', t') \<in> set (entries (evict_batch m))"
    by (metis list.set_intros(1) neq_Nil_conv prod_cases3)
  then have "(k', v', t') \<in> set (entries m)" "k' \<notin> victims m"
    by (simp_all add: entries_evict_batch)
  ultimately have "t < t'"
    using evict_batch_lru [OF assms(1,4)] by blast
  moreover have "t' \<le> t"
    using \<open>(k', v', t') \<in> set (entries m)\<close> assms(5) by force
  ultimately show False by simp
qed


subsection \<open>The operations keep the invariant\<close>

lemma bm_wfD:
  assumes "bm_wf m"
  shows "bm_cap m \<ge> 1" "entries_ok (tick m) (entries m)" "length (entries m) \<le> bm_cap m"
    "distinct (map fst (entries m))"
  using assms by (simp_all add: bm_wf_def entries_ok_def)

lemma bm_wf_empty [inv_intros]: "c \<ge> 1 \<Longrightarrow> bm_wf (bm_empty c)"
  by (simp add: bm_wf_def bm_empty_def entries_ok_def)

text \<open>\<open>bm_put\<close> is the common tail of \<open>insert\<close> and of the vacant branch of \<open>get_or_insert_with\<close>.\<close>

definition bm_put :: "('k, 'v) bounded_map \<Rightarrow> 'k \<Rightarrow> 'v \<Rightarrow> ('k, 'v) bounded_map" where
  "bm_put m k v = m\<lparr>tick := Suc (tick m),
     entries := AList.update k (v, Suc (tick m)) (entries m)\<rparr>"

lemma bm_insert_put:
  "bm_insert m k v =
     (if length (entries (bm_put m k v)) > bm_cap m then evict_batch (bm_put m k v) else bm_put m k v)"
  by (simp add: bm_insert_def bm_put_def next_tick_def Let_def)

lemma bm_put_facts:
  assumes "bm_wf m"
  shows "entries_ok (Suc (tick m)) (entries (bm_put m k v))"
    and "length (entries (bm_put m k v)) \<le> Suc (bm_cap m)"
    and "(k, v, Suc (tick m)) \<in> set (entries (bm_put m k v))"
    and "\<forall>e \<in> set (entries (bm_put m k v)). snd (snd e) \<le> Suc (tick m)"
proof -
  show ok: "entries_ok (Suc (tick m)) (entries (bm_put m k v))"
    unfolding bm_put_def by (simp add: entries_ok_update [OF bm_wfD(2) [OF assms]])
  show "length (entries (bm_put m k v)) \<le> Suc (bm_cap m)"
    using bm_wfD(3) [OF assms] by (simp add: bm_put_def length_update)
  show "(k, v, Suc (tick m)) \<in> set (entries (bm_put m k v))"
    by (simp add: bm_put_def set_update_eq bm_wfD(4) [OF assms])
  show "\<forall>e \<in> set (entries (bm_put m k v)). snd (snd e) \<le> Suc (tick m)"
    using ok by (simp add: entries_ok_def)
qed

lemma bm_insert_cases:
  assumes "bm_wf m"
  obtains (fits) "bm_insert m k v = bm_put m k v" "length (entries (bm_put m k v)) \<le> bm_cap m"
  | (evicts) "bm_insert m k v = evict_batch (bm_put m k v)"
      "length (entries (bm_put m k v)) = Suc (bm_cap m)"
proof (cases "length (entries (bm_put m k v)) \<le> bm_cap m")
  case True
  then show ?thesis by (intro fits) (simp_all add: bm_insert_put)
next
  case False
  then show ?thesis
    using bm_put_facts(2) [OF assms, of k v] by (intro evicts) (simp_all add: bm_insert_put)
qed

lemma bm_insert_fields [simp]:
  "bm_cap (bm_insert m k v) = bm_cap m" "tick (bm_insert m k v) = Suc (tick m)"
  by (simp_all add: bm_insert_put) (simp_all add: bm_put_def)

lemma bm_cap_put [simp]: "bm_cap (bm_put m k v) = bm_cap m" "tick (bm_put m k v) = Suc (tick m)"
    "evicted (bm_put m k v) = evicted m"
  by (simp_all add: bm_put_def)

lemma bm_wf_insert [inv_intros]:
  assumes wf: "bm_wf m"
  shows "bm_wf (bm_insert m k v)"
  using wf
proof (cases rule: bm_insert_cases [where k = k and v = v])
  case fits
  then show ?thesis
    using bm_put_facts(1) [OF wf, of k v] bm_wfD(1) [OF wf] by (simp add: bm_wf_def)
next
  case evicts
  have "entries_ok (Suc (tick m)) (entries (evict_batch (bm_put m k v)))"
    unfolding entries_evict_batch using bm_put_facts(1) [OF wf] by (rule entries_ok_filter)
  moreover have "length (entries (evict_batch (bm_put m k v))) \<le> bm_cap m"
    using evict_batch_overfull(1) [OF bm_put_facts(1) [OF wf, of k v]] evicts(2) bm_wfD(1) [OF wf] by simp
  ultimately show ?thesis
    using evicts(1) bm_wfD(1) [OF wf] by (simp add: bm_wf_def)
qed

lemma bm_insert_mem:
  assumes wf: "bm_wf m"
  shows "(k, v, Suc (tick m)) \<in> set (entries (bm_insert m k v))"
  using wf
proof (cases rule: bm_insert_cases [where k = k and v = v])
  case fits
  then show ?thesis using bm_put_facts(3) [OF wf] by simp
next
  case evicts
  then show ?thesis
    using evict_batch_spares_freshest
        [OF bm_put_facts(1) [OF wf] _ _ bm_put_facts(3,4) [OF wf], of k v]
      bm_wfD(1) [OF wf] by simp
qed

lemma bm_insert_old:
  assumes wf: "bm_wf m" and "(j, w, t) \<in> set (entries (bm_insert m k v))" and "j \<noteq> k"
  shows "(j, w, t) \<in> set (entries m)"
proof -
  have "(j, w, t) \<in> set (entries (bm_put m k v))"
    using assms(2) by (auto simp: bm_insert_put entries_evict_batch split: if_splits)
  then show ?thesis
    using assms(3) by (auto simp: bm_put_def set_update_eq bm_wfD(4) [OF wf])
qed

lemma bm_touch_wf:
  assumes "bm_wf m" and "map_of (entries m) k = Some (v0, t)"
  shows "bm_wf (m\<lparr>tick := Suc (tick m), entries := AList.update k (v, Suc (tick m)) (entries m)\<rparr>)"
proof -
  have "k \<in> fst ` set (entries m)"
    using assms(2) by (force dest: map_of_SomeD)
  then show ?thesis
    using assms(1) entries_ok_update [OF bm_wfD(2) [OF assms(1)]]
    by (simp add: bm_wf_def length_update)
qed

lemma bm_tick_wf: "bm_wf m \<Longrightarrow> bm_wf (m\<lparr>tick := Suc (tick m)\<rparr>)"
  by (simp add: bm_wf_def entries_ok_mono [of "tick m"])

lemma bm_wf_get [inv_intros]: "bm_wf m \<Longrightarrow> bm_wf (fst (bm_get m k))"
  by (auto simp: bm_get_def next_tick_def Let_def bm_tick_wf bm_touch_wf split: option.split)

lemma bm_get_mut_eq_get: "bm_get_mut m k = bm_get m k"
  by (simp add: bm_get_def bm_get_mut_def)

lemma bm_wf_write [inv_intros]: "bm_wf m \<Longrightarrow> bm_wf (bm_write m k v)"
  by (simp add: bm_wf_def bm_write_def entries_ok_map_entry)

lemma bm_wf_remove [inv_intros]: "bm_wf m \<Longrightarrow> bm_wf (fst (bm_remove m k))"
  by (auto simp: bm_wf_def bm_remove_def entries_ok_delete intro: order_trans [OF length_delete_le])

lemma bm_wf_extend [inv_intros]: "bm_wf m \<Longrightarrow> bm_wf (bm_extend m kvs)"
  by (induction m kvs rule: bm_extend.induct) (auto intro: inv_intros)


subsection \<open>Lookups\<close>

lemma bm_peek_iff:
  assumes "bm_wf m"
  shows "bm_peek m k = Some v \<longleftrightarrow> (\<exists>t. (k, v, t) \<in> set (entries m))"
proof -
  have "map_of (entries m) k = Some p \<longleftrightarrow> (k, p) \<in> set (entries m)" for p
    using bm_wfD(4) [OF assms] by simp
  then show ?thesis by (auto simp: bm_peek_def)
qed

lemma bm_peek_insert_same: "bm_wf m \<Longrightarrow> bm_peek (bm_insert m k v) k = Some v"
  using bm_insert_mem [of m k v] bm_peek_iff [OF bm_wf_insert [of m k v]] by blast

lemma bm_peek_insert_other:
  assumes "bm_wf m" and "j \<noteq> k"
  shows "bm_peek (bm_insert m k v) j = None \<or> bm_peek (bm_insert m k v) j = bm_peek m j"
proof (cases "bm_peek (bm_insert m k v) j")
  case (Some w)
  then obtain t where "(j, w, t) \<in> set (entries (bm_insert m k v))"
    using bm_peek_iff [OF bm_wf_insert [OF assms(1)]] by blast
  then have "(j, w, t) \<in> set (entries m)"
    using bm_insert_old [OF assms(1)] assms(2) by blast
  then show ?thesis
    using Some bm_peek_iff [OF assms(1)] by metis
qed simp

lemma bm_peek_touch:
  assumes "map_of (entries m) k = Some (v, t)"
  shows "bm_peek (m\<lparr>tick := n, entries := AList.update k (v, n') (entries m)\<rparr>) = bm_peek m"
  using assms by (auto simp: bm_peek_def fun_eq_iff update_conv')

lemma bm_peek_get [simp]: "bm_peek (fst (bm_get m k)) = bm_peek m"
  by (auto simp: bm_get_def next_tick_def Let_def bm_peek_touch split: option.split)
     (simp add: bm_peek_def fun_eq_iff)

lemma bm_get_result [simp]: "snd (bm_get m k) = bm_peek m k"
  by (auto simp: bm_get_def next_tick_def Let_def bm_peek_def split: option.split)

lemma bm_peek_write:
  "bm_peek (bm_write m k v) = (if bm_peek m k = None then bm_peek m else (bm_peek m)(k \<mapsto> v))"
  by (auto simp: bm_peek_def bm_write_def map_of_map_entry fun_eq_iff split: option.splits)

lemma bm_peek_remove [simp]: "bm_peek (fst (bm_remove m k)) = (bm_peek m)(k := None)"
  by (auto simp: bm_peek_def bm_remove_def delete_conv' fun_eq_iff)

lemma bm_remove_result [simp]: "snd (bm_remove m k) = bm_peek m k"
  by (simp add: bm_remove_def bm_peek_def)

text \<open>
  \<open>get_or_insert_with\<close> on a vacant key is an \<open>insert\<close> of the default, on an occupied key
  a \<open>get\<close>: the tick it writes back in the vacant case is the one just written.
\<close>

lemma bm_goi_occupied:
  assumes "bm_peek m k = Some v"
  shows "bm_get_or_insert_with m k d = bm_get m k"
  using assms by (auto simp: bm_get_or_insert_with_def bm_get_def bm_peek_def next_tick_def Let_def)

lemma update_same_entry: "map_of al k = Some v \<Longrightarrow> AList.update k v al = al"
  by (induction al) (auto split: if_splits)

lemma bm_goi_vacant:
  assumes wf: "bm_wf m" and "bm_peek m k = None"
  shows "bm_get_or_insert_with m k d = (bm_insert m k d, Some d)"
proof -
  let ?m' = "bm_insert m k d"
  have at: "map_of (entries ?m') k = Some (d, Suc (tick m))"
    using bm_insert_mem [OF wf] bm_wfD(4) [OF bm_wf_insert [OF wf]] by simp
  let ?m1 = "next_tick m"
  let ?m3 = "?m1\<lparr>entries := AList.update k (d, tick ?m1) (entries ?m1)\<rparr>"
  have m2: "(if map_of (entries ?m1) k = None
      then (if length (entries ?m3) > bm_cap ?m3 then evict_batch ?m3 else ?m3) else ?m1) = ?m'"
    using assms(2) by (simp add: bm_peek_def next_tick_def bm_insert_def Let_def)
  show ?thesis
    unfolding bm_get_or_insert_with_def Let_def m2
    by (simp add: at next_tick_def update_same_entry [OF at])
qed

lemma bm_goi_result:
  assumes "bm_wf m"
  shows "snd (bm_get_or_insert_with m k d) = Some (case bm_peek m k of None \<Rightarrow> d | Some v \<Rightarrow> v)"
  using assms by (cases "bm_peek m k") (simp_all add: bm_goi_vacant bm_goi_occupied)

lemma bm_wf_goi [inv_intros]:
  "bm_wf m \<Longrightarrow> bm_wf (fst (bm_get_or_insert_with m k d))"
  by (cases "bm_peek m k") (simp_all add: bm_goi_vacant bm_goi_occupied inv_intros)

lemma bm_peek_goi_same:
  "bm_wf m \<Longrightarrow> bm_peek (fst (bm_get_or_insert_with m k d)) k =
     Some (case bm_peek m k of None \<Rightarrow> d | Some v \<Rightarrow> v)"
  by (cases "bm_peek m k") (simp_all add: bm_goi_vacant bm_goi_occupied bm_peek_insert_same)

lemma bm_peek_goi_other:
  assumes "bm_wf m" and "j \<noteq> k"
  shows "bm_peek (fst (bm_get_or_insert_with m k d)) j = None \<or>
         bm_peek (fst (bm_get_or_insert_with m k d)) j = bm_peek m j"
  using assms bm_peek_insert_other [OF assms, of d]
  by (cases "bm_peek m k") (simp_all add: bm_goi_vacant bm_goi_occupied)


lemma bm_cap_simps [simp]:
  "bm_cap (bm_write m k v) = bm_cap m"
  "bm_cap (fst (bm_remove m k)) = bm_cap m"
  "bm_cap (fst (bm_get_mut m k)) = bm_cap m"
  "bm_cap (fst (bm_get_or_insert_with m k d)) = bm_cap m"
  by (auto simp: bm_write_def bm_remove_def bm_get_mut_def bm_get_or_insert_with_def next_tick_def Let_def
      split: option.splits)

lemma bm_wf_get_mut [inv_intros]: "bm_wf m \<Longrightarrow> bm_wf (fst (bm_get_mut m k))"
  by (simp add: bm_get_mut_eq_get bm_wf_get)

subsection \<open>The contract the clients rely on\<close>

text \<open>
  \<open>all_entries look P m\<close>: every value \<open>m\<close> holds satisfies \<open>P\<close>. A client's
  invariant on its table is of this form, and the locale proves once that each method of
  the store keeps it, eviction included.
\<close>

definition all_entries :: "('m \<Rightarrow> 'k \<Rightarrow> 'v option) \<Rightarrow> ('k \<Rightarrow> 'v \<Rightarrow> bool) \<Rightarrow> 'm \<Rightarrow> bool" where
  "all_entries look P m \<longleftrightarrow> (\<forall>k v. look m k = Some v \<longrightarrow> P k v)"

locale lru_store =
  fixes look :: "'m \<Rightarrow> 'k \<Rightarrow> 'v option"
    and ins :: "'m \<Rightarrow> 'k \<Rightarrow> 'v \<Rightarrow> 'm"
    and get :: "'m \<Rightarrow> 'k \<Rightarrow> 'm \<times> 'v option"
    and wr :: "'m \<Rightarrow> 'k \<Rightarrow> 'v \<Rightarrow> 'm"
    and rem :: "'m \<Rightarrow> 'k \<Rightarrow> 'm \<times> 'v option"
    and goi :: "'m \<Rightarrow> 'k \<Rightarrow> 'v \<Rightarrow> 'm \<times> 'v option"
    and invar :: "'m \<Rightarrow> bool"
    and size_of :: "'m \<Rightarrow> nat"
    and capacity :: "'m \<Rightarrow> nat"
  assumes bounded: "invar m \<Longrightarrow> size_of m \<le> capacity m"
    and invar_ins: "invar m \<Longrightarrow> invar (ins m k v)"
    and invar_get: "invar m \<Longrightarrow> invar (fst (get m k))"
    and invar_wr: "invar m \<Longrightarrow> invar (wr m k v)"
    and invar_rem: "invar m \<Longrightarrow> invar (fst (rem m k))"
    and invar_goi: "invar m \<Longrightarrow> invar (fst (goi m k v))"
    and look_ins_same: "invar m \<Longrightarrow> look (ins m k v) k = Some v"
    and look_ins_other: "invar m \<Longrightarrow> j \<noteq> k \<Longrightarrow> look (ins m k v) j = None \<or> look (ins m k v) j = look m j"
    and look_get: "look (fst (get m k)) = look m"
    and get_result: "snd (get m k) = look m k"
    and look_wr: "look (wr m k v) = (if look m k = None then look m else (look m)(k \<mapsto> v))"
    and look_rem: "look (fst (rem m k)) = (look m)(k := None)"
    and goi_result: "invar m \<Longrightarrow> snd (goi m k d) = Some (case look m k of None \<Rightarrow> d | Some v \<Rightarrow> v)"
    and look_goi_same: "invar m \<Longrightarrow> look (fst (goi m k d)) k = Some (case look m k of None \<Rightarrow> d | Some v \<Rightarrow> v)"
    and look_goi_other: "invar m \<Longrightarrow> j \<noteq> k \<Longrightarrow>
      look (fst (goi m k d)) j = None \<or> look (fst (goi m k d)) j = look m j"
begin

lemma all_ins: "invar m \<Longrightarrow> all_entries look P m \<Longrightarrow> P k v \<Longrightarrow> all_entries look P (ins m k v)"
  unfolding all_entries_def by (metis look_ins_other look_ins_same option.distinct(1) option.inject)

lemma all_get: "all_entries look P m \<Longrightarrow> all_entries look P (fst (get m k))"
  by (simp add: all_entries_def look_get)

lemma all_wr: "all_entries look P m \<Longrightarrow> P k v \<Longrightarrow> all_entries look P (wr m k v)"
  by (simp add: all_entries_def look_wr)

lemma all_rem: "all_entries look P m \<Longrightarrow> all_entries look P (fst (rem m k))"
  by (simp add: all_entries_def look_rem)

lemma all_goi: "invar m \<Longrightarrow> all_entries look P m \<Longrightarrow> P k d \<Longrightarrow> all_entries look P (fst (goi m k d))"
  unfolding all_entries_def
  by (metis (no_types, lifting) look_goi_other look_goi_same option.case_eq_if option.collapse
      option.distinct(1) option.inject)

text \<open>Fetching a slot and assigning through the reference: what \<open>*entry = v\<close> does.\<close>

lemma look_goi_wr_same: "invar m \<Longrightarrow> look (wr (fst (goi m k d)) k v) k = Some v"
  by (simp add: look_wr look_goi_same)

lemma look_goi_wr_other: "invar m \<Longrightarrow> j \<noteq> k \<Longrightarrow>
    look (wr (fst (goi m k d)) k v) j = None \<or> look (wr (fst (goi m k d)) k v) j = look m j"
  using look_goi_other by (auto simp: look_wr look_goi_same)

lemma invar_goi_wr: "invar m \<Longrightarrow> invar (wr (fst (goi m k d)) k v)"
  by (simp add: invar_goi invar_wr)

lemma all_goi_wr: "invar m \<Longrightarrow> all_entries look P m \<Longrightarrow> P k v \<Longrightarrow>
    all_entries look P (wr (fst (goi m k d)) k v)"
  unfolding all_entries_def
  by (metis look_goi_wr_other look_goi_wr_same option.distinct(1) option.inject)

end

interpretation bm: lru_store bm_peek bm_insert bm_get bm_write bm_remove bm_get_or_insert_with
  bm_wf bm_len bm_cap
proof (unfold_locales, goal_cases)
  case (1 m)
  then show ?case by (simp add: bm_len_def bm_wfD(3))
next
  case (8 m j k v)
  then show ?case by (rule bm_peek_insert_other)
next
  case (15 m j k d)
  then show ?case by (rule bm_peek_goi_other)
qed (auto intro: inv_intros
      simp: bm_peek_write bm_peek_insert_same bm_peek_goi_same bm_goi_result)

subsection \<open>Properties\<close>

lemma bm_insert_len_evicted:
  assumes wf: "bm_wf m"
  shows "bm_len (bm_insert m k v) + evicted (bm_insert m k v) =
         bm_len m + evicted m + (if bm_peek m k = None then 1 else 0)"
proof -
  have len: "length (entries (bm_put m k v)) = bm_len m + (if bm_peek m k = None then 1 else 0)"
    by (auto simp: bm_put_def length_update bm_len_def bm_peek_def map_of_eq_None_iff)
  show ?thesis
    using wf
  proof (cases rule: bm_insert_cases [where k = k and v = v])
    case fits
    then show ?thesis using len by (simp add: bm_len_def)
  next
    case evicts
    have "max (bm_cap m div 8) 1 \<le> Suc (bm_cap m)" by auto
    then show ?thesis
      using evicts len evict_batch_overfull [OF bm_put_facts(1) [OF wf, of k v]] bm_wfD(1) [OF wf]
      by (simp add: bm_len_def)
  qed
qed


text \<open>A client's view of the map: any sequence of its mutating methods.\<close>

datatype ('k, 'v) bm_op =
    Insert 'k 'v
  | Get 'k
  | Get_Mut 'k 'v
  | Remove 'k
  | Get_Or_Insert 'k 'v 'v
  | Extend "('k \<times> 'v) list"

fun bm_step :: "('k, 'v) bounded_map \<Rightarrow> ('k, 'v) bm_op \<Rightarrow> ('k, 'v) bounded_map" where
  "bm_step m (Insert k v) = bm_insert m k v"
| "bm_step m (Get k) = fst (bm_get m k)"
| "bm_step m (Get_Mut k v) = bm_write (fst (bm_get_mut m k)) k v"
| "bm_step m (Remove k) = fst (bm_remove m k)"
| "bm_step m (Get_Or_Insert k d v) = bm_write (fst (bm_get_or_insert_with m k d)) k v"
| "bm_step m (Extend kvs) = bm_extend m kvs"

lemma bm_wf_step [inv_intros]: "bm_wf m \<Longrightarrow> bm_wf (bm_step m op)"
  by (cases op) (simp_all add: inv_intros bm_get_mut_eq_get)

lemma bm_wf_run: "bm_wf m \<Longrightarrow> bm_wf (foldl bm_step m ops)"
  by (induction ops arbitrary: m) (simp_all add: bm_wf_step)

lemma bm_cap_step: "bm_cap (bm_step m op) = bm_cap m"
proof (cases op)
  case (Extend kvs)
  have "bm_cap (bm_extend m kvs) = bm_cap m"
    by (induction m kvs rule: bm_extend.induct) simp_all
  with Extend show ?thesis by simp
qed (auto simp: bm_get_def bm_get_mut_def bm_get_or_insert_with_def bm_write_def bm_remove_def
       next_tick_def Let_def split: option.splits)

lemma bm_cap_run: "bm_cap (foldl bm_step m ops) = bm_cap m"
  by (induction ops arbitrary: m) (simp_all add: bm_cap_step)

text \<open>
  a map created with a valid capacity never holds more than that many entries, whatever
  sequence of inserts, reads, in-place updates, removals and bulk extensions is applied,
  and its recency bookkeeping (distinct keys, distinct ticks, none in the future) stays
  consistent.
\<close>

theorem bounded_map_never_exceeds_cap:
  assumes "bm_new c = Some m"
  shows "bm_wf (foldl bm_step m ops) \<and> bm_len (foldl bm_step m ops) \<le> c"
proof -
  from assms have m: "m = bm_empty c" "c \<ge> 1"
    by (auto simp: bm_new_def split: if_splits)
  then have wf: "bm_wf (foldl bm_step m ops)"
    by (simp add: bm_wf_run bm_wf_empty)
  moreover have "bm_cap (foldl bm_step m ops) = c"
    using m by (simp add: bm_cap_run bm_empty_def)
  ultimately show ?thesis
    using bm.bounded [OF wf] by simp
qed

text \<open>
  C21: inserting a new key into a full map evicts exactly \<open>max (cap/8) 1\<close> entries, counts
  them, keeps the new entry, and evicts in recency order: every evicted entry was used
  strictly before every entry that survives.
\<close>

theorem bounded_map_insert_evicts_lru:
  assumes "bm_wf m" and "bm_len m = bm_cap m" and "bm_peek m k = None"
  shows "bm_peek (bm_insert m k v) k = Some v \<and>
    bm_len (bm_insert m k v) = Suc (bm_cap m) - max (bm_cap m div 8) 1 \<and>
    evicted (bm_insert m k v) = evicted m + max (bm_cap m div 8) 1 \<and>
    (\<forall>j w t j' w' t'. (j, w, t) \<in> set (entries m) \<longrightarrow> bm_peek (bm_insert m k v) j = None \<longrightarrow>
       (j', w', t') \<in> set (entries (bm_insert m k v)) \<longrightarrow> t < t')"
proof (intro conjI allI impI)
  have absent: "k \<notin> fst ` set (entries m)"
    using assms(3) by (simp add: bm_peek_def map_of_eq_None_iff)
  then have full: "length (entries (bm_put m k v)) = Suc (bm_cap m)"
    using assms(2) by (simp add: bm_put_def length_update bm_len_def)
  then have ins: "bm_insert m k v = evict_batch (bm_put m k v)"
    by (simp add: bm_insert_put)
  note ok = bm_put_facts(1) [OF assms(1), of k v]
  show "bm_peek (bm_insert m k v) k = Some v"
    using assms(1) by (rule bm.look_ins_same)
  show "bm_len (bm_insert m k v) = Suc (bm_cap m) - max (bm_cap m div 8) 1"
    and "evicted (bm_insert m k v) = evicted m + max (bm_cap m div 8) 1"
    using evict_batch_overfull [OF ok] full ins bm_wfD(1) [OF assms(1)]
    by (simp_all add: bm_len_def)
  fix j w t j' w' t'
  assume j: "(j, w, t) \<in> set (entries m)" and gone: "bm_peek (bm_insert m k v) j = None"
    and j': "(j', w', t') \<in> set (entries (bm_insert m k v))"
  have "j \<noteq> k" using j absent by force
  then have jm: "(j, w, t) \<in> set (entries (bm_put m k v))"
    using j bm_wfD(4) [OF assms(1)] by (simp add: bm_put_def set_update_eq)
  have "(j, w, t) \<notin> set (entries (bm_insert m k v))"
    using gone bm_peek_iff [OF bm_wf_insert [OF assms(1)], of k v j w] by auto
  then have "j \<in> victims (bm_put m k v)"
    using jm by (simp add: ins entries_evict_batch)
  then show "t < t'"
    using evict_batch_lru [OF ok jm, of j' w' t'] j' by (simp add: ins entries_evict_batch)
qed

text \<open>
  the \<open>expect\<close> in \<open>get_or_insert_with\<close> cannot fail: the reference it returns is to
  the value already stored, or to the default just inserted, and the map holds that value
  afterwards.
\<close>

theorem get_or_insert_with_never_panics:
  assumes "bm_wf m"
  shows "snd (bm_get_or_insert_with m k d) = Some (case bm_peek m k of None \<Rightarrow> d | Some v \<Rightarrow> v) \<and>
    bm_peek (fst (bm_get_or_insert_with m k d)) k = snd (bm_get_or_insert_with m k d)"
  using assms by (simp add: bm.goi_result bm.look_goi_same)

text \<open>
  bounded state loses information only observably. Over a bulk insertion of fresh,
  distinct keys, entries held plus entries counted as evicted grow by exactly the number of
  insertions.
\<close>

theorem evictions_are_counted:
  assumes "bm_wf m" and "distinct (map fst kvs)" and "\<forall>k \<in> fst ` set kvs. bm_peek m k = None"
  shows "bm_len (bm_extend m kvs) + evicted (bm_extend m kvs) = bm_len m + evicted m + length kvs"
  using assms
proof (induction m kvs rule: bm_extend.induct)
  case (2 m k v kvs)
  have "bm_peek (bm_insert m k v) j = None" if "j \<in> fst ` set kvs" for j
    using that 2 bm.look_ins_other [of m j k v] by force
  then show ?case
    using 2 bm_insert_len_evicted [of m k v] by (simp add: bm_wf_insert)
qed simp

subsection \<open>Witnesses\<close>

definition sample_map :: "(nat, nat) bounded_map" where
  "sample_map = bm_extend (bm_empty 2) [(1, 10), (2, 20)]"

lemma sample_map_facts:
  "bm_wf sample_map" "bm_len sample_map = 2" "bm_cap sample_map = 2"
  "bm_peek sample_map 3 = None" "(1, 10, 1) \<in> set (entries sample_map)"
proof -
  show "bm_wf sample_map"
    unfolding sample_map_def by (intro inv_intros) simp
  show "bm_len sample_map = 2" "bm_cap sample_map = 2" "bm_peek sample_map 3 = None"
    "(1, 10, 1) \<in> set (entries sample_map)"
    by (simp_all add: sample_map_def bm_simps)
qed

theorem bounded_map_never_exceeds_cap_witness:
  "bm_new 2 = Some (bm_empty 2 :: (nat, nat) bounded_map) \<and>
   bm_len (foldl bm_step (bm_empty 2 :: (nat, nat) bounded_map)
     [Insert 1 10, Insert 2 20, Get 1, Insert 3 30]) \<le> 2"
proof -
  have new: "bm_new 2 = Some (bm_empty 2 :: (nat, nat) bounded_map)"
    by (simp add: bm_new_def)
  then show ?thesis using bounded_map_never_exceeds_cap [OF new] by blast
qed

theorem bounded_map_insert_evicts_lru_witness:
  "bm_peek (bm_insert sample_map 3 30) 3 = Some 30 \<and> bm_len (bm_insert sample_map 3 30) = 2 \<and>
   bm_peek (bm_insert sample_map 3 30) 1 = None"
proof -
  have full: "bm_len sample_map = bm_cap sample_map"
    by (simp add: sample_map_facts)
  have "bm_peek (bm_insert sample_map 3 30) 1 = None"
    by (simp add: sample_map_def bm_simps evict_batch_def evict_order_def)
  then show ?thesis
    using bounded_map_insert_evicts_lru [OF sample_map_facts(1) full sample_map_facts(4), of 30]
    by (simp add: sample_map_facts)
qed

theorem get_or_insert_with_never_panics_witness:
  "bm_wf sample_map \<and> snd (bm_get_or_insert_with sample_map 3 30) = Some 30"
  using get_or_insert_with_never_panics [OF sample_map_facts(1), of 3 30] sample_map_facts
  by simp

theorem evictions_are_counted_witness:
  "bm_len (bm_extend sample_map [(3, 30), (4, 40)]) + evicted (bm_extend sample_map [(3, 30), (4, 40)]) = 4"
proof -
  have "\<forall>k \<in> fst ` set [(3, 30), (4, 40)]. bm_peek sample_map k = None"
    by (simp add: sample_map_def bm_simps)
  moreover have "evicted sample_map = 0"
    by (simp add: sample_map_def bm_simps)
  ultimately show ?thesis
    using evictions_are_counted [OF sample_map_facts(1), of "[(3, 30), (4, 40)]"]
      sample_map_facts(2) by simp
qed

end
