(* ===== verification/Schema.thy ===== *)
theory Schema
  imports Prelude Complex_Main
begin

text \<open>
  The detection types of \<open>crates/schema/src/detection.rs\<close>. Embedded events are a type
  parameter; scores are real numbers (no rounding and no NaN). \<open>Severity\<close> carries the order
  the source derives: the order of its constructors.
\<close>

datatype severity = Low | Medium | High | Critical

primrec severity_rank :: "severity \<Rightarrow> nat" where
  "severity_rank Low = 0"
| "severity_rank Medium = 1"
| "severity_rank High = 2"
| "severity_rank Critical = 3"

lemma severity_rank_inj: "severity_rank a = severity_rank b \<Longrightarrow> a = b"
  by (cases a; cases b) simp_all

instantiation severity :: linorder
begin

definition less_eq_severity :: "severity \<Rightarrow> severity \<Rightarrow> bool" where
  "less_eq_severity a b = (severity_rank a \<le> severity_rank b)"

definition less_severity :: "severity \<Rightarrow> severity \<Rightarrow> bool" where
  "less_severity a b = (severity_rank a < severity_rank b)"

instance
  by standard (auto simp: less_eq_severity_def less_severity_def intro: severity_rank_inj)

end

lemma Low_least [simp]: "Low \<le> s"
  by (simp add: less_eq_severity_def)

lemma severity_order: "Low < Medium \<and> Medium < High \<and> High < Critical"
  by (simp add: less_severity_def)

datatype detection_source =
    Rule string
  | Sigma string
  | Ml nat string string
  | Correlator_Case string
  | Yara string

record score_attribution =
  feature :: string
  value_f :: real
  contribution :: real

record 'ev detection =
  timestamp_ns :: nat
  severity_of :: severity
  title :: string
  source :: detection_source
  score_of :: "real option"
  attributions :: "score_attribution list"
  techniques_of :: "string list"
  events_of :: "'ev list"

end
