(* ===== verification/Verdict.thy ===== *)
theory Verdict
  imports Bounded Schema "HOL-Library.Product_Lexorder" "HOL-Library.List_Lexorder"
    "HOL-Library.Option_ord" "HOL-Library.Char_ord"
begin

text \<open>
  The verdict crate (\<open>crates/verdict/src/lib.rs\<close>): the findings of all engines folded into one
  scored verdict per entity. The engine's entity map is the bounded map of the store crate and is
  used only through the laws of the locale \<open>lru_store\<close>. The hash set of suppressions is a
  list without duplicates, whose order nothing observes.
\<close>

subsection \<open>Entities and verdicts\<close>

record entity_key =
  ppid :: pid
  comm :: string
  parent_generation :: generation

definition entity_key_new :: "pid \<Rightarrow> string \<Rightarrow> entity_key" where
  "entity_key_new p c = \<lparr>ppid = p, comm = c, parent_generation = None\<rparr>"

definition with_parent_generation :: "entity_key \<Rightarrow> generation \<Rightarrow> entity_key" where
  "with_parent_generation e g = e\<lparr>parent_generation := g\<rparr>"

record technique_record =
  technique :: string
  window_start_ns :: nat

definition EVIDENCE_CAP :: nat where
  "EVIDENCE_CAP = 16"

record 'ev entity_state =
  st_parent_generation :: generation
  st_severity :: severity
  st_score :: "real option"
  st_techniques :: "technique_record list"
  st_sources :: "detection_source list"
  st_detections :: "'ev detection list"

definition entity_state_new :: "generation \<Rightarrow> 'ev entity_state" where
  "entity_state_new g = \<lparr>st_parent_generation = g, st_severity = Low, st_score = None,
     st_techniques = [], st_sources = [], st_detections = []\<rparr>"

definition push_evidence :: "'ev entity_state \<Rightarrow> 'ev detection \<Rightarrow> 'ev entity_state" where
  "push_evidence st d =
     (let ds = st_detections st @ [d]
      in st\<lparr>st_detections := (if length ds > EVIDENCE_CAP then tl ds else ds)\<rparr>)"

record 'ev verdict =
  entity :: entity_key
  v_severity :: severity
  v_score :: "real option"
  v_techniques :: "string list"
  v_sources :: "detection_source list"
  v_detections :: "'ev detection list"

definition MAX_SUPPRESSIONS :: nat where
  "MAX_SUPPRESSIONS = 1024"

datatype suppress_outcome = Added | Already_Suppressed | Full

definition ENTITY_CAP :: nat where
  "ENTITY_CAP = 16384"

record 'ev verdict_engine =
  entity_map :: "(pid \<times> string, 'ev entity_state) bounded_map"
  suppressed :: "(entity_key \<times> string) list"
  dedup_window_ns :: nat

definition verdict_engine_new :: "nat \<Rightarrow> 'ev verdict_engine" where
  "verdict_engine_new w = \<lparr>entity_map = bm_empty ENTITY_CAP, suppressed = [], dedup_window_ns = w\<rparr>"

subsection \<open>Operations\<close>

definition is_suppressed :: "'ev verdict_engine \<Rightarrow> entity_key \<Rightarrow> string \<Rightarrow> bool" where
  "is_suppressed v e tech =
     list_ex (\<lambda>(mark, t). t = tech \<and> ppid mark = ppid e \<and> comm mark = comm e \<and>
       same_generation (parent_generation mark) (parent_generation e)) (suppressed v)"

text \<open>
  The dedup step of \<open>record\<close>: finds the technique, reports whether the finding is a duplicate
  of its open window, and reopens or creates the window otherwise.
\<close>

fun touch_technique :: "nat \<Rightarrow> nat \<Rightarrow> string \<Rightarrow> technique_record list \<Rightarrow> bool \<times> technique_record list" where
  "touch_technique win now tech [] = (False, [\<lparr>technique = tech, window_start_ns = now\<rparr>])"
| "touch_technique win now tech (t # ts) =
     (if technique t = tech then
        (let dup = now - window_start_ns t \<le> win
         in (dup, (if dup then t else t\<lparr>window_start_ns := now\<rparr>) # ts))
      else (let (dup, ts') = touch_technique win now tech ts in (dup, t # ts')))"

fun score_raises :: "real option \<Rightarrow> real option \<Rightarrow> bool" where
  "score_raises (Some new) (Some cur) = (new > cur)"
| "score_raises (Some _) None = True"
| "score_raises None _ = False"

text \<open>Everything \<open>record\<close> does to the entity's state, and whether it reports a verdict.\<close>

definition fold_finding ::
    "nat \<Rightarrow> string \<Rightarrow> 'ev detection \<Rightarrow> nat \<Rightarrow> 'ev entity_state \<Rightarrow> bool \<times> 'ev entity_state" where
  "fold_finding win tech d now st =
     (let (is_dup, ts) = touch_technique win now tech (st_techniques st);
          severity_raised = severity_of d > st_severity st;
          score_raised = score_raises (score_of d) (st_score st);
          st1 = st\<lparr>st_techniques := ts,
                   st_severity := (if severity_raised then severity_of d else st_severity st),
                   st_score := (if score_raised then score_of d else st_score st),
                   st_sources := (if source d \<in> set (st_sources st) then st_sources st
                                  else st_sources st @ [source d])\<rparr>
      in (\<not> (is_dup \<and> \<not> severity_raised \<and> \<not> score_raised), push_evidence st1 d))"

definition snapshot :: "entity_key \<Rightarrow> 'ev entity_state \<Rightarrow> 'ev verdict" where
  "snapshot e st = \<lparr>entity = e, v_severity = st_severity st, v_score = st_score st,
     v_techniques = map technique (st_techniques st), v_sources = st_sources st,
     v_detections = st_detections st\<rparr>"

text \<open>\<open>record\<close>; \<open>None\<close> is a panic, the inner option the method's own.\<close>

definition verdict_record ::
    "'ev verdict_engine \<Rightarrow> entity_key \<Rightarrow> string \<Rightarrow> 'ev detection \<Rightarrow> nat \<Rightarrow>
     ('ev verdict_engine \<times> 'ev verdict option) option" where
  "verdict_record v e tech d now =
     (if is_suppressed v e tech then Some (v, None)
      else
        (let k = (ppid e, comm e);
             m1 = (case bm_peek (entity_map v) k of
                     Some s \<Rightarrow> (if \<not> same_generation (st_parent_generation s) (parent_generation e)
                                then fst (bm_remove (entity_map v) k) else entity_map v)
                   | None \<Rightarrow> entity_map v)
         in case bm_get_or_insert_with m1 k (entity_state_new (parent_generation e)) of
              (m2, None) \<Rightarrow> None
            | (m2, Some st) \<Rightarrow>
                (let st1 = (if st_parent_generation st = None
                            then st\<lparr>st_parent_generation := parent_generation e\<rparr> else st);
                     (report, st2) = fold_finding (dedup_window_ns v) tech d now st1
                 in Some (v\<lparr>entity_map := bm_write m2 k st2\<rparr>,
                          if report then Some (snapshot e st2) else None))))"

definition suppress :: "'ev verdict_engine \<Rightarrow> entity_key \<Rightarrow> string \<Rightarrow> 'ev verdict_engine \<times> suppress_outcome" where
  "suppress v e tech =
     (if (e, tech) \<in> set (suppressed v) then (v, Already_Suppressed)
      else if length (suppressed v) \<ge> MAX_SUPPRESSIONS then (v, Full)
      else (v\<lparr>suppressed := suppressed v @ [(e, tech)]\<rparr>, Added))"

definition unsuppress :: "'ev verdict_engine \<Rightarrow> entity_key \<Rightarrow> string \<Rightarrow> 'ev verdict_engine \<times> bool" where
  "unsuppress v e tech =
     (let before = length (suppressed v);
          v' = v\<lparr>suppressed := filter (\<lambda>(e', t). \<not> (e' = e \<and> t = tech)) (suppressed v)\<rparr>
      in (v', length (suppressed v') \<noteq> before))"

definition suppressions :: "'ev verdict_engine \<Rightarrow> (entity_key \<times> string) list" where
  "suppressions v = sort_key (\<lambda>(e, t). (ppid e, comm e, parent_generation e, t)) (suppressed v)"

definition verdict_peek :: "'ev verdict_engine \<Rightarrow> entity_key \<Rightarrow> 'ev verdict option" where
  "verdict_peek v e =
     (case bm_peek (entity_map v) (ppid e, comm e) of
        None \<Rightarrow> None
      | Some st \<Rightarrow>
          (if \<not> same_generation (st_parent_generation st) (parent_generation e) then None
           else Some (snapshot e st)))"

subsection \<open>What recording a finding does\<close>

text \<open>The state recorded for the entity's incarnation, and the state the finding is folded into.\<close>

definition live_state :: "'ev verdict_engine \<Rightarrow> entity_key \<Rightarrow> 'ev entity_state option" where
  "live_state v e =
     (case bm_peek (entity_map v) (ppid e, comm e) of
        None \<Rightarrow> None
      | Some st \<Rightarrow> if same_generation (st_parent_generation st) (parent_generation e) then Some st else None)"

definition adopt :: "generation \<Rightarrow> 'ev entity_state \<Rightarrow> 'ev entity_state" where
  "adopt g st = (if st_parent_generation st = None then st\<lparr>st_parent_generation := g\<rparr> else st)"

definition base_state :: "'ev verdict_engine \<Rightarrow> entity_key \<Rightarrow> 'ev entity_state" where
  "base_state v e =
     adopt (parent_generation e)
       (case live_state v e of None \<Rightarrow> entity_state_new (parent_generation e) | Some st \<Rightarrow> st)"

lemma verdict_peek_live: "verdict_peek v e = map_option (snapshot e) (live_state v e)"
  by (simp add: verdict_peek_def live_state_def split: option.splits)

lemma adopt_fields [simp]:
  "st_severity (adopt g st) = st_severity st" "st_score (adopt g st) = st_score st"
  "st_techniques (adopt g st) = st_techniques st" "st_sources (adopt g st) = st_sources st"
  "st_detections (adopt g st) = st_detections st" "snapshot e (adopt g st) = snapshot e st"
  by (simp_all add: adopt_def snapshot_def)

lemma adopt_generation:
  "same_generation (st_parent_generation st) g \<Longrightarrow> same_generation (st_parent_generation (adopt g st)) g"
  by (simp add: adopt_def)

lemma fold_finding_generation [simp]:
  "st_parent_generation (snd (fold_finding win tech d now st)) = st_parent_generation st"
  by (simp add: fold_finding_def push_evidence_def Let_def split: prod.splits)

lemma fold_finding_generation_eq:
  "fold_finding win tech d now st = (report, st') \<Longrightarrow> st_parent_generation st' = st_parent_generation st"
  using fold_finding_generation [of win tech d now st] by simp

lemma base_state_generation: "same_generation (st_parent_generation (base_state v e)) (parent_generation e)"
  by (auto simp: base_state_def live_state_def entity_state_new_def intro: adopt_generation split: option.splits)

lemma verdict_record_unsuppressed:
  assumes wf: "bm_wf (entity_map v)" and s: "\<not> is_suppressed v e tech"
    and f: "fold_finding (dedup_window_ns v) tech d now (base_state v e) = (report, st)"
  obtains m where
    "verdict_record v e tech d now = Some (v\<lparr>entity_map := m\<rparr>, if report then Some (snapshot e st) else None)"
    "bm_wf m" "bm_cap m = bm_cap (entity_map v)" "bm_peek m (ppid e, comm e) = Some st"
    "\<And>k. k \<noteq> (ppid e, comm e) \<Longrightarrow> bm_peek m k = None \<or> bm_peek m k = bm_peek (entity_map v) k"
proof -
  let ?k = "(ppid e, comm e)" and ?d = "entity_state_new (parent_generation e)"
  define m1 where "m1 = (case bm_peek (entity_map v) ?k of
      Some s \<Rightarrow> (if \<not> same_generation (st_parent_generation s) (parent_generation e)
                 then fst (bm_remove (entity_map v) ?k) else entity_map v)
    | None \<Rightarrow> entity_map v)"
  define m where "m = bm_write (fst (bm_get_or_insert_with m1 ?k ?d)) ?k st"
  have wf1: "bm_wf m1" using wf by (auto simp: m1_def intro: inv_intros split: option.splits)
  have at: "bm_peek m1 ?k = live_state v e"
    by (auto simp: m1_def live_state_def split: option.splits)
  have other: "bm_peek m1 k = bm_peek (entity_map v) k" if "k \<noteq> ?k" for k
    using that by (auto simp: m1_def split: option.splits)
  have goi: "bm_get_or_insert_with m1 ?k ?d =
      (fst (bm_get_or_insert_with m1 ?k ?d), Some (case live_state v e of None \<Rightarrow> ?d | Some st \<Rightarrow> st))"
    using bm.goi_result [OF wf1, of ?k ?d] at by (simp add: prod_eq_iff)
  have "verdict_record v e tech d now = Some (v\<lparr>entity_map := m\<rparr>, if report then Some (snapshot e st) else None)"
    unfolding verdict_record_def Let_def m1_def [symmetric]
    apply (subst goi)
    using s f by (simp add: base_state_def adopt_def m_def Let_def)
  moreover have "bm_wf m" unfolding m_def by (rule bm.invar_goi_wr [OF wf1])
  moreover have "bm_cap m = bm_cap (entity_map v)"
    using bm_cap_step [of m1 "Get_Or_Insert ?k ?d st"]
    by (simp add: m_def m1_def bm_write_def bm_remove_def split: option.splits)
  moreover have "bm_peek m ?k = Some st" unfolding m_def by (rule bm.look_goi_wr_same [OF wf1])
  moreover have "bm_peek m k = None \<or> bm_peek m k = bm_peek (entity_map v) k" if "k \<noteq> ?k" for k
    using bm.look_goi_wr_other [OF wf1 that, of ?d st] other [OF that] unfolding m_def by simp
  ultimately show ?thesis by (rule that)
qed

subsection \<open>Techniques and their windows\<close>

definition window_of :: "string \<Rightarrow> technique_record list \<Rightarrow> nat option" where
  "window_of tech ts = map_option window_start_ns (find (\<lambda>t. technique t = tech) ts)"

definition in_window :: "nat \<Rightarrow> nat \<Rightarrow> string \<Rightarrow> technique_record list \<Rightarrow> bool" where
  "in_window win now tech ts = (case window_of tech ts of None \<Rightarrow> False | Some w \<Rightarrow> now - w \<le> win)"

lemma touch_technique_eq:
  "fst (touch_technique win now tech ts) = in_window win now tech ts"
  "map technique (snd (touch_technique win now tech ts)) =
     (if tech \<in> technique ` set ts then map technique ts else map technique ts @ [tech])"
  "window_of tech' (snd (touch_technique win now tech ts)) =
     (if tech' = tech \<and> \<not> in_window win now tech ts then Some now else window_of tech' ts)"
  by (induction ts) (auto simp: in_window_def window_of_def Let_def split: prod.splits)

lemma window_of_None: "window_of tech ts = None \<longleftrightarrow> tech \<notin> technique ` set ts"
  by (auto simp: window_of_def find_None_iff)

lemma length_push_evidence [simp]:
  "length (st_detections st) \<le> EVIDENCE_CAP \<Longrightarrow> length (st_detections (push_evidence st d)) \<le> EVIDENCE_CAP"
  by (simp add: push_evidence_def Let_def)

lemma push_evidence_fields [simp]:
  "st_severity (push_evidence st d) = st_severity st" "st_score (push_evidence st d) = st_score st"
  "st_techniques (push_evidence st d) = st_techniques st" "st_sources (push_evidence st d) = st_sources st"
  by (simp_all add: push_evidence_def Let_def)

lemma set_push_evidence: "set (st_detections (push_evidence st d)) \<subseteq> insert d (set (st_detections st))"
  by (cases "st_detections st") (auto simp: push_evidence_def Let_def)

lemma last_push_evidence: "st_detections (push_evidence st d) \<noteq> [] \<and> last (st_detections (push_evidence st d)) = d"
  by (auto simp: push_evidence_def Let_def EVIDENCE_CAP_def tl_append split: list.splits)

lemma fold_finding_facts:
  assumes "fold_finding win tech d now st = (report, st')"
  shows "map technique (st_techniques st') =
      (if tech \<in> technique ` set (st_techniques st) then map technique (st_techniques st)
       else map technique (st_techniques st) @ [tech])"
    and "window_of tech (st_techniques st') =
      (if in_window win now tech (st_techniques st) then window_of tech (st_techniques st) else Some now)"
    and "st_severity st' = max (st_severity st) (severity_of d)"
    and "st_score st' = (if score_raises (score_of d) (st_score st) then score_of d else st_score st)"
    and "st_sources st' = (if source d \<in> set (st_sources st) then st_sources st else st_sources st @ [source d])"
    and "set (st_detections st') \<subseteq> insert d (set (st_detections st))"
    and "st_detections st' \<noteq> [] \<and> last (st_detections st') = d"
    and "length (st_detections st) \<le> EVIDENCE_CAP \<Longrightarrow> length (st_detections st') \<le> EVIDENCE_CAP"
    and "report \<longleftrightarrow> \<not> in_window win now tech (st_techniques st) \<or> severity_of d > st_severity st \<or>
      score_raises (score_of d) (st_score st)"
proof -
  define ts where "ts = snd (touch_technique win now tech (st_techniques st))"
  have t: "touch_technique win now tech (st_techniques st) = (in_window win now tech (st_techniques st), ts)"
    by (simp add: ts_def prod_eq_iff touch_technique_eq)
  define st1 where "st1 = st\<lparr>st_techniques := ts,
     st_severity := (if severity_of d > st_severity st then severity_of d else st_severity st),
     st_score := (if score_raises (score_of d) (st_score st) then score_of d else st_score st),
     st_sources := (if source d \<in> set (st_sources st) then st_sources st else st_sources st @ [source d])\<rparr>"
  have st': "st' = push_evidence st1 d" and r: "report \<longleftrightarrow> \<not> in_window win now tech (st_techniques st) \<or>
      severity_of d > st_severity st \<or> score_raises (score_of d) (st_score st)"
    using assms by (auto simp: fold_finding_def t Let_def st1_def)
  show "map technique (st_techniques st') =
      (if tech \<in> technique ` set (st_techniques st) then map technique (st_techniques st)
       else map technique (st_techniques st) @ [tech])"
    by (simp add: st' st1_def ts_def touch_technique_eq)
  show "window_of tech (st_techniques st') =
      (if in_window win now tech (st_techniques st) then window_of tech (st_techniques st) else Some now)"
    by (simp add: st' st1_def ts_def touch_technique_eq)
  show "st_severity st' = max (st_severity st) (severity_of d)"
    by (auto simp: st' st1_def max_def)
  show "st_score st' = (if score_raises (score_of d) (st_score st) then score_of d else st_score st)"
    by (simp add: st' st1_def)
  show "st_sources st' = (if source d \<in> set (st_sources st) then st_sources st else st_sources st @ [source d])"
    by (simp add: st' st1_def)
  show "set (st_detections st') \<subseteq> insert d (set (st_detections st))"
    using set_push_evidence [of st1 d] by (simp add: st' st1_def)
  show "st_detections st' \<noteq> [] \<and> last (st_detections st') = d"
    unfolding st' by (rule last_push_evidence)
  show "length (st_detections st') \<le> EVIDENCE_CAP" if "length (st_detections st) \<le> EVIDENCE_CAP"
    unfolding st' using that by (intro length_push_evidence) (simp add: st1_def)
  show "report \<longleftrightarrow> \<not> in_window win now tech (st_techniques st) \<or> severity_of d > st_severity st \<or>
      score_raises (score_of d) (st_score st)"
    by (rule r)
qed

subsection \<open>The invariant\<close>

fun score_le :: "real option \<Rightarrow> real option \<Rightarrow> bool" where
  "score_le None _ = True"
| "score_le (Some _) None = False"
| "score_le (Some a) (Some b) = (a \<le> b)"

lemma score_le_refl [simp]: "score_le a a"
  by (cases a) simp_all

lemma score_le_trans: "score_le a b \<Longrightarrow> score_le b c \<Longrightarrow> score_le a c"
  by (cases a; cases b; cases c) simp_all

lemma score_raises_le: "score_raises a b \<longleftrightarrow> \<not> score_le a b"
  by (cases a; cases b) auto

lemma score_le_linear: "score_le a b \<or> score_le b a"
  by (cases a; cases b) auto

definition state_ok :: "'ev entity_state \<Rightarrow> bool" where
  "state_ok st \<longleftrightarrow>
     distinct (map technique (st_techniques st)) \<and> distinct (st_sources st) \<and>
     length (st_detections st) \<le> EVIDENCE_CAP \<and>
     (\<forall>d \<in> set (st_detections st). severity_of d \<le> st_severity st \<and>
        score_le (score_of d) (st_score st) \<and> source d \<in> set (st_sources st))"

definition engine_ok :: "'ev verdict_engine \<Rightarrow> bool" where
  "engine_ok v \<longleftrightarrow>
     bm_wf (entity_map v) \<and> bm_cap (entity_map v) = ENTITY_CAP \<and>
     all_entries bm_peek (\<lambda>k st. state_ok st) (entity_map v) \<and>
     distinct (suppressed v) \<and> length (suppressed v) \<le> MAX_SUPPRESSIONS"

lemma state_ok_new [simp]: "state_ok (entity_state_new g)"
  by (simp add: state_ok_def entity_state_new_def)

lemma state_ok_adopt [simp]: "state_ok (adopt g st) = state_ok st"
  by (simp add: state_ok_def)

lemma state_ok_fold:
  assumes ok: "state_ok st" and f: "fold_finding win tech d now st = (report, st')"
  shows "state_ok st'"
proof -
  note facts = fold_finding_facts [OF f]
  have score: "score_le (score_of d) (st_score st')" "score_le (st_score st) (st_score st')"
    unfolding facts(4) using score_le_linear [of "score_of d" "st_score st"] by (auto simp: score_raises_le)
  have "severity_of x \<le> st_severity st' \<and> score_le (score_of x) (st_score st') \<and> source x \<in> set (st_sources st')"
    if "x \<in> set (st_detections st')" for x
    using that facts(6) ok score
    by (auto simp: state_ok_def facts(3,5) max_def intro: score_le_trans order_trans)
  moreover have "distinct (map technique (st_techniques st'))" "distinct (st_sources st')"
    using ok by (auto simp: facts(1,5) state_ok_def)
  ultimately show ?thesis using ok facts(8) by (simp add: state_ok_def)
qed

lemma live_state_ok:
  assumes "engine_ok v" "live_state v e = Some st"
  shows "state_ok st"
  using assms by (auto simp: engine_ok_def all_entries_def live_state_def split: option.splits if_splits)

lemma base_state_ok: "engine_ok v \<Longrightarrow> state_ok (base_state v e)"
  by (auto simp: base_state_def dest: live_state_ok split: option.split)

lemma engine_ok_new: "engine_ok (verdict_engine_new w)"
  by (auto simp: engine_ok_def verdict_engine_new_def all_entries_def bm_peek_def bm_empty_def
      MAX_SUPPRESSIONS_def ENTITY_CAP_def intro: inv_intros bm_wf_empty [unfolded bm_empty_def])

lemma verdict_record_live:
  assumes ok: "engine_ok v" and live: "\<not> is_suppressed v e tech"
  obtains v' report st where
    "fold_finding (dedup_window_ns v) tech d now (base_state v e) = (report, st)"
    "verdict_record v e tech d now = Some (v', if report then Some (snapshot e st) else None)"
    "engine_ok v'" "live_state v' e = Some st" "dedup_window_ns v' = dedup_window_ns v" "suppressed v' = suppressed v"
    "bm_peek (entity_map v') (ppid e, comm e) = Some st"
proof -
  obtain report st where f: "fold_finding (dedup_window_ns v) tech d now (base_state v e) = (report, st)"
    by fastforce
  have wf: "bm_wf (entity_map v)" using ok by (simp add: engine_ok_def)
  obtain m where m: "verdict_record v e tech d now = Some (v\<lparr>entity_map := m\<rparr>, if report then Some (snapshot e st) else None)"
    "bm_wf m" "bm_cap m = bm_cap (entity_map v)" "bm_peek m (ppid e, comm e) = Some st"
    "\<And>k. k \<noteq> (ppid e, comm e) \<Longrightarrow> bm_peek m k = None \<or> bm_peek m k = bm_peek (entity_map v) k"
    using verdict_record_unsuppressed [OF wf live f] by blast
  have "state_ok st" by (rule state_ok_fold [OF base_state_ok [OF ok] f])
  then have "all_entries bm_peek (\<lambda>k st. state_ok st) m"
    using ok m(4,5) unfolding all_entries_def engine_ok_def by (metis option.distinct(1) option.inject)
  then have ok': "engine_ok (v\<lparr>entity_map := m\<rparr>)" using ok m(2,3) by (simp add: engine_ok_def)
  have "same_generation (st_parent_generation st) (parent_generation e)"
    using fold_finding_generation_eq [OF f] base_state_generation [of v e] by simp
  then have "live_state (v\<lparr>entity_map := m\<rparr>) e = Some st" using m(4) by (simp add: live_state_def)
  then show ?thesis using that [OF f m(1) ok'] m(4) by simp
qed

lemma engine_ok_record:
  assumes ok: "engine_ok v"
  obtains v' r where "verdict_record v e tech d now = Some (v', r)" "engine_ok v'"
proof (cases "is_suppressed v e tech")
  case True
  then show ?thesis using that ok by (simp add: verdict_record_def)
next
  case False
  show ?thesis by (rule verdict_record_live [OF ok False]) (rule that)
qed

lemma engine_ok_suppress [inv_intros]: "engine_ok v \<Longrightarrow> engine_ok (fst (suppress v e tech))"
  by (auto simp: engine_ok_def suppress_def)

lemma engine_ok_unsuppress [inv_intros]: "engine_ok v \<Longrightarrow> engine_ok (fst (unsuppress v e tech))"
  by (auto simp: engine_ok_def unsuppress_def Let_def intro: order_trans [OF length_filter_le])

datatype 'ev verdict_op =
    Record entity_key string "'ev detection" nat
  | Suppress entity_key string
  | Unsuppress entity_key string

fun verdict_step :: "'ev verdict_engine \<Rightarrow> 'ev verdict_op \<Rightarrow> 'ev verdict_engine option" where
  "verdict_step v (Record e tech d now) = map_option fst (verdict_record v e tech d now)"
| "verdict_step v (Suppress e tech) = Some (fst (suppress v e tech))"
| "verdict_step v (Unsuppress e tech) = Some (fst (unsuppress v e tech))"

fun verdict_run :: "'ev verdict_engine \<Rightarrow> 'ev verdict_op list \<Rightarrow> 'ev verdict_engine option" where
  "verdict_run v [] = Some v"
| "verdict_run v (op # ops) = Option.bind (verdict_step v op) (\<lambda>v'. verdict_run v' ops)"

lemma engine_ok_step:
  assumes "engine_ok v"
  shows "\<exists>v'. verdict_step v op = Some v' \<and> engine_ok v'"
proof (cases op)
  case (Record e tech d now)
  obtain v' r where "verdict_record v e tech d now = Some (v', r)" "engine_ok v'"
    by (rule engine_ok_record [OF assms])
  then show ?thesis using Record by simp
qed (use assms in \<open>auto intro: inv_intros\<close>)

lemma engine_ok_run: "engine_ok v \<Longrightarrow> \<exists>v'. verdict_run v ops = Some v' \<and> engine_ok v'"
proof (induction ops arbitrary: v)
  case (Cons op ops)
  obtain v1 where "verdict_step v op = Some v1" "engine_ok v1"
    using engine_ok_step [OF Cons.prems] by blast
  then show ?case using Cons.IH [of v1] by simp
qed simp

subsection \<open>Properties\<close>

text \<open>
  C26: Recording findings, suppressing and unsuppressing in any order, from a fresh engine, never
  panics; the engine never tracks more than \<open>ENTITY_CAP\<close> entities or \<open>MAX_SUPPRESSIONS\<close> marks; and
  every verdict it shows lists each technique and source once, keeps at most 16 detections,
  and is at least as severe and as confident as each of them.
\<close>

theorem verdict_engine_invariant:
  shows "\<exists>v. verdict_run (verdict_engine_new w) ops = Some v \<and>
    bm_len (entity_map v) \<le> ENTITY_CAP \<and> length (suppressions v) \<le> MAX_SUPPRESSIONS \<and>
    (\<forall>e vd. verdict_peek v e = Some vd \<longrightarrow>
       distinct (v_techniques vd) \<and> distinct (v_sources vd) \<and> length (v_detections vd) \<le> EVIDENCE_CAP \<and>
       (\<forall>d \<in> set (v_detections vd). severity_of d \<le> v_severity vd \<and> score_le (score_of d) (v_score vd) \<and>
          source d \<in> set (v_sources vd)))"
proof -
  obtain v where run: "verdict_run (verdict_engine_new w) ops = Some v" and ok: "engine_ok v"
    using engine_ok_run [OF engine_ok_new] by blast
  have len: "bm_len (entity_map v) \<le> ENTITY_CAP" "length (suppressions v) \<le> MAX_SUPPRESSIONS"
    using ok bm.bounded [of "entity_map v"] by (simp_all add: engine_ok_def suppressions_def)
  have "state_ok st" if "live_state v e = Some st" for e st
    using live_state_ok [OF ok that] .
  then show ?thesis
    using run len by (auto simp: verdict_peek_live snapshot_def state_ok_def)
qed

definition demo_detection :: "nat \<Rightarrow> severity \<Rightarrow> real option \<Rightarrow> nat detection" where
  "demo_detection t sev sc = \<lparr>timestamp_ns = t, severity_of = sev, title = ''demo'', source = Rule ''r1'',
     score_of = sc, attributions = [], techniques_of = [''T1059''], events_of = [t]\<rparr>"

theorem verdict_engine_invariant_witness:
  "\<exists>v. verdict_run (verdict_engine_new 100)
      [Record (entity_key_new 7 ''sh'') ''T1059'' (demo_detection 1 High None) 5,
       Suppress (entity_key_new 7 ''sh'') ''T1059'',
       Record (entity_key_new 7 ''sh'') ''T1059'' (demo_detection 2 Critical (Some 0.9)) 6] = Some v \<and>
    bm_len (entity_map v) \<le> ENTITY_CAP \<and> length (suppressions v) \<le> MAX_SUPPRESSIONS"
  using verdict_engine_invariant [of 100 "[Record (entity_key_new 7 ''sh'') ''T1059'' (demo_detection 1 High None) 5,
       Suppress (entity_key_new 7 ''sh'') ''T1059'',
       Record (entity_key_new 7 ''sh'') ''T1059'' (demo_detection 2 Critical (Some 0.9)) 6]"]
  by blast

text \<open>
  A finding is absorbed exactly when it is suppressed, or when its technique's dedup window for
  the entity's incarnation is open and it raises neither severity nor score; a suppressed finding
  changes nothing, and a reported verdict is what the engine shows afterwards.
\<close>

theorem verdict_record_reports:
  assumes ok: "engine_ok v"
  shows "\<exists>v' r. verdict_record v e tech d now = Some (v', r) \<and>
    (r = None \<longleftrightarrow> is_suppressed v e tech \<or>
       (\<exists>st. live_state v e = Some st \<and> in_window (dedup_window_ns v) now tech (st_techniques st) \<and>
          severity_of d \<le> st_severity st \<and> score_le (score_of d) (st_score st))) \<and>
    (is_suppressed v e tech \<longrightarrow> v' = v) \<and>
    (r = None \<or> verdict_peek v' e = r)"
proof (cases "is_suppressed v e tech")
  case True
  then show ?thesis by (simp add: verdict_record_def)
next
  case False
  obtain v' report st where f: "fold_finding (dedup_window_ns v) tech d now (base_state v e) = (report, st)"
    and r: "verdict_record v e tech d now = Some (v', if report then Some (snapshot e st) else None)"
    "engine_ok v'" "live_state v' e = Some st" "dedup_window_ns v' = dedup_window_ns v" "suppressed v' = suppressed v"
    "bm_peek (entity_map v') (ppid e, comm e) = Some st"
    by (rule verdict_record_live [OF ok False])
  have "\<not> report \<longleftrightarrow> (\<exists>st. live_state v e = Some st \<and> in_window (dedup_window_ns v) now tech (st_techniques st) \<and>
      severity_of d \<le> st_severity st \<and> score_le (score_of d) (st_score st))"
    unfolding fold_finding_facts(9) [OF f]
    by (cases "live_state v e")
       (auto simp: base_state_def entity_state_new_def in_window_def window_of_def score_raises_le not_less)
  then show ?thesis
    using False r(1,3) by (auto simp: verdict_peek_live split: if_splits)
qed

lemma fresh_engine [simp]:
  "live_state (verdict_engine_new w) e = None" "\<not> is_suppressed (verdict_engine_new w) e tech"
  by (simp_all add: live_state_def is_suppressed_def verdict_engine_new_def bm_peek_def bm_empty_def)

lemma dedup_window_new: "dedup_window_ns (verdict_engine_new w) = w"
  by (simp add: verdict_engine_new_def)

theorem verdict_record_reports_witness:
  "\<exists>v' vd. verdict_record (verdict_engine_new 100) (entity_key_new 7 ''sh'') ''T1059'' (demo_detection 1 High None) 5 =
      Some (v', Some vd) \<and> verdict_peek v' (entity_key_new 7 ''sh'') = Some vd"
  using verdict_record_reports [OF engine_ok_new, of 100 "entity_key_new 7 ''sh''" "''T1059''" "demo_detection 1 High None" 5]
  by auto

text \<open>
  An unsuppressed finding is folded in: the entity's verdict then has the finding as its newest
  evidence and lists its technique and source; its severity is the maximum of the old severity
  and the finding's, its score only rises, and no technique or source of the same incarnation is
  ever dropped.
\<close>

theorem verdict_record_accumulates:
  assumes ok: "engine_ok v" and live: "\<not> is_suppressed v e tech"
  shows "\<exists>v' r vd. verdict_record v e tech d now = Some (v', r) \<and> verdict_peek v' e = Some vd \<and>
    v_detections vd \<noteq> [] \<and> last (v_detections vd) = d \<and> tech \<in> set (v_techniques vd) \<and> source d \<in> set (v_sources vd) \<and>
    score_le (score_of d) (v_score vd) \<and>
    (case verdict_peek v e of
       None \<Rightarrow> v_severity vd = severity_of d \<and> v_score vd = score_of d \<and> v_techniques vd = [tech]
     | Some old \<Rightarrow> v_severity vd = max (v_severity old) (severity_of d) \<and> score_le (v_score old) (v_score vd) \<and>
         prefix (v_techniques old) (v_techniques vd) \<and> prefix (v_sources old) (v_sources vd))"
proof -
  obtain v' report st where f: "fold_finding (dedup_window_ns v) tech d now (base_state v e) = (report, st)"
    and r: "verdict_record v e tech d now = Some (v', if report then Some (snapshot e st) else None)"
    "engine_ok v'" "live_state v' e = Some st" "dedup_window_ns v' = dedup_window_ns v" "suppressed v' = suppressed v"
    "bm_peek (entity_map v') (ppid e, comm e) = Some st"
    by (rule verdict_record_live [OF ok live])
  note facts = fold_finding_facts [OF f]
  have "tech \<in> set (map technique (st_techniques st))" "score_le (score_of d) (st_score st)"
    "source d \<in> set (st_sources st)" "score_le (st_score (base_state v e)) (st_score st)"
    "prefix (map technique (st_techniques (base_state v e))) (map technique (st_techniques st))"
    "prefix (st_sources (base_state v e)) (st_sources st)"
    unfolding facts(1,4,5) using score_le_linear [of "score_of d" "st_score (base_state v e)"]
    by (auto simp: score_raises_le)
  moreover have "live_state v e = None \<Longrightarrow> st_severity st = severity_of d \<and> st_score st = score_of d \<and>
      map technique (st_techniques st) = [tech]"
    unfolding facts(1,3,4) by (cases "score_of d") (auto simp: base_state_def entity_state_new_def max_def)
  moreover have "live_state v e = Some old \<Longrightarrow> st_severity (base_state v e) = st_severity old \<and>
      st_score (base_state v e) = st_score old \<and> st_techniques (base_state v e) = st_techniques old \<and>
      st_sources (base_state v e) = st_sources old" for old
    by (simp add: base_state_def)
  ultimately show ?thesis
    using r(1,3) facts(3,7)
    by (intro exI [of _ v'] exI [of _ "if report then Some (snapshot e st) else None"] exI [of _ "snapshot e st"])
       (cases "live_state v e"; simp add: verdict_peek_live snapshot_def)
qed

theorem verdict_record_accumulates_witness:
  "\<exists>v' r vd. verdict_record (verdict_engine_new 100) (entity_key_new 7 ''sh'') ''T1059'' (demo_detection 1 High (Some 0.5)) 5 =
      Some (v', r) \<and> verdict_peek v' (entity_key_new 7 ''sh'') = Some vd \<and> v_severity vd = High \<and> v_score vd = Some 0.5 \<and>
    v_techniques vd = [''T1059''] \<and> last (v_detections vd) = demo_detection 1 High (Some 0.5)"
  using verdict_record_accumulates [OF engine_ok_new, of 100 "entity_key_new 7 ''sh''" "''T1059''" "demo_detection 1 High (Some 0.5)" 5]
  by (auto simp: verdict_peek_live demo_detection_def)

text \<open>
  C7: A recycled parent pid starts afresh: when the recorded incarnation and the finding's are known
  and different, the finding is reported and the verdict holds that finding alone, and the engine
  no longer shows the old incarnation.
\<close>

theorem verdict_generation_isolated:
  assumes ok: "engine_ok v" and live: "\<not> is_suppressed v e tech"
    and old: "bm_peek (entity_map v) (ppid e, comm e) = Some st0" "st_parent_generation st0 = Some a"
    and new: "parent_generation e = Some b" "a \<noteq> b"
  shows "\<exists>v' vd. verdict_record v e tech d now = Some (v', Some vd) \<and> verdict_peek v' e = Some vd \<and>
    v_severity vd = severity_of d \<and> v_score vd = score_of d \<and> v_techniques vd = [tech] \<and>
    v_sources vd = [source d] \<and> v_detections vd = [d] \<and> verdict_peek v' (e\<lparr>parent_generation := Some a\<rparr>) = None"
proof -
  have none: "live_state v e = None" using old new by (simp add: live_state_def)
  then have base: "base_state v e = entity_state_new (Some b)"
    using new(1) by (simp add: base_state_def adopt_def entity_state_new_def)
  obtain v' report st where f: "fold_finding (dedup_window_ns v) tech d now (base_state v e) = (report, st)"
    and r: "verdict_record v e tech d now = Some (v', if report then Some (snapshot e st) else None)"
    "engine_ok v'" "live_state v' e = Some st" "dedup_window_ns v' = dedup_window_ns v" "suppressed v' = suppressed v"
    "bm_peek (entity_map v') (ppid e, comm e) = Some st"
    by (rule verdict_record_live [OF ok live])
  have "report" "st_severity st = severity_of d" "st_score st = score_of d" "map technique (st_techniques st) = [tech]"
    "st_sources st = [source d]" "st_detections st = [d]" "st_parent_generation st = Some b"
    using f by (cases "score_of d"; auto simp: base fold_finding_def entity_state_new_def push_evidence_def
        EVIDENCE_CAP_def Let_def less_le)+
  then show ?thesis
    using r(1,3,6) new(2) by (simp add: verdict_peek_live snapshot_def live_state_def)
qed

definition demo_engine :: "nat verdict_engine" where
  "demo_engine = fst (the (verdict_record (verdict_engine_new 100)
     (with_parent_generation (entity_key_new 7 ''sh'') (Some 1)) ''T1059'' (demo_detection 1 High None) 5))"

lemma demo_engine_facts:
  "engine_ok demo_engine" "suppressed demo_engine = []" "dedup_window_ns demo_engine = 100"
  "\<exists>st. bm_peek (entity_map demo_engine) (7, ''sh'') = Some st \<and> st_parent_generation st = Some 1"
proof -
  let ?e = "with_parent_generation (entity_key_new 7 ''sh'') (Some 1)"
  let ?v = "verdict_engine_new 100 :: nat verdict_engine"
  obtain v' report st where f: "fold_finding (dedup_window_ns ?v) ''T1059'' (demo_detection 1 High None) 5
      (base_state ?v ?e) = (report, st)"
    and r: "verdict_record ?v ?e ''T1059'' (demo_detection 1 High None) 5 =
      Some (v', if report then Some (snapshot ?e st) else None)"
    "engine_ok v'" "live_state v' ?e = Some st" "dedup_window_ns v' = dedup_window_ns ?v"
    "suppressed v' = suppressed ?v"
    "bm_peek (entity_map v') (ppid ?e, comm ?e) = Some st"
    by (rule verdict_record_live [OF engine_ok_new fresh_engine(2)])
  have "st_parent_generation st = Some 1"
    using fold_finding_generation_eq [OF f]
    by (simp add: base_state_def adopt_def entity_state_new_def with_parent_generation_def)
  then show "engine_ok demo_engine" "suppressed demo_engine = []" "dedup_window_ns demo_engine = 100"
    "\<exists>st. bm_peek (entity_map demo_engine) (7, ''sh'') = Some st \<and> st_parent_generation st = Some 1"
    using r by (auto simp: demo_engine_def verdict_engine_new_def with_parent_generation_def entity_key_new_def)
qed

theorem verdict_generation_isolated_witness:
  "\<exists>v' vd. verdict_record demo_engine (with_parent_generation (entity_key_new 7 ''sh'') (Some 2)) ''T1105''
      (demo_detection 2 Medium None) 6 = Some (v', Some vd) \<and>
    v_techniques vd = [''T1105''] \<and> v_severity vd = Medium"
proof -
  let ?e = "with_parent_generation (entity_key_new 7 ''sh'') (Some 2)"
  obtain st where st: "bm_peek (entity_map demo_engine) (ppid ?e, comm ?e) = Some st" "st_parent_generation st = Some 1"
    using demo_engine_facts(4) by (auto simp: with_parent_generation_def entity_key_new_def)
  have "\<not> is_suppressed demo_engine ?e ''T1105''" by (simp add: is_suppressed_def demo_engine_facts(2))
  from verdict_generation_isolated [OF demo_engine_facts(1) this st, of 2 "demo_detection 2 Medium None" 6]
  show ?thesis by (auto simp: with_parent_generation_def demo_detection_def)
qed

text \<open>Findings of one technique for one entity.\<close>

definition repeats :: "entity_key \<Rightarrow> string \<Rightarrow> ('ev detection \<times> nat) list \<Rightarrow> 'ev verdict_op list" where
  "repeats e tech xs = map (\<lambda>(d, now). Record e tech d now) xs"

lemma record_in_window:
  assumes ok: "engine_ok v" and live: "\<not> is_suppressed v e tech"
    and st: "live_state v e = Some st" "window_of tech (st_techniques st) = Some t0"
    and now: "now \<le> t0 + dedup_window_ns v"
  shows "\<exists>v' r st'. verdict_record v e tech d now = Some (v', r) \<and> engine_ok v' \<and> \<not> is_suppressed v' e tech \<and>
    live_state v' e = Some st' \<and> window_of tech (st_techniques st') = Some t0 \<and> dedup_window_ns v' = dedup_window_ns v"
proof -
  obtain v' report st' where f: "fold_finding (dedup_window_ns v) tech d now (base_state v e) = (report, st')"
    and r: "verdict_record v e tech d now = Some (v', if report then Some (snapshot e st') else None)"
    "engine_ok v'" "live_state v' e = Some st'" "dedup_window_ns v' = dedup_window_ns v" "suppressed v' = suppressed v"
    "bm_peek (entity_map v') (ppid e, comm e) = Some st'"
    by (rule verdict_record_live [OF ok live])
  have "window_of tech (st_techniques (base_state v e)) = Some t0" using st by (simp add: base_state_def)
  then have "window_of tech (st_techniques st') = Some t0"
    unfolding fold_finding_facts(2) [OF f] using now by (auto simp: in_window_def)
  then show ?thesis using r live by (auto simp: is_suppressed_def)
qed

lemma repeats_in_window:
  "engine_ok v \<Longrightarrow> \<not> is_suppressed v e tech \<Longrightarrow> live_state v e = Some st \<Longrightarrow>
   window_of tech (st_techniques st) = Some t0 \<Longrightarrow> \<forall>(d, now) \<in> set xs. now \<le> t0 + dedup_window_ns v \<Longrightarrow>
   \<exists>v' st'. verdict_run v (repeats e tech xs) = Some v' \<and> engine_ok v' \<and> \<not> is_suppressed v' e tech \<and>
     live_state v' e = Some st' \<and> window_of tech (st_techniques st') = Some t0 \<and> dedup_window_ns v' = dedup_window_ns v"
proof (induction xs arbitrary: v st)
  case (Cons x xs)
  obtain d now where x: "x = (d, now)" by (cases x)
  have "now \<le> t0 + dedup_window_ns v" using Cons.prems(5) x by simp
  then obtain v1 r st1 where v1: "verdict_record v e tech d now = Some (v1, r)" "engine_ok v1" "\<not> is_suppressed v1 e tech"
    "live_state v1 e = Some st1" "window_of tech (st_techniques st1) = Some t0" "dedup_window_ns v1 = dedup_window_ns v"
    using record_in_window [OF Cons.prems(1-4)] by blast
  show ?case using Cons.IH [OF v1(2-5)] Cons.prems(5) v1(1,6) x by (simp add: repeats_def)
qed (simp add: repeats_def)

text \<open>
  The dedup window is fixed, not sliding: once a finding has opened a technique's window at
  time \<open>t0\<close>, any number of further findings of the technique up to \<open>t0\<close> plus the window length
  cannot keep it open, and the next finding after that is reported.
\<close>

theorem verdict_window_is_fixed:
  assumes ok: "engine_ok v" and live: "\<not> is_suppressed v e tech" and absent: "verdict_peek v e = None"
    and within: "\<forall>(d, now) \<in> set xs. now \<le> t0 + dedup_window_ns v" and after: "t > t0 + dedup_window_ns v"
  shows "\<exists>v' v'' vd. verdict_run v (repeats e tech ((d0, t0) # xs)) = Some v' \<and>
    verdict_record v' e tech d t = Some (v'', Some vd) \<and> tech \<in> set (v_techniques vd)"
proof -
  have none: "live_state v e = None" using absent by (simp add: verdict_peek_live)
  obtain v1 report st1 where f: "fold_finding (dedup_window_ns v) tech d0 t0 (base_state v e) = (report, st1)"
    and r: "verdict_record v e tech d0 t0 = Some (v1, if report then Some (snapshot e st1) else None)"
    "engine_ok v1" "live_state v1 e = Some st1" "dedup_window_ns v1 = dedup_window_ns v" "suppressed v1 = suppressed v"
    "bm_peek (entity_map v1) (ppid e, comm e) = Some st1"
    by (rule verdict_record_live [OF ok live])
  have w: "window_of tech (st_techniques st1) = Some t0"
    unfolding fold_finding_facts(2) [OF f]
    by (simp add: base_state_def none entity_state_new_def in_window_def window_of_def)
  have live1: "\<not> is_suppressed v1 e tech" using live r(5) by (simp add: is_suppressed_def)
  obtain v' st' where v': "verdict_run v1 (repeats e tech xs) = Some v'" "engine_ok v'" "\<not> is_suppressed v' e tech"
    "live_state v' e = Some st'" "window_of tech (st_techniques st') = Some t0" "dedup_window_ns v' = dedup_window_ns v1"
    using repeats_in_window [OF r(2) live1 r(3) w, of xs] within r(4) by auto
  obtain v'' report' st'' where f': "fold_finding (dedup_window_ns v') tech d t (base_state v' e) = (report', st'')"
    and r': "verdict_record v' e tech d t = Some (v'', if report' then Some (snapshot e st'') else None)"
    "engine_ok v''" "live_state v'' e = Some st''" "dedup_window_ns v'' = dedup_window_ns v'" "suppressed v'' = suppressed v'"
    "bm_peek (entity_map v'') (ppid e, comm e) = Some st''"
    by (rule verdict_record_live [OF v'(2,3)])
  have "\<not> in_window (dedup_window_ns v') t tech (st_techniques (base_state v' e))"
    using v'(4-6) r(4) after by (simp add: base_state_def in_window_def)
  then have "report'" unfolding fold_finding_facts(9) [OF f'] by simp
  moreover have "tech \<in> set (map technique (st_techniques st''))" unfolding fold_finding_facts(1) [OF f'] by auto
  ultimately show ?thesis
    using r(1) v'(1) r'(1) by (simp add: repeats_def snapshot_def)
qed

theorem verdict_window_is_fixed_witness:
  "\<exists>v' v'' vd. verdict_run (verdict_engine_new 10) (repeats (entity_key_new 7 ''sh'') ''T1059''
      [(demo_detection 1 High None, 5), (demo_detection 2 High None, 9), (demo_detection 3 High None, 15)]) = Some v' \<and>
    verdict_record v' (entity_key_new 7 ''sh'') ''T1059'' (demo_detection 4 High None) 16 = Some (v'', Some vd) \<and>
    ''T1059'' \<in> set (v_techniques vd)"
  using verdict_window_is_fixed [OF engine_ok_new fresh_engine(2), of 10 "entity_key_new 7 ''sh''"
      "[(demo_detection 2 High None, 9), (demo_detection 3 High None, 15)]" 5 16 "''T1059''" "demo_detection 1 High None"
      "demo_detection 4 High None"]
  by (simp add: verdict_peek_live dedup_window_new)

text \<open>
  A suppression mark silences its technique for every incarnation it does not rule out, without
  touching the engine, until it is removed; removing it undoes exactly the marking. Marks beyond
  the bound are refused, and the listing is the marks in order.
\<close>

theorem suppress_silences_until_unsuppressed:
  assumes "suppress v e tech = (v', Added)"
  shows "(ppid e' = ppid e \<and> comm e' = comm e \<and> same_generation (parent_generation e) (parent_generation e') \<longrightarrow>
      verdict_record v' e' tech d now = Some (v', None)) \<and>
    unsuppress v' e tech = (v, True) \<and>
    length (suppressions v') = length (suppressions v) + 1 \<and> length (suppressions v') \<le> MAX_SUPPRESSIONS \<and>
    set (suppressions v') = insert (e, tech) (set (suppressions v)) \<and>
    sorted (map (\<lambda>(e, t). (ppid e, comm e, parent_generation e, t)) (suppressions v'))"
proof -
  have v': "v' = v\<lparr>suppressed := suppressed v @ [(e, tech)]\<rparr>" "(e, tech) \<notin> set (suppressed v)"
    "length (suppressed v) < MAX_SUPPRESSIONS"
    using assms by (auto simp: suppress_def split: if_splits)
  have "filter (\<lambda>(e', t). \<not> (e' = e \<and> t = tech)) (suppressed v) = suppressed v"
    using v'(2) by (intro filter_True) auto
  then have "unsuppress v' e tech = (v, True)"
    by (simp add: v'(1) unsuppress_def)
  then show ?thesis
    using v' by (auto simp: verdict_record_def is_suppressed_def suppressions_def)
qed

theorem suppress_silences_until_unsuppressed_witness:
  "\<exists>v'. suppress (verdict_engine_new 10) (entity_key_new 7 ''sh'') ''T1059'' = (v', Added) \<and>
    verdict_record v' (with_parent_generation (entity_key_new 7 ''sh'') (Some 3)) ''T1059'' (demo_detection 1 High None) 5 =
      Some (v', None) \<and>
    unsuppress v' (entity_key_new 7 ''sh'') ''T1059'' = (verdict_engine_new 10, True)"
proof -
  obtain v' where v': "suppress (verdict_engine_new 10 :: nat verdict_engine) (entity_key_new 7 ''sh'') ''T1059'' = (v', Added)"
    by (simp add: suppress_def verdict_engine_new_def MAX_SUPPRESSIONS_def)
  show ?thesis
    using v' suppress_silences_until_unsuppressed [OF v', of "with_parent_generation (entity_key_new 7 ''sh'') (Some 3)"
        "demo_detection 1 High None" 5]
    by (simp add: with_parent_generation_def entity_key_new_def)
qed

end
