(* ===== verification/Sliding.thy ===== *)
theory Sliding
  imports Prelude
begin

text \<open>
  The sliding windows of the rules crate (\<open>crates/rules/src/sliding.rs\<close>): the counter, the
  sum, the per-port dedup and the distinct counter. A double-ended queue is a list, oldest first;
  timestamps and counts are natural numbers, and \<open>saturating_sub\<close> is their subtraction. The
  counts are cast to 32 bits by the source, which the cap of 256 makes exact.
\<close>

subsection \<open>The counter\<close>

record sliding_counter =
  timestamps :: "nat list"
  sc_last_alert_ns :: "nat option"

definition sliding_counter_default :: sliding_counter where
  "sliding_counter_default = \<lparr>timestamps = [], sc_last_alert_ns = None\<rparr>"

definition SLIDING_TIMESTAMPS_CAP :: nat where
  "SLIDING_TIMESTAMPS_CAP = 256"

definition sc_record :: "sliding_counter \<Rightarrow> nat \<Rightarrow> nat \<Rightarrow> sliding_counter \<times> nat" where
  "sc_record c ts w =
     (let kept = dropWhile (\<lambda>t. ts - t > w) (timestamps c) @ [ts];
          kept' = (if length kept > SLIDING_TIMESTAMPS_CAP then tl kept else kept)
      in (c\<lparr>timestamps := kept'\<rparr>, length kept'))"

fun recently :: "nat option \<Rightarrow> nat \<Rightarrow> nat \<Rightarrow> bool" where
  "recently None ts w = False"
| "recently (Some t) ts w = (ts - t \<le> w)"

definition sc_try_alert :: "sliding_counter \<Rightarrow> nat \<Rightarrow> nat \<Rightarrow> sliding_counter \<times> bool" where
  "sc_try_alert c ts w =
     (if recently (sc_last_alert_ns c) ts w then (c, False)
      else (c\<lparr>sc_last_alert_ns := Some ts\<rparr>, True))"

subsection \<open>The port dedup\<close>

type_synonym flow_port_dedup = "(nat \<times> nat) list"

definition FLOW_PORT_DEDUP_CAP :: nat where
  "FLOW_PORT_DEDUP_CAP = 256"

definition is_new :: "flow_port_dedup \<Rightarrow> nat \<Rightarrow> nat \<Rightarrow> nat \<Rightarrow> flow_port_dedup \<times> bool" where
  "is_new ports p ts w =
     (let kept = dropWhile (\<lambda>(_, t). ts - t > w) ports
      in if list_ex (\<lambda>(q, _). q = p) kept then (kept, False)
         else (let kept' = kept @ [(p, ts)]
               in ((if length kept' > FLOW_PORT_DEDUP_CAP then tl kept' else kept'), True)))"

subsection \<open>The sum\<close>

text \<open>A slot is the time of its first write, the time of its last write, and the sum.\<close>

type_synonym slot = "nat \<times> nat \<times> nat"

record sliding_sum =
  slots :: "slot list"
  running :: nat

definition sliding_sum_default :: sliding_sum where
  "sliding_sum_default = \<lparr>slots = [], running = 0\<rparr>"

definition SLIDING_SUM_CAP :: nat where
  "SLIDING_SUM_CAP = 256"

definition SLIDING_SUM_SLOT_NS :: nat where
  "SLIDING_SUM_SLOT_NS = 200000000"

fun prune_slots :: "nat \<Rightarrow> nat \<Rightarrow> slot list \<Rightarrow> nat \<Rightarrow> slot list \<times> nat" where
  "prune_slots ts w [] tot = ([], tot)"
| "prune_slots ts w ((b, e, v) # rest) tot =
     (if ts - e > w then prune_slots ts w rest (tot - v) else ((b, e, v) # rest, tot))"

definition ss_prune :: "sliding_sum \<Rightarrow> nat \<Rightarrow> nat \<Rightarrow> sliding_sum" where
  "ss_prune s ts w = (let (es, tot) = prune_slots ts w (slots s) (running s) in \<lparr>slots = es, running = tot\<rparr>)"

definition coalesce :: "nat \<Rightarrow> nat \<Rightarrow> slot list \<Rightarrow> slot list" where
  "coalesce ts v es =
     (if es = [] then [(ts, ts, v)]
      else case last es of (b, e, x) \<Rightarrow>
             (if ts - b < SLIDING_SUM_SLOT_NS then butlast es @ [(b, max ts e, sat_add x v)]
              else es @ [(ts, ts, v)]))"

definition ss_add :: "sliding_sum \<Rightarrow> nat \<Rightarrow> nat \<Rightarrow> nat \<Rightarrow> sliding_sum \<times> nat" where
  "ss_add s ts v w =
     (let s1 = ss_prune s ts w;
          es = coalesce ts v (slots s1);
          tot = sat_add (running s1) v;
          s2 = (if length es > SLIDING_SUM_CAP
                then \<lparr>slots = tl es, running = tot - snd (snd (hd es))\<rparr>
                else \<lparr>slots = es, running = tot\<rparr>)
      in (s2, running s2))"

definition ss_total :: "sliding_sum \<Rightarrow> nat \<Rightarrow> nat \<Rightarrow> sliding_sum \<times> nat" where
  "ss_total s ts w = (let s1 = ss_prune s ts w in (s1, running s1))"

subsection \<open>The distinct counter\<close>

record 'a sliding_distinct =
  seen_values :: "('a \<times> nat) list"
  sd_last_alert_ns :: "nat option"

definition sliding_distinct_default :: "'a sliding_distinct" where
  "sliding_distinct_default = \<lparr>seen_values = [], sd_last_alert_ns = None\<rparr>"

definition SLIDING_DISTINCT_CAP :: nat where
  "SLIDING_DISTINCT_CAP = 256"

definition sd_prune :: "'a sliding_distinct \<Rightarrow> nat \<Rightarrow> nat \<Rightarrow> 'a sliding_distinct" where
  "sd_prune s ts w = s\<lparr>seen_values := dropWhile (\<lambda>(_, t). ts - t > w) (seen_values s)\<rparr>"

definition sd_record :: "'a sliding_distinct \<Rightarrow> 'a \<Rightarrow> nat \<Rightarrow> nat \<Rightarrow> 'a sliding_distinct \<times> nat" where
  "sd_record s x ts w =
     (let s1 = sd_prune s ts w;
          s2 = (if list_ex (\<lambda>(v, _). v = x) (seen_values s1) then s1
                else (let es = seen_values s1 @ [(x, ts)]
                      in s1\<lparr>seen_values := (if length es > SLIDING_DISTINCT_CAP then tl es else es)\<rparr>))
      in (s2, length (seen_values s2)))"

definition sd_try_alert :: "'a sliding_distinct \<Rightarrow> nat \<Rightarrow> nat \<Rightarrow> 'a sliding_distinct \<times> bool" where
  "sd_try_alert s ts w =
     (if recently (sd_last_alert_ns s) ts w then (s, False)
      else (s\<lparr>sd_last_alert_ns := Some ts\<rparr>, True))"

subsection \<open>The counter counts exactly\<close>

definition lastn :: "nat \<Rightarrow> 'a list \<Rightarrow> 'a list" where
  "lastn n xs = drop (length xs - n) xs"

lemma lastn_all [simp]: "length xs \<le> n \<Longrightarrow> lastn n xs = xs"
  by (simp add: lastn_def)

lemma length_lastn [simp]: "length (lastn n xs) = min n (length xs)"
  by (auto simp: lastn_def)

lemma lastn_snoc [simp]: "lastn (Suc n) (xs @ [x]) = lastn n xs @ [x]"
  by (simp add: lastn_def)

lemma tl_lastn: "n < length xs \<Longrightarrow> tl (lastn (Suc n) xs) = lastn n xs"
  by (simp add: lastn_def tl_drop drop_Suc [symmetric] Suc_diff_Suc)

lemma lastn_Cons: "n \<le> length xs \<Longrightarrow> lastn n (x # xs) = lastn n xs"
  by (simp add: lastn_def Suc_diff_le)

definition in_window_count :: "nat \<Rightarrow> nat \<Rightarrow> nat list \<Rightarrow> nat" where
  "in_window_count w now h = length (filter (\<lambda>t. now - t \<le> w) h)"

lemma in_window_count_le: "in_window_count w now h \<le> length h"
  by (simp add: in_window_count_def)

lemma in_window_count_mono: "now \<le> now' \<Longrightarrow> in_window_count w now' h \<le> in_window_count w now h"
  by (induction h) (auto simp: in_window_count_def)

lemma dropWhile_id: "\<forall>t \<in> set xs. \<not> P t \<Longrightarrow> dropWhile P xs = xs"
  by (cases xs) simp_all

lemma dropWhile_lastn:
  assumes "sorted h"
  shows "dropWhile (\<lambda>t. now - t > w) (lastn n h) = lastn (min n (in_window_count w now h)) h"
  using assms
proof (induction h)
  case (Cons x h)
  have le: "in_window_count w now h \<le> length h" by (rule in_window_count_le)
  show ?case
  proof (cases "now - x \<le> w")
    case True
    then have all: "\<forall>t \<in> set (x # h). now - t \<le> w" using Cons.prems by auto
    then have "in_window_count w now (x # h) = length (x # h)" by (auto simp: in_window_count_def filter_True)
    moreover have "dropWhile (\<lambda>t. now - t > w) (lastn n (x # h)) = lastn n (x # h)"
    proof (rule dropWhile_id)
      have "set (lastn n (x # h)) \<subseteq> set (x # h)" unfolding lastn_def by (rule set_drop_subset)
      then show "\<forall>t \<in> set (lastn n (x # h)). \<not> now - t > w" using all by (meson not_less subsetD)
    qed
    ultimately show ?thesis by (cases "n \<le> length (x # h)") (simp_all add: min_def)
  next
    case False
    then have c: "in_window_count w now (x # h) = in_window_count w now h" by (simp add: in_window_count_def)
    show ?thesis
    proof (cases "n \<le> length h")
      case True
      then show ?thesis using Cons le by (simp add: c lastn_Cons)
    next
      case n: False
      then have "dropWhile (\<lambda>t. now - t > w) (lastn n (x # h)) = dropWhile (\<lambda>t. now - t > w) (lastn n h)"
        using False by simp
      then show ?thesis using Cons n le by (simp add: c lastn_Cons)
    qed
  qed
qed (simp add: lastn_def)

definition sc_feed :: "nat \<Rightarrow> nat list \<Rightarrow> sliding_counter" where
  "sc_feed w h = fold (\<lambda>ts c. fst (sc_record c ts w)) h sliding_counter_default"

lemma sc_record_lastn:
  assumes "sorted (h @ [ts])" "timestamps c = lastn n h" "in_window_count w ts h \<le> n \<or> n = SLIDING_TIMESTAMPS_CAP"
    "n \<le> SLIDING_TIMESTAMPS_CAP"
  shows "timestamps (fst (sc_record c ts w)) =
    lastn (min SLIDING_TIMESTAMPS_CAP (in_window_count w ts (h @ [ts]))) (h @ [ts])"
proof -
  let ?k = "in_window_count w ts h"
  have "sorted h" using assms(1) by (simp add: sorted_append)
  then have kept: "dropWhile (\<lambda>t. ts - t > w) (timestamps c) @ [ts] = lastn (Suc (min n ?k)) (h @ [ts])"
    by (simp add: assms(2) dropWhile_lastn)
  have k: "in_window_count w ts (h @ [ts]) = Suc ?k" "?k \<le> length h"
    by (simp_all add: in_window_count_def)
  show ?thesis
  proof (cases "?k < SLIDING_TIMESTAMPS_CAP")
    case True
    then have "min n ?k = ?k" using assms(3,4) by auto
    moreover have "min SLIDING_TIMESTAMPS_CAP (Suc ?k) = Suc ?k" using True by simp
    ultimately show ?thesis using True k by (simp add: sc_record_def kept Let_def del: lastn_snoc)
  next
    case False
    then have n: "min n ?k = SLIDING_TIMESTAMPS_CAP" using assms(3,4) by auto
    then show ?thesis
      using False k tl_lastn [of SLIDING_TIMESTAMPS_CAP "h @ [ts]"]
      by (simp add: sc_record_def kept Let_def min_def del: lastn_snoc)
  qed
qed

lemma sc_feed_timestamps:
  "sorted (h @ [ts]) \<Longrightarrow> timestamps (sc_feed w (h @ [ts])) =
     lastn (min SLIDING_TIMESTAMPS_CAP (in_window_count w ts (h @ [ts]))) (h @ [ts])"
proof (induction h arbitrary: ts rule: rev_induct)
  case Nil
  show ?case
    by (simp add: sc_feed_def sc_record_def sliding_counter_default_def SLIDING_TIMESTAMPS_CAP_def
        in_window_count_def Let_def)
next
  case (snoc t h)
  have s: "sorted (h @ [t])" "t \<le> ts" using snoc.prems by (auto simp: sorted_append)
  have "in_window_count w ts (h @ [t]) \<le> in_window_count w t (h @ [t])"
    using s(2) by (rule in_window_count_mono)
  then have "timestamps (fst (sc_record (sc_feed w (h @ [t])) ts w)) =
      lastn (min SLIDING_TIMESTAMPS_CAP (in_window_count w ts ((h @ [t]) @ [ts]))) ((h @ [t]) @ [ts])"
    by (intro sc_record_lastn [OF snoc.prems snoc.IH [OF s(1)]]) auto
  then show ?case by (simp add: sc_feed_def)
qed

subsection \<open>The sum and its slots\<close>

text \<open>
  A slot is a group of consecutive writes \<open>(time, bytes)\<close>. The relation below says that the
  state is the history cut into an expired part and groups.
\<close>

type_synonym timed_write = "nat \<times> nat"

definition bytes :: "timed_write list \<Rightarrow> nat" where
  "bytes ws = sum_list (map snd ws)"

lemma bytes_simps [simp]: "bytes [] = 0" "bytes (x # ws) = snd x + bytes ws" "bytes (a @ b) = bytes a + bytes b"
  by (simp_all add: bytes_def)

lemma bytes_filter_le: "bytes (filter P ws) \<le> bytes ws"
  by (induction ws) auto

definition slot_of :: "timed_write list \<Rightarrow> slot" where
  "slot_of g = (fst (hd g), fst (last g), bytes g)"

definition group_ok :: "timed_write list \<Rightarrow> bool" where
  "group_ok g \<longleftrightarrow> g \<noteq> [] \<and> fst (last g) < fst (hd g) + SLIDING_SUM_SLOT_NS"

abbreviation apart :: "timed_write list \<Rightarrow> timed_write list \<Rightarrow> bool" where
  "apart g h \<equiv> fst (hd g) + SLIDING_SUM_SLOT_NS \<le> fst (hd h)"

definition sum_rel :: "nat \<Rightarrow> nat \<Rightarrow> timed_write list \<Rightarrow> sliding_sum \<Rightarrow> timed_write list \<Rightarrow> timed_write list list \<Rightarrow> bool" where
  "sum_rel w now hist s old gs \<longleftrightarrow>
     hist = old @ concat gs \<and> slots s = map slot_of gs \<and> running s = bytes (concat gs) \<and>
     list_all group_ok gs \<and> sorted_wrt apart gs \<and> (\<forall>x \<in> set old. now - fst x > w)"

lemma sorted_fst_le_last: "sorted (map fst (g :: timed_write list)) \<Longrightarrow> x \<in> set g \<Longrightarrow> fst x \<le> fst (last g)"
  by (induction g rule: rev_induct) (auto simp: sorted_append)

lemma prune_slots_groups:
  "sorted (map fst (old @ concat gs)) \<Longrightarrow> list_all group_ok gs \<Longrightarrow> sorted_wrt apart gs \<Longrightarrow>
   \<forall>x \<in> set old. ts - fst x > w \<Longrightarrow> tot = bytes (concat gs) \<Longrightarrow>
   \<exists>old' gs'. prune_slots ts w (map slot_of gs) tot = (map slot_of gs', bytes (concat gs')) \<and>
     old @ concat gs = old' @ concat gs' \<and> list_all group_ok gs' \<and> sorted_wrt apart gs' \<and>
     (\<forall>x \<in> set old'. ts - fst x > w) \<and> (gs' = [] \<or> ts - fst (last (hd gs')) \<le> w)"
proof (induction gs arbitrary: old tot)
  case Nil
  then show ?case by (intro exI [of _ old] exI [of _ "[]"]) simp
next
  case (Cons g gs)
  show ?case
  proof (cases "ts - fst (last g) > w")
    case True
    have "sorted (map fst g)" using Cons.prems(1) by (simp add: sorted_append)
    then have "fst x \<le> fst (last g)" if "x \<in> set g" for x
      using that by (rule sorted_fst_le_last)
    then have old: "\<forall>x \<in> set (old @ g). ts - fst x > w"
      using Cons.prems(4) True by (auto intro: less_le_trans [OF True diff_le_mono2])
    have "prune_slots ts w (map slot_of (g # gs)) tot = prune_slots ts w (map slot_of gs) (bytes (concat gs))"
      using True Cons.prems(5) by (simp add: slot_of_def)
    then show ?thesis
      using Cons.IH [of "old @ g" "bytes (concat gs)"] Cons.prems(1-3) old by simp
  next
    case False
    then show ?thesis
      using Cons.prems
      by (intro exI [of _ old] exI [of _ "g # gs"]) (auto simp: slot_of_def)
  qed
qed

definition add_group :: "timed_write \<Rightarrow> timed_write list list \<Rightarrow> timed_write list list" where
  "add_group x gs =
     (if gs = [] then [[x]]
      else if fst x - fst (hd (last gs)) < SLIDING_SUM_SLOT_NS then butlast gs @ [last gs @ [x]]
      else gs @ [[x]])"

lemma concat_add_group [simp]: "concat (add_group x gs) = concat gs @ [x]"
  by (cases gs rule: rev_cases) (simp_all add: add_group_def)

lemma add_group_not_Nil [simp]: "add_group x gs \<noteq> []"
  by (simp add: add_group_def)

lemma coalesce_groups:
  assumes "list_all group_ok gs" "sorted (map fst (concat gs @ [(ts, v)]))" "bytes (concat gs @ [(ts, v)]) \<le> u64_max"
  shows "coalesce ts v (map slot_of gs) = map slot_of (add_group (ts, v) gs)"
proof (cases gs rule: rev_cases)
  case Nil
  then show ?thesis by (simp add: coalesce_def add_group_def slot_of_def)
next
  case (snoc hs g)
  have g: "g \<noteq> []" using assms(1) snoc by (simp add: group_ok_def)
  have "fst (last g) \<le> ts" using assms(2) snoc g by (auto simp: sorted_append)
  moreover have "bytes g + v \<le> u64_max" using assms(3) snoc by simp
  ultimately show ?thesis
    using snoc g by (simp add: coalesce_def add_group_def slot_of_def sat_add_exact max_def)
qed

lemma add_group_ok:
  assumes "list_all group_ok gs" "sorted_wrt apart gs" "sorted (map fst (concat gs @ [(ts, v)]))"
  shows "list_all group_ok (add_group (ts, v) gs)" and "sorted_wrt apart (add_group (ts, v) gs)"
proof -
  have pos: "0 < SLIDING_SUM_SLOT_NS" by (simp add: SLIDING_SUM_SLOT_NS_def)
  show "list_all group_ok (add_group (ts, v) gs)"
    using assms pos by (cases gs rule: rev_cases) (auto simp: add_group_def group_ok_def)
  have le: "fst (hd g) + SLIDING_SUM_SLOT_NS \<le> ts"
    if "gs = hs @ [h]" "g \<in> set gs" "\<not> ts - fst (hd h) < SLIDING_SUM_SLOT_NS" for g h hs
  proof -
    have "fst (hd g) \<le> fst (hd h)" using assms(2) that by (auto simp: sorted_wrt_append)
    then show ?thesis using that(3) pos by linarith
  qed
  show "sorted_wrt apart (add_group (ts, v) gs)"
  proof (cases gs rule: rev_cases)
    case (snoc hs h)
    have "h \<noteq> []" using assms(1) snoc by (simp add: group_ok_def)
    then show ?thesis
      using assms(2) snoc le [OF snoc] by (simp add: add_group_def sorted_wrt_append)
  qed (simp add: add_group_def)
qed

lemma last_hd_add_group:
  assumes "list_all group_ok gs" "sorted (map fst (concat gs @ [(ts, v)]))" "gs = [] \<or> ts - fst (last (hd gs)) \<le> w"
  shows "ts - fst (last (hd (add_group (ts, v) gs))) \<le> w"
proof (cases gs)
  case (Cons g hs)
  then show ?thesis using assms(3) by (cases hs rule: rev_cases) (auto simp: add_group_def)
qed (simp add: add_group_def)

lemma apart_length:
  "sorted_wrt apart gs \<Longrightarrow> gs \<noteq> [] \<Longrightarrow>
   fst (hd (hd gs)) + (length gs - 1) * SLIDING_SUM_SLOT_NS \<le> fst (hd (last gs))"
proof (induction gs)
  case (Cons g gs)
  then show ?case
  proof (cases gs)
    case (Cons h hs)
    have "fst (hd h) + length hs * SLIDING_SUM_SLOT_NS \<le> fst (hd (last gs))"
      using Cons.IH Cons.prems Cons by simp
    moreover have "fst (hd g) + SLIDING_SUM_SLOT_NS \<le> fst (hd h)" using Cons.prems Cons by simp
    ultimately show ?thesis using Cons by simp
  qed simp
qed simp

text \<open>The documented bound on the number of slots, corrected: two slots more than whole slots fit.\<close>

lemma groups_bound:
  assumes ok: "list_all group_ok gs" and ap: "sorted_wrt apart gs" and ne: "gs \<noteq> []"
    and win: "ts - fst (last (hd gs)) \<le> w" and last: "fst (hd (last gs)) \<le> ts"
  shows "length gs \<le> (w - 1) div SLIDING_SUM_SLOT_NS + 2"
proof (cases gs)
  case (Cons g hs)
  show ?thesis
  proof (cases "hs = []")
    case False
    let ?b = "fst (hd (hd hs))"
    have b: "fst (last g) < ?b"
      using ok ap Cons False by (cases hs) (auto simp: group_ok_def)
    have "?b + (length hs - 1) * SLIDING_SUM_SLOT_NS \<le> ts"
      using apart_length [of hs] ap last Cons False by simp
    then have "(length hs - 1) * SLIDING_SUM_SLOT_NS \<le> w - 1"
      using b win Cons by simp
    then have "length hs - 1 \<le> (w - 1) div SLIDING_SUM_SLOT_NS"
      by (simp add: SLIDING_SUM_SLOT_NS_def less_eq_div_iff_mult_less_eq)
    then show ?thesis using Cons by simp
  qed (use Cons in simp)
qed (use ne in simp)

lemma ss_add_rel:
  assumes rel: "sum_rel w now hist s old gs" and now: "now \<le> ts"
    and sorted: "sorted (map fst (hist @ [(ts, v)]))" and fits: "bytes (hist @ [(ts, v)]) \<le> u64_max"
    and cap: "(w - 1) div SLIDING_SUM_SLOT_NS + 2 \<le> SLIDING_SUM_CAP"
  obtains old' gs' where "sum_rel w ts (hist @ [(ts, v)]) (fst (ss_add s ts v w)) old' gs'" "gs' \<noteq> []"
    "ts - fst (last (hd gs')) \<le> w" "length gs' \<le> (w - 1) div SLIDING_SUM_SLOT_NS + 2"
    "snd (ss_add s ts v w) = running (fst (ss_add s ts v w))"
proof -
  have old: "\<forall>x \<in> set old. ts - fst x > w"
  proof
    fix x assume "x \<in> set old"
    then have "now - fst x > w" using rel by (auto simp: sum_rel_def)
    then show "ts - fst x > w" using diff_le_mono [OF now, of "fst x"] by linarith
  qed
  have r: "hist = old @ concat gs" "slots s = map slot_of gs" "running s = bytes (concat gs)"
    "list_all group_ok gs" "sorted_wrt apart gs"
    using rel by (simp_all add: sum_rel_def)
  have sh: "sorted (map fst (old @ concat gs))" using sorted r(1) by (simp add: sorted_append)
  obtain old' hs where p: "prune_slots ts w (slots s) (running s) = (map slot_of hs, bytes (concat hs))"
    "hist = old' @ concat hs" "list_all group_ok hs" "sorted_wrt apart hs"
    "\<forall>x \<in> set old'. ts - fst x > w" "hs = [] \<or> ts - fst (last (hd hs)) \<le> w"
    using prune_slots_groups [OF sh r(4,5) old r(3)] r(1,2,3) by auto
  let ?gs = "add_group (ts, v) hs"
  have sc: "sorted (map fst (concat hs @ [(ts, v)]))" using sorted p(2) by (simp add: sorted_append)
  have fc: "bytes (concat hs @ [(ts, v)]) \<le> u64_max" using fits p(2) by simp
  note ok = add_group_ok [OF p(3,4) sc]
  have win: "ts - fst (last (hd ?gs)) \<le> w" by (rule last_hd_add_group [OF p(3) sc p(6)])
  have "fst (hd (last ?gs)) \<le> ts"
  proof -
    have "last ?gs \<noteq> []" "last ?gs \<in> set ?gs" using ok(1) by (auto simp: list_all_iff group_ok_def)
    then have "hd (last ?gs) \<in> set (concat ?gs)"
      unfolding set_concat by (meson UN_I hd_in_set)
    then show ?thesis using sc by (auto simp: sorted_append)
  qed
  then have len: "length ?gs \<le> (w - 1) div SLIDING_SUM_SLOT_NS + 2"
    by (rule groups_bound [OF ok add_group_not_Nil win])
  have add: "ss_add s ts v w = (\<lparr>slots = map slot_of ?gs, running = bytes (concat ?gs)\<rparr>, bytes (concat ?gs))"
    using len cap fc coalesce_groups [OF p(3) sc fc]
    by (simp add: ss_add_def ss_prune_def p(1) Let_def sat_add_exact)
  have "sum_rel w ts (hist @ [(ts, v)]) (fst (ss_add s ts v w)) old' ?gs"
    using p(2,5) ok by (simp add: sum_rel_def add)
  then show ?thesis using that [of old' ?gs] win len by (simp add: add)
qed

definition ss_feed :: "nat \<Rightarrow> timed_write list \<Rightarrow> sliding_sum" where
  "ss_feed w hist = fold (\<lambda>(ts, v) s. fst (ss_add s ts v w)) hist sliding_sum_default"

lemma ss_feed_rel:
  assumes cap: "(w - 1) div SLIDING_SUM_SLOT_NS + 2 \<le> SLIDING_SUM_CAP"
  shows "sorted (map fst hist) \<Longrightarrow> bytes hist \<le> u64_max \<Longrightarrow>
    \<exists>now old gs. sum_rel w now hist (ss_feed w hist) old gs \<and> (hist \<noteq> [] \<longrightarrow> now = fst (last hist)) \<and> (hist = [] \<longrightarrow> now = 0)"
proof (induction hist rule: rev_induct)
  case Nil
  show ?case
    by (rule exI [of _ 0], rule exI [of _ "[]"], rule exI [of _ "[]"])
       (simp add: sum_rel_def ss_feed_def sliding_sum_default_def)
next
  case (snoc x hist)
  obtain ts v where x: "x = (ts, v)" by (cases x)
  have "sorted (map fst hist)" "bytes hist \<le> u64_max" using snoc.prems by (simp_all add: sorted_append)
  then obtain now old gs where r: "sum_rel w now hist (ss_feed w hist) old gs"
    "hist \<noteq> [] \<longrightarrow> now = fst (last hist)" "hist = [] \<longrightarrow> now = 0"
    using snoc.IH by blast
  have "now \<le> ts" using r(2,3) snoc.prems(1) x by (cases "hist = []") (auto simp: sorted_append)
  then obtain old' gs' where "sum_rel w ts (hist @ [(ts, v)]) (fst (ss_add (ss_feed w hist) ts v w)) old' gs'"
    using ss_add_rel [OF r(1) _ snoc.prems [unfolded x] cap] by metis
  then show ?case using x by (auto simp: ss_feed_def)
qed

subsection \<open>Properties\<close>

text \<open>
  C27: For events in time order the sliding counter returns exactly the number of events, the new one
  included, that are no older than the window, capped at 256.
\<close>

theorem sliding_counter_exact:
  assumes "sorted (h @ [ts])"
  shows "snd (sc_record (sc_feed w h) ts w) =
    min SLIDING_TIMESTAMPS_CAP (length (filter (\<lambda>t. ts - t \<le> w) (h @ [ts])))"
proof -
  let ?c = "fst (sc_record (sc_feed w h) ts w)"
  have "snd (sc_record (sc_feed w h) ts w) = length (timestamps ?c)"
    by (simp add: sc_record_def Let_def)
  also have "timestamps ?c = timestamps (sc_feed w (h @ [ts]))"
    by (simp add: sc_feed_def)
  also have "length \<dots> = min SLIDING_TIMESTAMPS_CAP (in_window_count w ts (h @ [ts]))"
    unfolding sc_feed_timestamps [OF assms] length_lastn
    using in_window_count_le [of w ts "h @ [ts]"] by linarith
  finally show ?thesis by (simp add: in_window_count_def)
qed

theorem sliding_counter_exact_witness:
  "snd (sc_record (sc_feed 30 [0, 29]) 31 30) = 2"
  using sliding_counter_exact [of "[0, 29]" 31 30] by (simp add: SLIDING_TIMESTAMPS_CAP_def)

text \<open>Alerts of a series of attempts, in order.\<close>

fun alerts_of :: "nat \<Rightarrow> sliding_counter \<Rightarrow> nat list \<Rightarrow> nat list" where
  "alerts_of w c [] = []"
| "alerts_of w c (ts # rest) =
     (case sc_try_alert c ts w of (c', fired) \<Rightarrow> (if fired then ts # alerts_of w c' rest else alerts_of w c' rest))"

lemma alerts_after:
  "sc_last_alert_ns c = Some t \<Longrightarrow> sorted_wrt (\<lambda>a b. a + w < b) (t # alerts_of w c tss)"
proof (induction tss arbitrary: c t)
  case (Cons ts tss)
  show ?case
  proof (cases "ts - t \<le> w")
    case True
    then show ?thesis using Cons by (simp add: sc_try_alert_def)
  next
    case False
    then have "sorted_wrt (\<lambda>a b. a + w < b) (ts # alerts_of w (c\<lparr>sc_last_alert_ns := Some ts\<rparr>) tss)"
      by (intro Cons.IH) simp
    then show ?thesis using False Cons.prems by (auto simp: sc_try_alert_def)
  qed
qed simp

text \<open>
  One alert per window: whatever the order of the timestamps, any two alerts of a fresh counter
  are more than the window apart.
\<close>

theorem one_alert_per_window:
  "sorted_wrt (\<lambda>a b. a + w < b) (alerts_of w sliding_counter_default tss)"
proof (cases tss)
  case (Cons ts rest)
  then show ?thesis
    using alerts_after [of "sliding_counter_default\<lparr>sc_last_alert_ns := Some ts\<rparr>" ts w rest]
    by (simp add: sc_try_alert_def sliding_counter_default_def)
qed simp

text \<open>
  For writes in time order whose volume fits 64 bits and a window of at most 254 slots, the
  sliding sum never undercounts the window and overcounts it by less than one slot: the total is
  at least the volume of the window and at most the volume of the window extended by one slot.
  The number of slots stays two above the number of whole slots in the window.
\<close>

theorem sliding_sum_bounds:
  assumes sorted: "sorted (map fst (hist @ [(ts, v)]))" and fits: "bytes (hist @ [(ts, v)]) \<le> u64_max"
    and cap: "(w - 1) div SLIDING_SUM_SLOT_NS + 2 \<le> SLIDING_SUM_CAP"
  shows "bytes (filter (\<lambda>x. ts - fst x \<le> w) (hist @ [(ts, v)])) \<le> snd (ss_add (ss_feed w hist) ts v w) \<and>
    snd (ss_add (ss_feed w hist) ts v w) \<le>
      bytes (filter (\<lambda>x. ts - fst x < w + SLIDING_SUM_SLOT_NS) (hist @ [(ts, v)])) \<and>
    length (slots (fst (ss_add (ss_feed w hist) ts v w))) \<le> (w - 1) div SLIDING_SUM_SLOT_NS + 2"
proof -
  have "sorted (map fst hist)" "bytes hist \<le> u64_max" using sorted fits by (simp_all add: sorted_append)
  then obtain now old gs where r: "sum_rel w now hist (ss_feed w hist) old gs"
    "hist \<noteq> [] \<longrightarrow> now = fst (last hist)" "hist = [] \<longrightarrow> now = 0"
    using ss_feed_rel [OF cap] by blast
  have "now \<le> ts" using r(2,3) sorted by (cases "hist = []") (auto simp: sorted_append)
  then obtain old' gs' where p: "sum_rel w ts (hist @ [(ts, v)]) (fst (ss_add (ss_feed w hist) ts v w)) old' gs'" "gs' \<noteq> []"
    "ts - fst (last (hd gs')) \<le> w" "length gs' \<le> (w - 1) div SLIDING_SUM_SLOT_NS + 2"
    "snd (ss_add (ss_feed w hist) ts v w) = running (fst (ss_add (ss_feed w hist) ts v w))"
    using ss_add_rel [OF r(1) _ sorted fits cap] by blast
  have h: "hist @ [(ts, v)] = old' @ concat gs'" "snd (ss_add (ss_feed w hist) ts v w) = bytes (concat gs')"
    "list_all group_ok gs'" "\<forall>x \<in> set old'. ts - fst x > w"
    "length (slots (fst (ss_add (ss_feed w hist) ts v w))) = length gs'"
    using p(1,5) by (simp_all add: sum_rel_def)
  have "filter (\<lambda>x. ts - fst x \<le> w) old' = []" using h(4) by (auto simp: filter_empty_conv not_le)
  then have lower: "bytes (filter (\<lambda>x. ts - fst x \<le> w) (old' @ concat gs')) \<le> bytes (concat gs')"
    by (simp add: bytes_filter_le)
  have "ts - fst x < w + SLIDING_SUM_SLOT_NS" if "x \<in> set (concat gs')" for x
  proof -
    obtain g hs where g: "gs' = g # hs" using p(2) by (cases gs') auto
    have ok: "g \<noteq> []" "fst (last g) < fst (hd g) + SLIDING_SUM_SLOT_NS"
      using h(3) g by (simp_all add: group_ok_def)
    have "sorted (map fst (concat gs'))" using sorted h(1) by (simp add: sorted_append)
    then have "fst (hd g) \<le> fst x" using that g ok(1) by (cases g) (auto simp: sorted_append)
    moreover have "ts - fst (last g) \<le> w" using p(3) g by simp
    moreover have "0 < SLIDING_SUM_SLOT_NS" by (simp add: SLIDING_SUM_SLOT_NS_def)
    ultimately show ?thesis using ok(2) by linarith
  qed
  then have "filter (\<lambda>x. ts - fst x < w + SLIDING_SUM_SLOT_NS) (concat gs') = concat gs'"
    by (intro filter_True) blast
  then have "bytes (concat gs') \<le> bytes (filter (\<lambda>x. ts - fst x < w + SLIDING_SUM_SLOT_NS) (old' @ concat gs'))"
    by simp
  then show ?thesis using lower p(4) h by simp
qed

theorem sliding_sum_bounds_witness:
  "10 + 7 \<le> snd (ss_add (ss_feed 1000000000 [(0, 5), (500000000, 10)]) 1200000000 7 1000000000)"
  using sliding_sum_bounds [of "[(0, 5), (500000000, 10)]" 1200000000 7 1000000000]
  by (simp add: SLIDING_SUM_SLOT_NS_def SLIDING_SUM_CAP_def u64_max_def)

text \<open>The number of slots documented for the five-second window, 25, is exceeded by one.\<close>

lemma slots_exceed_documented_bound:
  "length (slots (ss_feed (25 * SLIDING_SUM_SLOT_NS)
     ((0, 1) # (SLIDING_SUM_SLOT_NS - 1, 1) # map (\<lambda>i. (i * SLIDING_SUM_SLOT_NS, 1)) [1..<26]))) = 26"
  by (simp add: ss_feed_def ss_add_def ss_prune_def coalesce_def sliding_sum_default_def SLIDING_SUM_SLOT_NS_def
      SLIDING_SUM_CAP_def sat_add_def u64_max_def upt_rec Let_def)

subsection \<open>Distinct values\<close>

definition sd_feed :: "nat \<Rightarrow> ('a \<times> nat) list \<Rightarrow> 'a sliding_distinct" where
  "sd_feed w hist = fold (\<lambda>(x, ts) s. fst (sd_record s x ts w)) hist sliding_distinct_default"

definition entries_fine :: "nat \<Rightarrow> nat \<Rightarrow> ('a \<times> nat) list \<Rightarrow> ('a \<times> nat) list \<Rightarrow> bool" where
  "entries_fine w now hist es \<longleftrightarrow>
     distinct (map fst es) \<and> sorted (map snd es) \<and>
     (\<forall>e \<in> set es. now - snd e \<le> w \<and> snd e \<le> now \<and> e \<in> set hist)"

definition distinct_ok :: "nat \<Rightarrow> nat \<Rightarrow> ('a \<times> nat) list \<Rightarrow> ('a \<times> nat) list \<Rightarrow> bool" where
  "distinct_ok w now hist es \<longleftrightarrow> entries_fine w now hist es \<and> length es \<le> SLIDING_DISTINCT_CAP"

lemma entries_fine_tl: "entries_fine w now hist es \<Longrightarrow> entries_fine w now hist (tl es)"
  by (cases es) (simp_all add: entries_fine_def)

lemma entries_fine_prune:
  assumes "entries_fine w now hist es" "now \<le> ts"
  shows "entries_fine w ts hist (filter (\<lambda>e. ts - snd e \<le> w) es)"
  using assms by (auto simp: entries_fine_def distinct_map_filter sorted_filter intro: order_trans)

lemma entries_fine_push:
  assumes "entries_fine w ts hist es" "x \<notin> fst ` set es"
  shows "entries_fine w ts (hist @ [(x, ts)]) (es @ [(x, ts)])"
  using assms by (auto simp: entries_fine_def sorted_append)

lemma entries_fine_more: "entries_fine w ts hist es \<Longrightarrow> entries_fine w ts (hist @ [y]) es"
  by (simp add: entries_fine_def)

lemma dropWhile_expired:
  assumes "sorted (map snd (es :: ('a \<times> nat) list))"
  shows "dropWhile (\<lambda>(_, t). ts - t > w) es = filter (\<lambda>e. ts - snd e \<le> w) es"
  using assms
proof (induction es)
  case (Cons e es)
  show ?case
  proof (cases "ts - snd e \<le> w")
    case True
    have "\<forall>x \<in> set es. snd e \<le> snd x" using Cons.prems by simp
    then have "\<forall>x \<in> set es. ts - snd x \<le> w"
      using True by (metis diff_le_mono2 le_trans)
    then show ?thesis using True by (simp add: case_prod_beta filter_True not_less)
  next
    case False
    then show ?thesis using Cons by (simp add: case_prod_beta)
  qed
qed simp

lemma sd_record_ok:
  assumes ok: "distinct_ok w now hist (seen_values s)" and now: "now \<le> ts"
  shows "distinct_ok w ts (hist @ [(x, ts)]) (seen_values (fst (sd_record s x ts w)))"
    and "\<exists>t. (x, t) \<in> set (seen_values (fst (sd_record s x ts w)))"
proof -
  define kept where "kept = filter (\<lambda>e. ts - snd e \<le> w) (seen_values s)"
  have pruned: "seen_values (sd_prune s ts w) = kept"
    using ok by (simp add: sd_prune_def kept_def dropWhile_expired distinct_ok_def entries_fine_def)
  have fine: "entries_fine w ts hist kept"
    unfolding kept_def by (rule entries_fine_prune [OF _ now]) (use ok in \<open>simp add: distinct_ok_def\<close>)
  have len: "length kept \<le> SLIDING_DISTINCT_CAP"
    unfolding kept_def by (rule order_trans [OF length_filter_le]) (use ok in \<open>simp add: distinct_ok_def\<close>)
  show "distinct_ok w ts (hist @ [(x, ts)]) (seen_values (fst (sd_record s x ts w)))"
  proof (cases "list_ex (\<lambda>(v, _). v = x) kept")
    case True
    then show ?thesis
      using fine len by (simp add: sd_record_def pruned Let_def distinct_ok_def entries_fine_more)
  next
    case False
    then have "entries_fine w ts (hist @ [(x, ts)]) (kept @ [(x, ts)])"
      by (intro entries_fine_push [OF fine]) (auto simp: list_ex_iff)
    then show ?thesis
      using False len entries_fine_tl by (auto simp: sd_record_def pruned Let_def distinct_ok_def)
  qed
  show "\<exists>t. (x, t) \<in> set (seen_values (fst (sd_record s x ts w)))"
  proof (cases "list_ex (\<lambda>(v, _). v = x) kept")
    case True
    then show ?thesis by (auto simp: sd_record_def pruned Let_def list_ex_iff)
  next
    case False
    have "(x, ts) \<in> set (tl (kept @ [(x, ts)]))" if "length kept \<ge> SLIDING_DISTINCT_CAP"
      using that by (cases kept) (auto simp: SLIDING_DISTINCT_CAP_def)
    then show ?thesis using False by (auto simp: sd_record_def pruned Let_def)
  qed
qed

lemma sd_feed_ok:
  "sorted (map snd hist) \<Longrightarrow> distinct_ok w (if hist = [] then 0 else snd (last hist)) hist (seen_values (sd_feed w hist))"
proof (induction hist rule: rev_induct)
  case (snoc y hist)
  obtain x ts where y: "y = (x, ts)" by (cases y)
  have "(if hist = [] then 0 else snd (last hist)) \<le> ts"
    using snoc.prems y by (auto simp: sorted_append)
  then show ?case
    using sd_record_ok(1) [of w _ hist "sd_feed w hist" ts x] snoc y
    by (simp add: sd_feed_def sorted_append)
qed (simp add: distinct_ok_def entries_fine_def sd_feed_def sliding_distinct_default_def)

text \<open>
  For values in time order the distinct counter returns the number of entries it keeps, which
  are distinct values of the history, the new one among them, none older than the window, at most
  256.
\<close>

theorem sliding_distinct_counts:
  assumes "sorted (map snd (hist @ [(x, ts)]))"
  shows "\<exists>s' n. sd_record (sd_feed w hist) x ts w = (s', n) \<and>
    n = length (seen_values s') \<and> n \<le> 256 \<and> distinct (map fst (seen_values s')) \<and>
    x \<in> fst ` set (seen_values s') \<and>
    (\<forall>(v, t) \<in> set (seen_values s'). ts - t \<le> w \<and> (v, t) \<in> set (hist @ [(x, ts)]))"
proof -
  have s: "sorted (map snd hist)" "(if hist = [] then 0 else snd (last hist)) \<le> ts"
    using assms by (auto simp: sorted_append)
  let ?s' = "fst (sd_record (sd_feed w hist) x ts w)"
  have "distinct_ok w ts (hist @ [(x, ts)]) (seen_values ?s')" "\<exists>t. (x, t) \<in> set (seen_values ?s')"
    by (rule sd_record_ok [OF sd_feed_ok [OF s(1)] s(2)])+
  moreover have "sd_record (sd_feed w hist) x ts w = (?s', length (seen_values ?s'))"
    by (simp add: sd_record_def Let_def)
  ultimately show ?thesis
    by (intro exI [of _ ?s'] exI [of _ "length (seen_values ?s')"])
       (force simp: distinct_ok_def entries_fine_def SLIDING_DISTINCT_CAP_def)
qed

theorem sliding_distinct_counts_witness:
  "\<exists>s' n. sd_record (sd_feed 10 [(4 :: nat, 1), (5, 3), (4, 9)]) 6 12 10 = (s', n) \<and> n = length (seen_values s') \<and>
    distinct (map fst (seen_values s')) \<and> 6 \<in> fst ` set (seen_values s')"
  using sliding_distinct_counts [of "[(4 :: nat, 1), (5, 3), (4, 9)]" 6 12 10] by auto

lemma is_new_sd_record:
  "is_new (seen_values s) p ts w =
     (seen_values (fst (sd_record s p ts w)), p \<notin> fst ` set (seen_values (sd_prune s ts w)))"
proof -
  have "list_ex (\<lambda>(q, _). q = p) es \<longleftrightarrow> p \<in> fst ` set es" for es :: "(nat \<times> nat) list"
    by (induction es) auto
  then show ?thesis
    by (simp add: is_new_def sd_record_def sd_prune_def Let_def FLOW_PORT_DEDUP_CAP_def SLIDING_DISTINCT_CAP_def)
qed

end
