(* ===== verification/Events.thy ===== *)
theory Events
  imports Schema "HOL-Library.Word"
begin

text \<open>
  The event model of \<open>crates/schema/src/lib.rs\<close>: one record per event struct, field by field
  and in the order of the source (a field name carries the struct's name as a prefix), the
  enumerations, the \<open>Event\<close> sum and its accessor \<open>meta\<close>. Flag words are 32-bit words, all
  other integers are numbers; an IPv6 address is its eight 16-bit segments.
\<close>

unbundle bit_operations_syntax

subsection \<open>Addresses\<close>

datatype ip_addr =
    V4 nat nat nat nat
  | V6 "16 word" "16 word" "16 word" "16 word" "16 word" "16 word" "16 word" "16 word"

fun is_unspecified :: "ip_addr \<Rightarrow> bool" where
  "is_unspecified (V4 a b c d) = (a = 0 \<and> b = 0 \<and> c = 0 \<and> d = 0)"
| "is_unspecified (V6 a b c d e f g h) =
     (a = 0 \<and> b = 0 \<and> c = 0 \<and> d = 0 \<and> e = 0 \<and> f = 0 \<and> g = 0 \<and> h = 0)"

subsection \<open>Event structs\<close>

datatype user = Unix nat nat | Windows string "nat option" | Unknown_User

record container_context =
  container_id :: string
  container_image :: "string option"
  container_name :: "string option"

record event_meta =
  m_pid :: nat
  m_ppid :: nat
  m_user :: user
  m_timestamp_ns :: nat
  m_comm :: string
  m_container :: "container_context option"
  process_generation :: "nat option"
  parent_process_generation :: "nat option"

datatype signature = Valid | Invalid | Unsigned | Unsupported

record exec_event =
  exec_meta :: event_meta
  exec_image_path :: string
  exec_cmdline :: string
  exec_argv :: "string list"
  exec_parent_comm :: "string option"
  exec_parent_image_path :: "string option"
  exec_sha256 :: "string option"
  exec_signature :: "signature option"
  exec_env_security :: "(string \<times> string) list"

record file_open_event =
  file_open_meta :: event_meta
  file_open_path :: string
  file_open_flags :: "32 word"

record file_write_event =
  file_write_meta :: event_meta
  file_write_fd :: nat
  file_write_bytes_requested :: nat

record file_delete_event =
  file_delete_meta :: event_meta
  file_delete_path :: string

record file_rename_event =
  file_rename_meta :: event_meta
  file_rename_old_path :: string
  file_rename_new_path :: string
  file_rename_executable_path :: "string option"

record file_chmod_event =
  file_chmod_meta :: event_meta
  file_chmod_path :: string
  file_chmod_mode :: "32 word"

record file_chown_event =
  file_chown_meta :: event_meta
  file_chown_path :: string
  file_chown_uid :: nat
  file_chown_gid :: nat

record file_setxattr_event =
  file_setxattr_meta :: event_meta
  file_setxattr_path :: string
  file_setxattr_name :: string

record file_removexattr_event =
  file_removexattr_meta :: event_meta
  file_removexattr_path :: string
  file_removexattr_name :: string

record socket_bind_event =
  socket_bind_meta :: event_meta
  socket_bind_local_addr :: ip_addr
  socket_bind_local_port :: nat

record socket_listen_event =
  socket_listen_meta :: event_meta
  socket_listen_local_addr :: "ip_addr option"
  socket_listen_local_port :: "nat option"
  socket_listen_backlog :: nat

record socket_accept_event =
  socket_accept_meta :: event_meta
  socket_accept_listen_fd :: nat
  socket_accept_accepted_fd :: nat
  socket_accept_peer_addr :: ip_addr
  socket_accept_peer_port :: nat

record ptrace_event =
  ptrace_meta :: event_meta
  ptrace_request :: nat
  ptrace_target_pid :: nat
  ptrace_addr :: nat
  ptrace_data :: nat

record process_vm_read_event =
  process_vm_read_meta :: event_meta
  process_vm_read_target_pid :: nat
  process_vm_read_local_iov_count :: nat
  process_vm_read_remote_iov_count :: nat
  process_vm_read_remote_iov_len :: nat

record process_vm_write_event =
  process_vm_write_meta :: event_meta
  process_vm_write_target_pid :: nat
  process_vm_write_local_iov_count :: nat
  process_vm_write_remote_iov_count :: nat
  process_vm_write_remote_iov_len :: nat

record memfd_create_event =
  memfd_create_meta :: event_meta
  memfd_create_name :: string
  memfd_create_flags :: "32 word"
  memfd_create_fd :: int

record dns_query_event =
  dns_query_meta :: event_meta
  dns_query_query :: string
  dns_query_qtype :: nat
  dns_query_result :: "string option"
  dns_query_status :: nat

record wmi_activity_event =
  wmi_activity_meta :: event_meta
  wmi_activity_namespace :: string
  wmi_activity_query :: "string option"
  wmi_activity_method :: "string option"

record script_block_event =
  script_block_meta :: event_meta
  script_block_script_block_id :: string
  script_block_path :: "string option"
  script_block_text :: string
  script_block_message_number :: nat
  script_block_message_total :: nat

record amsi_content_event =
  amsi_content_meta :: event_meta
  amsi_content_session :: nat
  amsi_content_app_name :: string
  amsi_content_content_name :: "string option"
  amsi_content_content_size :: nat
  amsi_content_original_size :: nat
  amsi_content_text :: "string option"
  amsi_content_text_truncated :: bool
  amsi_content_content_hash :: string
  amsi_content_scan_result :: nat

record image_load_event =
  image_load_meta :: event_meta
  image_load_image_path :: string

record registry_set_event =
  registry_set_meta :: event_meta
  registry_set_key :: string
  registry_set_value_name :: string
  registry_set_data_type :: nat
  registry_set_data :: "string option"

record assembly_load_event =
  assembly_load_meta :: event_meta
  assembly_load_assembly_name :: string
  assembly_load_flags :: "32 word"

record smb_connect_event =
  smb_connect_meta :: event_meta
  smb_connect_server_name :: string

record udp_send_event =
  udp_send_meta :: event_meta
  udp_send_daddr :: ip_addr
  udp_send_dport :: nat
  udp_send_size :: nat

record listen_port_event =
  listen_port_meta :: event_meta
  listen_port_local_addr :: ip_addr
  listen_port_local_port :: nat

datatype tls_direction = Tls_Read | Tls_Write

datatype tls_library_type = OpenSsl | BoringSsl | GnuTls

datatype shell_type = Bash | Zsh

record tls_capture_event =
  tls_capture_meta :: event_meta
  tls_capture_direction :: tls_direction
  tls_capture_lib_type :: tls_library_type
  tls_capture_data :: "nat list"

record readline_input_event =
  readline_input_meta :: event_meta
  readline_input_shell_type :: shell_type
  readline_input_input :: string

record connect_event =
  connect_meta :: event_meta
  connect_daddr :: ip_addr
  connect_dport :: nat

record network_flow_event =
  network_flow_meta :: event_meta
  network_flow_local_port :: nat
  network_flow_daddr :: ip_addr
  network_flow_dport :: nat
  network_flow_protocol :: nat
  network_flow_bytes_sent :: "nat option"
  network_flow_bytes_received :: "nat option"
  network_flow_packets_sent :: "nat option"
  network_flow_packets_received :: "nat option"

datatype auth_outcome = Success | Failure

datatype auth_kind = Logon | LogonFailure | ExplicitCredentials | PrivilegedSession

record auth_event =
  auth_meta :: event_meta
  auth_outcome :: auth_outcome
  auth_kind :: auth_kind
  auth_target_user :: string
  auth_target_user_sid :: "string option"
  auth_source_address :: "ip_addr option"
  auth_status_code :: "string option"

record tcc_decision_event =
  tcc_decision_meta :: event_meta
  tcc_decision_service :: string
  tcc_decision_allowed :: bool
  tcc_decision_auth_value :: nat
  tcc_decision_auth_reason :: "nat option"
  tcc_decision_client :: "string option"

record gatekeeper_verdict_event =
  gatekeeper_verdict_meta :: event_meta
  gatekeeper_verdict_target :: string
  gatekeeper_verdict_team_id :: "string option"
  gatekeeper_verdict_signing_id :: "string option"
  gatekeeper_verdict_result_code :: nat

record file_quarantine_event =
  file_quarantine_meta :: event_meta
  file_quarantine_path :: string
  file_quarantine_agent :: "string option"
  file_quarantine_origin_url :: "string option"
  file_quarantine_referrer_url :: "string option"

record mount_event =
  mount_meta :: event_meta
  mount_mount_point :: string
  mount_source :: "string option"
  mount_fs_type :: "string option"
  mount_readonly :: bool
  mount_mounted :: bool

record signal_event =
  signal_meta :: event_meta
  signal_signal :: nat
  signal_target_pid :: nat
  signal_target_image_path :: "string option"

record xpc_connect_event =
  xpc_connect_meta :: event_meta
  xpc_connect_service_name :: string
  xpc_connect_domain_type :: nat

record policy_denial_event =
  policy_denial_meta :: event_meta
  policy_denial_mechanism :: string
  policy_denial_subject_context :: "string option"
  policy_denial_object_context :: "string option"
  policy_denial_object_class :: "string option"
  policy_denial_action :: "string option"
  policy_denial_enforced :: bool
  policy_denial_object_path :: "string option"

datatype kernel_module_action = Load | LoadFd | Unload

record kernel_module_event =
  kernel_module_meta :: event_meta
  kernel_module_action :: kernel_module_action
  kernel_module_name :: "string option"
  kernel_module_fd :: "int option"
  kernel_module_path :: "string option"
  kernel_module_image_len :: "nat option"

record bpf_event =
  bpf_meta :: event_meta
  bpf_cmd :: nat

record prctl_event =
  prctl_meta :: event_meta
  prctl_option :: nat
  prctl_arg :: nat

datatype http_signature = PathTraversal | SqlInjection | ScannerUserAgent | WebshellLike

record http_evidence =
  http_evidence_param :: string
  http_evidence_value :: string

record http_request_event =
  http_request_meta :: event_meta
  http_request_client :: "ip_addr option"
  http_request_method :: "string option"
  http_request_path :: string
  http_request_param_names :: "string list"
  http_request_status :: nat
  http_request_signature :: http_signature
  http_request_evidence :: "http_evidence option"
  http_request_scanner :: "string option"
  http_request_truncated :: bool

record http_client_count =
  http_client_count_client :: ip_addr
  http_client_count_failures :: nat

record http_summary_event =
  http_summary_meta :: event_meta
  http_summary_source :: string
  http_summary_window_secs :: nat
  http_summary_requests :: nat
  http_summary_status_4xx :: nat
  http_summary_status_5xx :: nat
  http_summary_distinct_clients :: nat
  http_summary_top_clients :: "http_client_count list"

datatype identity_change_kind = SetUid | SetGid | SetResUid | SetResGid | SetFsUid | SetFsGid

record identity_change_event =
  identity_change_meta :: event_meta
  identity_change_kind :: identity_change_kind
  identity_change_real :: nat
  identity_change_effective :: "nat option"
  identity_change_saved :: "nat option"

record cap_set_event =
  cap_set_meta :: event_meta
  cap_set_target_pid :: nat
  cap_set_effective :: nat
  cap_set_permitted :: nat
  cap_set_inheritable :: nat

datatype namespace_syscall = Set_Ns | Unshare

record namespace_event =
  namespace_meta :: event_meta
  namespace_syscall :: namespace_syscall
  namespace_fd :: "int option"
  namespace_flags :: "32 word"

subsection \<open>The event sum\<close>

datatype (plugins del: quickcheck_random quickcheck_exhaustive quickcheck_bounded_forall quickcheck_full_exhaustive quickcheck_narrowing transfer lifting) event =
    Exec exec_event
  | FileOpen file_open_event
  | Connect connect_event
  | DnsQuery dns_query_event
  | RegistrySet registry_set_event
  | ImageLoad image_load_event
  | ScriptBlock script_block_event
  | AmsiContent amsi_content_event
  | WmiActivity wmi_activity_event
  | AssemblyLoad assembly_load_event
  | SmbConnect smb_connect_event
  | UdpSend udp_send_event
  | Auth auth_event
  | ListenPort listen_port_event
  | NetworkFlow network_flow_event
  | TlsCapture tls_capture_event
  | ReadlineInput readline_input_event
  | FileWrite file_write_event
  | FileDelete file_delete_event
  | FileRename file_rename_event
  | SocketBind socket_bind_event
  | FileChmod file_chmod_event
  | FileChown file_chown_event
  | SocketListen socket_listen_event
  | SocketAccept socket_accept_event
  | TccDecision tcc_decision_event
  | GatekeeperVerdict gatekeeper_verdict_event
  | FileQuarantine file_quarantine_event
  | Mount mount_event
  | Signal signal_event
  | XpcConnect xpc_connect_event
  | FileSetxattr file_setxattr_event
  | FileRemovexattr file_removexattr_event
  | PolicyDenial policy_denial_event
  | KernelModule kernel_module_event
  | BpfOperation bpf_event
  | Ptrace ptrace_event
  | ProcessVmRead process_vm_read_event
  | ProcessVmWrite process_vm_write_event
  | MemfdCreate memfd_create_event
  | IdentityChange identity_change_event
  | CapSet cap_set_event
  | Namespace namespace_event
  | Prctl prctl_event
  | HttpRequest http_request_event
  | HttpSummary http_summary_event

primrec meta :: "event \<Rightarrow> event_meta" where
  "meta (Exec e) = exec_meta e"
| "meta (FileOpen e) = file_open_meta e"
| "meta (Connect e) = connect_meta e"
| "meta (DnsQuery e) = dns_query_meta e"
| "meta (RegistrySet e) = registry_set_meta e"
| "meta (ImageLoad e) = image_load_meta e"
| "meta (ScriptBlock e) = script_block_meta e"
| "meta (AmsiContent e) = amsi_content_meta e"
| "meta (WmiActivity e) = wmi_activity_meta e"
| "meta (AssemblyLoad e) = assembly_load_meta e"
| "meta (SmbConnect e) = smb_connect_meta e"
| "meta (UdpSend e) = udp_send_meta e"
| "meta (Auth e) = auth_meta e"
| "meta (ListenPort e) = listen_port_meta e"
| "meta (NetworkFlow e) = network_flow_meta e"
| "meta (TlsCapture e) = tls_capture_meta e"
| "meta (ReadlineInput e) = readline_input_meta e"
| "meta (FileWrite e) = file_write_meta e"
| "meta (FileDelete e) = file_delete_meta e"
| "meta (FileRename e) = file_rename_meta e"
| "meta (SocketBind e) = socket_bind_meta e"
| "meta (FileChmod e) = file_chmod_meta e"
| "meta (FileChown e) = file_chown_meta e"
| "meta (SocketListen e) = socket_listen_meta e"
| "meta (SocketAccept e) = socket_accept_meta e"
| "meta (TccDecision e) = tcc_decision_meta e"
| "meta (GatekeeperVerdict e) = gatekeeper_verdict_meta e"
| "meta (FileQuarantine e) = file_quarantine_meta e"
| "meta (Mount e) = mount_meta e"
| "meta (Signal e) = signal_meta e"
| "meta (XpcConnect e) = xpc_connect_meta e"
| "meta (FileSetxattr e) = file_setxattr_meta e"
| "meta (FileRemovexattr e) = file_removexattr_meta e"
| "meta (PolicyDenial e) = policy_denial_meta e"
| "meta (KernelModule e) = kernel_module_meta e"
| "meta (BpfOperation e) = bpf_meta e"
| "meta (Ptrace e) = ptrace_meta e"
| "meta (ProcessVmRead e) = process_vm_read_meta e"
| "meta (ProcessVmWrite e) = process_vm_write_meta e"
| "meta (MemfdCreate e) = memfd_create_meta e"
| "meta (IdentityChange e) = identity_change_meta e"
| "meta (CapSet e) = cap_set_meta e"
| "meta (Namespace e) = namespace_meta e"
| "meta (Prctl e) = prctl_meta e"
| "meta (HttpRequest e) = http_request_meta e"
| "meta (HttpSummary e) = http_summary_meta e"

text \<open>The command line the models read: the arguments, each closed by a null character.\<close>

definition ml_cmdline :: "exec_event \<Rightarrow> string" where
  "ml_cmdline e =
     (if exec_argv e = [] then exec_cmdline e
      else concat (map (\<lambda>tok. tok @ [CHR 0x00]) (exec_argv e)))"

subsection \<open>File flags\<close>

definition FLAG_PERSISTENCE_ARTIFACT :: "32 word" where
  "FLAG_PERSISTENCE_ARTIFACT = 0x10000000"

definition FLAG_PERSISTENCE_TASK_ARTIFACT :: "32 word" where
  "FLAG_PERSISTENCE_TASK_ARTIFACT = 0x20000000"

definition FLAG_PERSISTENCE_TASK_ACTION_UNKNOWN :: "32 word" where
  "FLAG_PERSISTENCE_TASK_ACTION_UNKNOWN = 0x02000000"

definition FLAG_PERSISTENCE_ACCOUNT_ARTIFACT :: "32 word" where
  "FLAG_PERSISTENCE_ACCOUNT_ARTIFACT = 0x08000000"

definition FLAG_PERSISTENCE_SYSTEMD_ARTIFACT :: "32 word" where
  "FLAG_PERSISTENCE_SYSTEMD_ARTIFACT = 0x40000000"

definition FLAG_PERSISTENCE_BTM_ARTIFACT :: "32 word" where
  "FLAG_PERSISTENCE_BTM_ARTIFACT = 0x04000000"

definition FLAG_APPLICATION_BLOCKED :: "32 word" where
  "FLAG_APPLICATION_BLOCKED = 0x01000000"

definition FLAG_PERSISTENCE_TASK_UPDATE_ARTIFACT :: "32 word" where
  "FLAG_PERSISTENCE_TASK_UPDATE_ARTIFACT = 0x00800000"

definition SYNTHETIC_FLAGS :: "32 word list" where
  "SYNTHETIC_FLAGS =
     [FLAG_PERSISTENCE_ARTIFACT, FLAG_PERSISTENCE_TASK_ARTIFACT, FLAG_PERSISTENCE_TASK_ACTION_UNKNOWN,
      FLAG_PERSISTENCE_ACCOUNT_ARTIFACT, FLAG_PERSISTENCE_SYSTEMD_ARTIFACT, FLAG_PERSISTENCE_BTM_ARTIFACT,
      FLAG_APPLICATION_BLOCKED, FLAG_PERSISTENCE_TASK_UPDATE_ARTIFACT]"

lemmas synthetic_flag_defs = SYNTHETIC_FLAGS_def FLAG_PERSISTENCE_ARTIFACT_def FLAG_PERSISTENCE_TASK_ARTIFACT_def
  FLAG_PERSISTENCE_TASK_ACTION_UNKNOWN_def FLAG_PERSISTENCE_ACCOUNT_ARTIFACT_def
  FLAG_PERSISTENCE_SYSTEMD_ARTIFACT_def FLAG_PERSISTENCE_BTM_ARTIFACT_def FLAG_APPLICATION_BLOCKED_def
  FLAG_PERSISTENCE_TASK_UPDATE_ARTIFACT_def

definition O_ACCMODE :: "32 word" where "O_ACCMODE = 3"

definition O_WRONLY :: "32 word" where "O_WRONLY = 1"

definition O_RDWR :: "32 word" where "O_RDWR = 2"

definition O_CREAT :: "32 word" where "O_CREAT = 64"

definition has_write_intent :: "32 word \<Rightarrow> bool" where
  "has_write_intent flags =
     (let access_mode = flags AND O_ACCMODE
      in access_mode = O_WRONLY \<or> access_mode = O_RDWR \<or> flags AND O_CREAT \<noteq> 0)"

lemma and_or_disjoint:
  fixes a f m :: "32 word"
  assumes "f AND m = 0"
  shows "(a OR f) AND m = a AND m"
  using assms by (simp add: bit.conj_disj_distrib2)

lemma synthetic_flags_clear_of_modes:
  "f \<in> set SYNTHETIC_FLAGS \<Longrightarrow> f AND O_ACCMODE = 0 \<and> f AND O_CREAT = 0"
  by (auto simp: synthetic_flag_defs O_ACCMODE_def O_CREAT_def)

text \<open>
  The synthetic persistence markers share no bit with each other and none with the open modes:
  setting any of them never changes whether an open counts as a write.
\<close>

theorem synthetic_flags_disjoint:
  assumes "f \<in> set SYNTHETIC_FLAGS"
  shows "has_write_intent (flags OR f) = has_write_intent flags \<and>
    (\<forall>g \<in> set SYNTHETIC_FLAGS. g = f \<or> f AND g = 0)"
proof
  show "has_write_intent (flags OR f) = has_write_intent flags"
    using synthetic_flags_clear_of_modes [OF assms] by (simp add: has_write_intent_def and_or_disjoint)
  show "\<forall>g \<in> set SYNTHETIC_FLAGS. g = f \<or> f AND g = 0"
    using assms by (auto simp: synthetic_flag_defs)
qed

theorem synthetic_flags_disjoint_witness:
  "has_write_intent (O_WRONLY OR FLAG_PERSISTENCE_BTM_ARTIFACT) \<and>
   FLAG_PERSISTENCE_BTM_ARTIFACT AND FLAG_APPLICATION_BLOCKED = 0"
proof -
  have "has_write_intent O_WRONLY" by (simp add: has_write_intent_def O_WRONLY_def O_ACCMODE_def)
  then show ?thesis
    using synthetic_flags_disjoint [of FLAG_PERSISTENCE_BTM_ARTIFACT O_WRONLY] by (simp add: synthetic_flag_defs)
qed

end
