(* ===== verification/EventBus.thy ===== *)
theory EventBus
  imports Events
begin

text \<open>
  The correlator's short-term memory: the sliding queue of \<open>crates/correlator/src/bus.rs\<close> and
  the event helpers of \<open>crates/correlator/src/event.rs\<close>. A \<open>Duration\<close> is its number of
  nanoseconds; the cast \<open>as u64\<close> keeps its low 64 bits.
\<close>

definition as_u64 :: "nat \<Rightarrow> nat" where
  "as_u64 n = n mod 2 ^ 64"

abbreviation ev_ts :: "event \<Rightarrow> nat" where
  "ev_ts e \<equiv> m_timestamp_ns (meta e)"

subsection \<open>Event helpers\<close>

fun is_file_write :: "event \<Rightarrow> bool" where
  "is_file_write (FileOpen f) = has_write_intent (file_open_flags f)"
| "is_file_write _ = False"

fun is_correlated :: "event \<Rightarrow> bool" where
  "is_correlated (Exec _) = True"
| "is_correlated (Connect _) = True"
| "is_correlated (FileOpen _) = True"
| "is_correlated (DnsQuery _) = True"
| "is_correlated (AssemblyLoad _) = True"
| "is_correlated (SmbConnect _) = True"
| "is_correlated (UdpSend _) = True"
| "is_correlated (NetworkFlow _) = True"
| "is_correlated (HttpRequest _) = True"
| "is_correlated _ = False"

subsection \<open>The bus\<close>

record event_bus =
  bus_events :: "event list"
  bus_window :: nat
  max_seen_ns :: nat

definition bus_new :: "nat \<Rightarrow> event_bus" where
  "bus_new window = \<lparr>bus_events = [], bus_window = window, max_seen_ns = 0\<rparr>"

definition evict :: "event_bus \<Rightarrow> event_bus" where
  "evict b =
     (let m = (if bus_events b = [] then max_seen_ns b
               else max (max_seen_ns b) (ev_ts (last (bus_events b))));
          cutoff = m - as_u64 (bus_window b)
      in b\<lparr>max_seen_ns := m, bus_events := filter (\<lambda>e. cutoff \<le> ev_ts e) (bus_events b)\<rparr>)"

definition bus_push :: "event_bus \<Rightarrow> event \<Rightarrow> event_bus" where
  "bus_push b e = evict (b\<lparr>bus_events := bus_events b @ [e]\<rparr>)"

definition events_for_pid :: "event_bus \<Rightarrow> pid \<Rightarrow> generation \<Rightarrow> event list" where
  "events_for_pid b pid gen =
     filter (\<lambda>e. m_pid (meta e) = pid \<and> same_generation (process_generation (meta e)) gen) (bus_events b)"

definition events_for_ppid_comm :: "event_bus \<Rightarrow> pid \<Rightarrow> generation \<Rightarrow> string \<Rightarrow> event list" where
  "events_for_ppid_comm b ppid parent_gen comm =
     filter (\<lambda>e. m_ppid (meta e) = ppid \<and> m_comm (meta e) = comm
       \<and> same_generation (parent_process_generation (meta e)) parent_gen) (bus_events b)"

subsection \<open>What the bus holds\<close>

lemma bus_push_fields:
  "bus_window (bus_push b e) = bus_window b"
  "max_seen_ns (bus_push b e) = max (max_seen_ns b) (ev_ts e)"
  "bus_events (bus_push b e) =
     filter (\<lambda>x. max (max_seen_ns b) (ev_ts e) - as_u64 (bus_window b) \<le> ev_ts x) (bus_events b @ [e])"
  by (simp_all add: bus_push_def evict_def Let_def)

text \<open>The greatest timestamp of a history, zero for the empty one.\<close>

definition latest :: "event list \<Rightarrow> nat" where
  "latest es = Max (insert 0 (ev_ts ` set es))"

lemma latest_snoc: "latest (es @ [e]) = max (latest es) (ev_ts e)"
proof -
  have "insert 0 (ev_ts ` set (es @ [e])) = insert (ev_ts e) (insert 0 (ev_ts ` set es))" by auto
  then have "latest (es @ [e]) = max (ev_ts e) (Max (insert 0 (ev_ts ` set es)))"
    unfolding latest_def by (simp del: Max_insert add: Max_insert [symmetric] insert_commute)
  then show ?thesis by (simp add: latest_def max.commute)
qed

lemma latest_Nil [simp]: "latest [] = 0"
  by (simp add: latest_def)

lemma latest_ge: "e \<in> set es \<Longrightarrow> ev_ts e \<le> latest es"
  by (simp add: latest_def)

lemma bus_run:
  "bus_events (foldl bus_push (bus_new w) es) = filter (\<lambda>e. latest es - as_u64 w \<le> ev_ts e) es \<and>
   max_seen_ns (foldl bus_push (bus_new w) es) = latest es \<and>
   bus_window (foldl bus_push (bus_new w) es) = w"
proof (induction es rule: rev_induct)
  case Nil
  then show ?case by (simp add: bus_new_def)
next
  case (snoc e es)
  let ?m = "max (latest es) (ev_ts e)"
  have "filter (\<lambda>x. ?m - as_u64 w \<le> ev_ts x) (filter (\<lambda>x. latest es - as_u64 w \<le> ev_ts x) es)
      = filter (\<lambda>x. ?m - as_u64 w \<le> ev_ts x) es"
    unfolding filter_filter by (rule filter_cong) auto
  then show ?case using snoc.IH by (simp add: bus_push_fields latest_snoc)
qed

lemma bus_push_mem: "e \<in> set (bus_events (bus_push b e)) \<longleftrightarrow> max_seen_ns b - as_u64 (bus_window b) \<le> ev_ts e"
  by (auto simp: bus_push_fields)

lemma events_for_pid_iff:
  "e \<in> set (events_for_pid b p g) \<longleftrightarrow>
     e \<in> set (bus_events b) \<and> m_pid (meta e) = p \<and> same_generation (process_generation (meta e)) g"
  by (simp add: events_for_pid_def)

lemma events_for_ppid_comm_iff:
  "e \<in> set (events_for_ppid_comm b p g c) \<longleftrightarrow>
     e \<in> set (bus_events b) \<and> m_ppid (meta e) = p \<and> m_comm (meta e) = c
     \<and> same_generation (parent_process_generation (meta e)) g"
  by (simp add: events_for_ppid_comm_def)

text \<open>
  C15: After any sequence of insertions, in any order of their timestamps, the bus holds exactly
  the inserted events that are no older than the window, counted back from the greatest
  timestamp ever inserted, in insertion order: a late old event never brings stale history back.
\<close>

theorem bus_holds_the_window:
  "bus_events (foldl bus_push (bus_new w) es) = filter (\<lambda>e. latest es - as_u64 w \<le> ev_ts e) es"
  using bus_run by blast

end
