(* ===== verification/Policy.thy ===== *)
theory Policy
  imports Events
begin

text \<open>
  The masquerade helpers and the flat policy structs of \<open>crates/policy/src/lib.rs\<close>: which
  image paths and parents let a name-keyed exclusion apply, and the address-selection probe
  the connection rules leave out. Strings are byte strings, as the source's \<open>as_bytes\<close> and
  \<open>starts_with\<close> see them.
\<close>

definition unix_trusted_prefixes :: "string list" where
  "unix_trusted_prefixes =
     [''/usr/'', ''/bin/'', ''/sbin/'', ''/lib/'', ''/opt/'', ''/system/'', ''/applications/'']"

abbreviation backslash :: char where
  "backslash \<equiv> CHR 0x5C"

text \<open>A Windows path is written with slashes below; \<open>win\<close> turns them into backslashes.\<close>

definition win :: "string \<Rightarrow> string" where
  "win s = map (\<lambda>c. if c = CHR ''/'' then backslash else c) s"

definition is_trusted_system_path :: "string \<Rightarrow> bool" where
  "is_trusted_system_path path =
     (let lower = to_ascii_lowercase path in
      if 1 < length lower \<and> lower ! 1 = CHR '':'' then
        (let rest = win (drop 2 lower) in
         if starts_with rest (win ''/windows/'') then
           \<not> (starts_with rest (win ''/windows/temp/'')
              \<or> starts_with rest (win ''/windows/tasks/'')
              \<or> starts_with rest (win ''/windows/tracing/''))
         else starts_with rest (win ''/program files/'')
              \<or> starts_with rest (win ''/program files (x86)/''))
      else list_ex (starts_with lower) unix_trusted_prefixes)"

definition name_exclusion_applies :: "string option \<Rightarrow> bool" where
  "name_exclusion_applies image_path =
     (case image_path of
        None \<Rightarrow> True
      | Some path \<Rightarrow> if path = [] then True else is_trusted_system_path path)"

definition ADDRESS_SELECTION_PROBE_PORT :: nat where
  "ADDRESS_SELECTION_PROBE_PORT = 65535"

definition is_address_selection_probe :: "ip_addr \<Rightarrow> nat \<Rightarrow> bool" where
  "is_address_selection_probe daddr dport \<longleftrightarrow>
     is_unspecified daddr \<and> dport = ADDRESS_SELECTION_PROBE_PORT"

definition expected_parents :: "string \<Rightarrow> string list" where
  "expected_parents comm =
     (let name = to_ascii_lowercase (after_last backslash comm) in
      if name = ''smss.exe'' then [''system'']
      else if name = ''csrss.exe'' then [''smss.exe'']
      else if name = ''wininit.exe'' then [''smss.exe'']
      else if name = ''winlogon.exe'' then [''smss.exe'']
      else if name = ''services.exe'' then [''wininit.exe'']
      else if name = ''svchost.exe'' then [''services.exe'']
      else if name = ''taskhostw.exe'' \<or> name = ''taskhost.exe'' then [''services.exe'', ''svchost.exe'']
      else if name = ''spoolsv.exe'' then [''services.exe'']
      else if name = ''lsass.exe'' then [''wininit.exe'']
      else if name = ''userinit.exe'' then [''winlogon.exe'']
      else if name = ''explorer.exe'' then [''userinit.exe'']
      else [])"

definition parent_exclusion_applies :: "string \<Rightarrow> string option \<Rightarrow> bool" where
  "parent_exclusion_applies comm parent_comm =
     (let expected = expected_parents comm in
      if expected = [] then True
      else (case parent_comm of
              None \<Rightarrow> True
            | Some parent \<Rightarrow>
                if parent = [] then True
                else (let parent_name = after_last backslash parent in
                      list_ex (\<lambda>e. eq_ignore_ascii_case e parent_name) expected)))"

record event_log_policy =
  service_installs_enabled :: bool
  scheduled_tasks_enabled :: bool
  account_creations_enabled :: bool
  logon_events_enabled :: bool

definition event_log_policy_default :: event_log_policy where
  "event_log_policy_default =
     \<lparr>service_installs_enabled = True, scheduled_tasks_enabled = True,
      account_creations_enabled = True, logon_events_enabled = True\<rparr>"

record response_policy =
  kill_enabled :: bool
  quarantine_enabled :: bool

definition response_policy_default :: response_policy where
  "response_policy_default = \<lparr>kill_enabled = False, quarantine_enabled = False\<rparr>"

subsection \<open>Case and separators do not matter\<close>

lemma ascii_lower_idem [simp]: "ascii_lower (ascii_lower c) = ascii_lower c"
proof -
  have "ascii_lower c = c \<or> (97 \<le> (of_char (ascii_lower c) :: nat) \<and> of_char (ascii_lower c) \<le> (122 :: nat))"
    by (auto simp: ascii_lower_def Let_def)
  then show ?thesis by (auto simp: ascii_lower_def Let_def)
qed

lemma to_ascii_lowercase_idem [simp]: "to_ascii_lowercase (to_ascii_lowercase s) = to_ascii_lowercase s"
  by (simp add: to_ascii_lowercase_def)

lemma length_to_ascii_lowercase [simp]: "length (to_ascii_lowercase s) = length s"
  by (simp add: to_ascii_lowercase_def)

lemma of_ascii_lower:
  "(of_char (ascii_lower c) :: nat) =
     (if 65 \<le> (of_char c :: nat) \<and> (of_char c :: nat) \<le> 90 then of_char c + 32 else of_char c)"
  by (simp add: ascii_lower_def Let_def)

lemma ascii_lower_fixed:
  "ascii_lower c = CHR ''/'' \<longleftrightarrow> c = CHR ''/''" "ascii_lower c = CHR 0x5C \<longleftrightarrow> c = CHR 0x5C"
  "ascii_lower c = CHR '':'' \<longleftrightarrow> c = CHR '':''"
  by (auto simp: of_char_eq_iff [where 'a = nat, symmetric] of_ascii_lower simp del: of_char_eq_iff split: if_splits)

lemma after_last_map:
  assumes "\<And>x. f x = c \<longleftrightarrow> x = c"
  shows "after_last c (map f s) = map f (after_last c s)"
  by (simp add: after_last_def rev_map takeWhile_map comp_def assms)

lemma after_last_lowercase:
  "after_last backslash (to_ascii_lowercase s) = to_ascii_lowercase (after_last backslash s)"
  unfolding to_ascii_lowercase_def by (rule after_last_map) (simp add: ascii_lower_fixed)

lemma trusted_path_lowercase:
  "is_trusted_system_path (to_ascii_lowercase p) = is_trusted_system_path p"
  by (simp add: is_trusted_system_path_def)

lemma expected_parents_lowercase:
  "expected_parents (to_ascii_lowercase c) = expected_parents c"
  by (simp add: expected_parents_def after_last_lowercase)

lemma eq_ignore_ascii_case_lowercase:
  "eq_ignore_ascii_case a (to_ascii_lowercase b) = eq_ignore_ascii_case a b"
  by (simp add: eq_ignore_ascii_case_def)

lemma name_exclusion_case:
  assumes "to_ascii_lowercase p = to_ascii_lowercase q"
  shows "name_exclusion_applies (Some p) = name_exclusion_applies (Some q)"
proof -
  have "p = [] \<longleftrightarrow> q = []" using arg_cong [OF assms, of length] by auto
  then show ?thesis
    using trusted_path_lowercase [of p] trusted_path_lowercase [of q] assms
    by (simp add: name_exclusion_applies_def)
qed

lemma parent_exclusion_case:
  assumes "to_ascii_lowercase c = to_ascii_lowercase d"
    and "to_ascii_lowercase p = to_ascii_lowercase q"
  shows "parent_exclusion_applies c (Some p) = parent_exclusion_applies d (Some q)"
proof -
  have e: "expected_parents c = expected_parents d"
    using expected_parents_lowercase [of c] expected_parents_lowercase [of d] assms(1) by simp
  have n: "p = [] \<longleftrightarrow> q = []" using arg_cong [OF assms(2), of length] by auto
  have l: "to_ascii_lowercase (after_last backslash p) = to_ascii_lowercase (after_last backslash q)"
    by (metis after_last_lowercase assms(2))
  show ?thesis
    by (simp add: parent_exclusion_applies_def Let_def e n eq_ignore_ascii_case_def l)
qed

lemma win_lower: "win (map ascii_lower s) = map ascii_lower (win s)"
  by (simp add: win_def comp_def ascii_lower_fixed) (simp add: ascii_lower_def)

lemma trusted_path_slashes:
  assumes "1 < length p" and "p ! 1 = CHR '':''" and "1 < length q" and "q ! 1 = CHR '':''"
    and "win (to_ascii_lowercase p) = win (to_ascii_lowercase q)"
  shows "is_trusted_system_path p = is_trusted_system_path q"
proof -
  have "drop 2 (win (to_ascii_lowercase p)) = drop 2 (win (to_ascii_lowercase q))"
    using assms(5) by simp
  then have r: "win (drop 2 (to_ascii_lowercase p)) = win (drop 2 (to_ascii_lowercase q))"
    by (simp add: win_def drop_map)
  have "to_ascii_lowercase p ! 1 = CHR '':''" "to_ascii_lowercase q ! 1 = CHR '':''"
    using assms by (simp_all add: to_ascii_lowercase_def ascii_lower_fixed)
  then show ?thesis using assms(1,3) by (simp add: is_trusted_system_path_def r)
qed

text \<open>
  The spelling of a name does not decide an exclusion: image paths that differ only in
  letter case (and, for two drive paths, in the direction of their slashes) give the same answer
  of \<open>name_exclusion_applies\<close>, and so do process and parent names that differ only in letter
  case for \<open>parent_exclusion_applies\<close>.
\<close>

theorem exclusions_ignore_spelling:
  "(to_ascii_lowercase p = to_ascii_lowercase q \<longrightarrow>
      name_exclusion_applies (Some p) = name_exclusion_applies (Some q)) \<and>
   (1 < length p \<and> p ! 1 = CHR '':'' \<and> 1 < length q \<and> q ! 1 = CHR '':'' \<and>
    win (to_ascii_lowercase p) = win (to_ascii_lowercase q) \<longrightarrow>
      name_exclusion_applies (Some p) = name_exclusion_applies (Some q)) \<and>
   (to_ascii_lowercase c = to_ascii_lowercase d \<and> to_ascii_lowercase p = to_ascii_lowercase q \<longrightarrow>
      parent_exclusion_applies c (Some p) = parent_exclusion_applies d (Some q))"
proof (intro conjI impI)
  assume "1 < length p \<and> p ! 1 = CHR '':'' \<and> 1 < length q \<and> q ! 1 = CHR '':'' \<and>
    win (to_ascii_lowercase p) = win (to_ascii_lowercase q)"
  then have "is_trusted_system_path p = is_trusted_system_path q" "p \<noteq> []" "q \<noteq> []"
    using trusted_path_slashes [of p q] by auto
  then show "name_exclusion_applies (Some p) = name_exclusion_applies (Some q)"
    by (simp add: name_exclusion_applies_def)
qed (use name_exclusion_case [of p q] parent_exclusion_case [of c d p q] in auto)

theorem exclusions_ignore_spelling_witness:
  "\<not> name_exclusion_applies (Some ''c:/WINDOWS/Temp/a.exe'') \<and>
   \<not> name_exclusion_applies (Some (''C:'' @ win ''/windows/temp/A.EXE'')) \<and>
   \<not> parent_exclusion_applies ''LSASS.exe'' (Some ''Cmd.exe'')"
proof -
  have "\<not> name_exclusion_applies (Some ''c:/WINDOWS/Temp/a.exe'')"
    "\<not> parent_exclusion_applies ''lsass.exe'' (Some ''cmd.exe'')" by code_simp+
  moreover have "win (to_ascii_lowercase ''c:/WINDOWS/Temp/a.exe'') =
      win (to_ascii_lowercase (''C:'' @ win ''/windows/temp/A.EXE''))"
    "to_ascii_lowercase ''LSASS.exe'' = to_ascii_lowercase ''lsass.exe''"
    "to_ascii_lowercase ''Cmd.exe'' = to_ascii_lowercase ''cmd.exe''" by code_simp+
  ultimately show ?thesis
    using exclusions_ignore_spelling
      [of "''c:/WINDOWS/Temp/a.exe''" "''C:'' @ win ''/windows/temp/A.EXE''" "[]" "[]"]
      exclusions_ignore_spelling [of "''Cmd.exe''" "''cmd.exe''" "''LSASS.exe''" "''lsass.exe''"]
    by simp
qed

text \<open>
  Trust in an image path is a test of its prefix only: the path is not normalised, so every
  path below \<open>/usr/\<close>, and every path below \<open>C:/Windows/../\<close> is trusted, also
  those that lead out of the directory through a parent component.
\<close>

theorem trusted_path_is_lexical:
  "is_trusted_system_path (''/usr/../tmp/'' @ s) \<and>
   name_exclusion_applies (Some (''/usr/../tmp/'' @ s)) \<and>
   is_trusted_system_path (''C:/Windows/../Users/Public/'' @ s) \<and>
   \<not> is_trusted_system_path (''/tmp/'' @ s) \<and>
   \<not> is_trusted_system_path (''C:/Users/Public/'' @ s)"
  by (simp add: name_exclusion_applies_def is_trusted_system_path_def to_ascii_lowercase_def
      ascii_lower_def win_def unix_trusted_prefixes_def char_of_def bit_0)

end
