(* ===== verification/Display.thy ===== *)
theory Display
  imports Decimal Events
begin

text \<open>
  What the alert messages use of the standard library's formatting: UTF-8 characters of a byte
  string, the display of addresses (dotted IPv4; IPv6 with its longest run of zero segments
  compressed), a real with a fixed number of decimals (rounded half to even), and the two
  non-ASCII characters the messages contain.
\<close>

definition em_dash :: string where
  "em_dash = [CHR 0xE2, CHR 0x80, CHR 0x94]"

definition right_arrow :: string where
  "right_arrow = [CHR 0xE2, CHR 0x86, CHR 0x92]"

text \<open>\<open>s.chars()\<close>: a character is a byte with the continuation bytes that follow it.\<close>

definition is_continuation :: "char \<Rightarrow> bool" where
  "is_continuation c \<longleftrightarrow> 128 \<le> (of_char c :: nat) \<and> (of_char c :: nat) < 192"

function chars_of :: "string \<Rightarrow> string list" where
  "chars_of [] = []"
| "chars_of (c # cs) = (c # takeWhile is_continuation cs) # chars_of (dropWhile is_continuation cs)"
  by pat_completeness auto

termination
  by (relation "measure length") (auto simp: le_imp_less_Suc length_dropWhile_le)

lemma chars_of_ascii: "\<forall>c \<in> set s. \<not> is_continuation c \<Longrightarrow> chars_of s = map (\<lambda>c. [c]) s"
proof (induction s)
  case (Cons c s)
  then show ?case by (cases s) auto
qed simp

fun join :: "string \<Rightarrow> string list \<Rightarrow> string" where
  "join sep [] = []"
| "join sep [s] = s"
| "join sep (s # t # ts) = s @ sep @ join sep (t # ts)"

definition hex_digit :: "nat \<Rightarrow> char" where
  "hex_digit n = (if n < 10 then char_of (48 + n) else char_of (87 + n))"

fun show_hex :: "nat \<Rightarrow> string" where
  "show_hex n = (if n < 16 then [hex_digit n] else show_hex (n div 16) @ [hex_digit (n mod 16)])"

declare show_hex.simps [simp del]

fun longest_zero_run :: "nat \<Rightarrow> nat \<times> nat \<Rightarrow> nat \<times> nat \<Rightarrow> nat list \<Rightarrow> nat \<times> nat" where
  "longest_zero_run i cur best [] = best"
| "longest_zero_run i cur best (s # ss) =
     (if s = 0 then
        (let cur = (if snd cur = 0 then (i, 1) else (fst cur, Suc (snd cur)))
         in longest_zero_run (Suc i) cur (if snd best < snd cur then cur else best) ss)
      else longest_zero_run (Suc i) (0, 0) best ss)"

definition dotted :: "nat \<Rightarrow> nat \<Rightarrow> nat \<Rightarrow> nat \<Rightarrow> string" where
  "dotted a b c d = join ''.'' (map show_nat [a, b, c, d])"

definition show_segments :: "nat list \<Rightarrow> string" where
  "show_segments ss = join '':'' (map show_hex ss)"

definition show_ipv6 :: "nat list \<Rightarrow> string" where
  "show_ipv6 ss =
     (if take 6 ss = [0, 0, 0, 0, 0, 65535] then
        ''::ffff:'' @ dotted (ss ! 6 div 256) (ss ! 6 mod 256) (ss ! 7 div 256) (ss ! 7 mod 256)
      else
        (let (start, len) = longest_zero_run 0 (0, 0) (0, 0) ss in
         if 1 < len then show_segments (take start ss) @ ''::'' @ show_segments (drop (start + len) ss)
         else show_segments ss))"

fun show_ip :: "ip_addr \<Rightarrow> string" where
  "show_ip (V4 a b c d) = dotted a b c d"
| "show_ip (V6 a b c d e f g h) = show_ipv6 (map unat [a, b, c, d, e, f, g, h])"

definition round_half_even :: "real \<Rightarrow> nat" where
  "round_half_even x =
     (let f = \<lfloor>x\<rfloor>; r = x - of_int f in
      nat (if r < 1 / 2 then f else if 1 / 2 < r then f + 1 else if even f then f else f + 1))"

definition fmt_fixed :: "nat \<Rightarrow> real \<Rightarrow> string" where
  "fmt_fixed k x =
     (let n = round_half_even (\<bar>x\<bar> * 10 ^ k) in
      (if x < 0 then ''-'' else []) @ show_nat (n div 10 ^ k) @
      (if k = 0 then [] else ''.'' @ pad_zero k (show_nat (n mod 10 ^ k))))"

lemma round_half_even_error: "0 \<le> x \<Longrightarrow> \<bar>real (round_half_even x) - x\<bar> \<le> 1 / 2"
proof -
  assume x: "0 \<le> x"
  define f where "f = \<lfloor>x\<rfloor>"
  have f: "of_int f \<le> x" "x < of_int f + 1" "0 \<le> f" unfolding f_def using x by simp_all
  then show ?thesis
    unfolding round_half_even_def Let_def f_def [symmetric] by (auto simp: abs_real_def)
qed

end
