(* ===== verification/CorrRules.thy ===== *)
theory CorrRules
  imports EventBus Policy Display
begin

text \<open>
  The co-occurrence rules of \<open>crates/correlator/src/rules.rs\<close>, one definition per rule. Each
  rule reads the bus and returns an alert or nothing. Entropy is computed over the reals. The
  association list of \<open>rule_dns_exfil\<close> is in insertion order, where the source's hash map
  has an unspecified order: this matters only for which of several parent domains with equally
  many labels the message names. The patterns \<open>is_payload_file\<close> looks for are ASCII without
  the letter k, and no non-ASCII character has a lower case that could complete one of them, so
  the source's Unicode lower-casing and the ASCII one agree on it.
\<close>

record correlation_alert =
  al_technique :: string
  al_severity :: severity
  al_message :: string

definition correlation_alert_of :: "string \<Rightarrow> severity \<Rightarrow> string \<Rightarrow> correlation_alert" where
  "correlation_alert_of t s m = \<lparr>al_technique = t, al_severity = s, al_message = m\<rparr>"

subsection \<open>The legs of the rules\<close>

fun is_exec :: "event \<Rightarrow> bool" where
  "is_exec (Exec _) = True"
| "is_exec _ = False"

fun is_network_connect :: "event \<Rightarrow> bool" where
  "is_network_connect (Connect c) =
     (\<not> is_address_selection_probe (connect_daddr c) (connect_dport c))"
| "is_network_connect _ = False"

definition payload_extensions :: "string list" where
  "payload_extensions =
     [''.exe'', ''.dll'', ''.bat'', ''.ps1'', ''.vbs'', ''.hta'', ''.cmd'', ''.scr'', ''.msi'',
      ''.jar'', ''.js'', ''.jse'']"

definition is_payload_file :: "string \<Rightarrow> bool" where
  "is_payload_file path =
     (let p = to_ascii_lowercase path;
          suspicious_ext = list_ex (ends_with p) payload_extensions;
          suspicious_path =
            contains p (win ''/temp/'') \<or> contains p (win ''/tmp/'')
            \<or> contains p (win ''/downloads/'') \<or> contains p (win ''/startup/'')
            \<or> starts_with p ''/tmp/'' \<or> starts_with p ''/var/tmp/''
            \<or> starts_with p ''/dev/shm/'' \<or> contains p ''/downloads/''
      in suspicious_ext \<or> suspicious_path)"

fun writes_payload_file :: "event \<Rightarrow> bool" where
  "writes_payload_file (FileOpen f) =
     (is_file_write (FileOpen f) \<and> is_payload_file (file_open_path f))"
| "writes_payload_file _ = False"

fun assembly_of :: "event \<Rightarrow> string option" where
  "assembly_of (AssemblyLoad a) = Some (assembly_load_assembly_name a)"
| "assembly_of _ = None"

fun smb_server_of :: "event \<Rightarrow> string option" where
  "smb_server_of (SmbConnect s) = Some (smb_connect_server_name s)"
| "smb_server_of _ = None"

fun find_map :: "('a \<Rightarrow> 'b option) \<Rightarrow> 'a list \<Rightarrow> 'b option" where
  "find_map f [] = None"
| "find_map f (x # xs) = (case f x of None \<Rightarrow> find_map f xs | Some y \<Rightarrow> Some y)"

definition option_text :: "(string \<Rightarrow> string) \<Rightarrow> string option \<Rightarrow> string" where
  "option_text f x = (case x of None \<Rightarrow> [] | Some s \<Rightarrow> f s)"

subsection \<open>Spawn, connection and file write\<close>

definition rule_spawn_connect :: "pid \<Rightarrow> generation \<Rightarrow> event_bus \<Rightarrow> correlation_alert option" where
  "rule_spawn_connect pid gen bus =
     (let events = events_for_pid bus pid gen;
          has_exec = list_ex is_exec events;
          has_connect = list_ex is_network_connect events
      in if has_exec \<and> has_connect then
           Some (correlation_alert_of ''T1059/T1071'' Medium
             (''pid='' @ show_nat pid @ '': spawn + network connection in the same time window''))
         else None)"

definition rule_connect_filewrite :: "pid \<Rightarrow> generation \<Rightarrow> event_bus \<Rightarrow> correlation_alert option" where
  "rule_connect_filewrite pid gen bus =
     (let events = events_for_pid bus pid gen;
          has_connect = list_ex is_network_connect events;
          has_filewrite = list_ex writes_payload_file events
      in if has_connect \<and> has_filewrite then
           Some (correlation_alert_of ''T1105'' Medium
             (''pid='' @ show_nat pid @ '': network connection + file write in the same window ''
              @ em_dash @ '' suspected staging''))
         else None)"

definition rule_spawn_connect_filewrite ::
    "pid \<Rightarrow> generation \<Rightarrow> event_bus \<Rightarrow> correlation_alert option" where
  "rule_spawn_connect_filewrite pid gen bus =
     (let events = events_for_pid bus pid gen;
          has_exec = list_ex is_exec events;
          has_connect = list_ex is_network_connect events;
          has_filewrite = list_ex writes_payload_file events
      in if has_exec \<and> has_connect \<and> has_filewrite then
           Some (correlation_alert_of ''T1105/T1059/T1071'' High
             (''pid='' @ show_nat pid @ '': spawn + network connection + file write ''
              @ em_dash @ '' complete dropper chain''))
         else None)"

definition RESPAWN_THRESHOLD :: nat where
  "RESPAWN_THRESHOLD = 3"

definition rule_respawn_connect :: "pid \<Rightarrow> generation \<Rightarrow> event_bus \<Rightarrow> correlation_alert option" where
  "rule_respawn_connect pid gen bus =
     (let own = events_for_pid bus pid gen in
      if own = [] then None
      else
        (let m = meta (last own);
             ppid = m_ppid m;
             comm = m_comm m;
             events = events_for_ppid_comm bus ppid (parent_process_generation m) comm;
             spawn_count = length (filter is_exec events);
             has_connect = list_ex is_network_connect events
         in if RESPAWN_THRESHOLD \<le> spawn_count \<and> has_connect then
              Some (correlation_alert_of ''T1059/T1071'' Medium
                (''ppid='' @ show_nat ppid @ '' comm='' @ comm @ '': '' @ show_nat spawn_count
                 @ '' spawns + network connection '' @ em_dash
                 @ '' automatic respawn with suspected beaconing''))
            else None))"

subsection \<open>In-memory assemblies and SMB\<close>

definition rule_assembly_connect :: "pid \<Rightarrow> generation \<Rightarrow> event_bus \<Rightarrow> correlation_alert option" where
  "rule_assembly_connect pid gen bus =
     (let events = events_for_pid bus pid gen;
          has_assembly = list_ex (\<lambda>e. assembly_of e \<noteq> None) events;
          has_connect = list_ex is_network_connect events
      in if has_assembly \<and> has_connect then
           Some (correlation_alert_of ''T1055/T1620'' High
             (''pid='' @ show_nat pid @ '': in-memory .NET assembly + network connection '' @ em_dash
              @ '' suspected execute-assembly C2''
              @ option_text (\<lambda>n. '' (assembly: '' @ n @ '')'') (find_map assembly_of events)))
         else None)"

definition rule_exec_smb :: "pid \<Rightarrow> generation \<Rightarrow> event_bus \<Rightarrow> correlation_alert option" where
  "rule_exec_smb pid gen bus =
     (let events = events_for_pid bus pid gen;
          has_exec = list_ex is_exec events;
          has_smb = list_ex (\<lambda>e. smb_server_of e \<noteq> None) events
      in if has_exec \<and> has_smb then
           Some (correlation_alert_of ''T1021.002'' Medium
             (''pid='' @ show_nat pid @ '': process spawn + SMB connection '' @ em_dash
              @ '' suspected lateral movement''
              @ option_text (\<lambda>s. '' (server: '' @ s @ '')'') (find_map smb_server_of events)))
         else None)"

definition rule_assembly_smb :: "pid \<Rightarrow> generation \<Rightarrow> event_bus \<Rightarrow> correlation_alert option" where
  "rule_assembly_smb pid gen bus =
     (let events = events_for_pid bus pid gen;
          has_assembly = list_ex (\<lambda>e. assembly_of e \<noteq> None) events;
          has_smb = list_ex (\<lambda>e. smb_server_of e \<noteq> None) events
      in if has_assembly \<and> has_smb then
           Some (correlation_alert_of ''T1021.002/T1055'' High
             (''pid='' @ show_nat pid @ '': in-memory .NET assembly + SMB connection '' @ em_dash
              @ '' suspected fileless lateral movement''
              @ option_text (\<lambda>n. '' (assembly: '' @ n @ '')'') (find_map assembly_of events)
              @ option_text (\<lambda>s. '' '' @ right_arrow @ '' '' @ s) (find_map smb_server_of events)))
         else None)"

subsection \<open>DNS tunnelling\<close>

definition DNS_TUNNEL_MIN_QUERIES :: nat where
  "DNS_TUNNEL_MIN_QUERIES = 10"

definition DNS_TUNNEL_LABEL_MIN_LEN :: nat where
  "DNS_TUNNEL_LABEL_MIN_LEN = 30"

definition DNS_TUNNEL_LABEL_MIN_ENTROPY :: real where
  "DNS_TUNNEL_LABEL_MIN_ENTROPY = 35 / 10"

definition shannon_entropy :: "string \<Rightarrow> real" where
  "shannon_entropy s =
     (if s = [] then 0
      else (let cs = chars_of s; n = real (length cs) in
            sum_list (map (\<lambda>c. let p = real (count_list cs c) / n in - p * log 2 p) (remdups cs))))"

definition split_leftmost_label :: "string \<Rightarrow> (string \<times> string) option" where
  "split_leftmost_label query =
     (let name = rev (dropWhile (\<lambda>c. c = CHR ''.'') (rev query));
          labels = filter (\<lambda>l. l \<noteq> []) (split_on (CHR ''.'') name)
      in if length labels < 3 then None
         else Some (labels ! 0, join ''.'' (drop (length labels - 2) labels)))"

definition is_tunnel_like_label :: "string \<Rightarrow> bool" where
  "is_tunnel_like_label label \<longleftrightarrow>
     DNS_TUNNEL_LABEL_MIN_LEN < length label \<and>
     DNS_TUNNEL_LABEL_MIN_ENTROPY < shannon_entropy (to_ascii_lowercase label)"

fun dns_query_of :: "event \<Rightarrow> string option" where
  "dns_query_of (DnsQuery d) = Some (dns_query_query d)"
| "dns_query_of _ = None"

definition add_label :: "(string \<times> string list) list \<Rightarrow> string \<Rightarrow> string \<Rightarrow> (string \<times> string list) list" where
  "add_label per parent label =
     AList.update parent (List.insert label (case map_of per parent of None \<Rightarrow> [] | Some ls \<Rightarrow> ls)) per"

definition dns_exfil_step :: "(string \<times> string list) list \<Rightarrow> event \<Rightarrow> (string \<times> string list) list" where
  "dns_exfil_step per e =
     (case dns_query_of e of
        None \<Rightarrow> per
      | Some q \<Rightarrow>
          (case split_leftmost_label q of
             None \<Rightarrow> per
           | Some (label, parent) \<Rightarrow>
               if is_tunnel_like_label label then add_label per parent (to_ascii_lowercase label)
               else per))"

fun max_by_key :: "('a \<Rightarrow> nat) \<Rightarrow> 'a list \<Rightarrow> 'a option" where
  "max_by_key f [] = None"
| "max_by_key f (x # xs) =
     (case max_by_key f xs of None \<Rightarrow> Some x | Some y \<Rightarrow> Some (if f y < f x then x else y))"

definition rule_dns_exfil :: "pid \<Rightarrow> generation \<Rightarrow> event_bus \<Rightarrow> correlation_alert option" where
  "rule_dns_exfil pid gen bus =
     (let own = events_for_pid bus pid gen in
      if own = [] then None
      else
        (let comm = m_comm (meta (last own));
             per_parent = foldl dns_exfil_step [] own
         in case max_by_key (\<lambda>p. length (snd p)) per_parent of
              None \<Rightarrow> None
            | Some (parent, labels) \<Rightarrow>
                (let count = length labels in
                 if DNS_TUNNEL_MIN_QUERIES \<le> count then
                   Some (correlation_alert_of ''T1048.003/T1071.004'' Medium
                     (''pid='' @ show_nat pid @ '' comm='' @ comm @ '': '' @ show_nat count
                      @ '' distinct high-entropy subdomains of '' @ parent @ '' within the window ''
                      @ em_dash @ '' suspected DNS tunnelling / exfiltration''))
                 else None)))"

subsection \<open>Web shells\<close>

definition WEB_SERVER_COMMS :: "string list" where
  "WEB_SERVER_COMMS = [''nginx'', ''apache2'', ''httpd'', ''lighttpd'', ''php-cgi'']"

definition WEB_SERVER_COMM_PREFIXES :: "string list" where
  "WEB_SERVER_COMM_PREFIXES = [''php-fpm'']"

definition SHELL_NAMES :: "string list" where
  "SHELL_NAMES = [''sh'', ''bash'', ''dash'', ''zsh'', ''ash'']"

definition is_web_server_shell :: "exec_event \<Rightarrow> bool" where
  "is_web_server_shell exec =
     (case exec_parent_comm exec of
        None \<Rightarrow> False
      | Some parent \<Rightarrow>
          (let parent_is_web =
                 parent \<in> set WEB_SERVER_COMMS
                 \<or> list_ex (starts_with parent) WEB_SERVER_COMM_PREFIXES;
               name = after_last (CHR ''/'') (exec_image_path exec)
           in parent_is_web \<and> name \<in> set SHELL_NAMES))"

record web_shell_case =
  ws_pid :: pid
  ws_generation :: generation
  ws_timestamp_ns :: nat
  ws_alert :: correlation_alert

fun http_request_of :: "event \<Rightarrow> http_request_event option" where
  "http_request_of (HttpRequest r) = Some r"
| "http_request_of _ = None"

fun web_shell_exec_of :: "event \<Rightarrow> exec_event option" where
  "web_shell_exec_of (Exec x) = (if is_web_server_shell x then Some x else None)"
| "web_shell_exec_of _ = None"

fun min_by_key :: "('a \<Rightarrow> nat) \<Rightarrow> 'a list \<Rightarrow> 'a option" where
  "min_by_key f [] = None"
| "min_by_key f (x # xs) =
     (case min_by_key f xs of None \<Rightarrow> Some x | Some y \<Rightarrow> Some (if f y < f x then y else x))"

fun show_http_signature :: "http_signature \<Rightarrow> string" where
  "show_http_signature PathTraversal = ''PathTraversal''"
| "show_http_signature SqlInjection = ''SqlInjection''"
| "show_http_signature ScannerUserAgent = ''ScannerUserAgent''"
| "show_http_signature WebshellLike = ''WebshellLike''"

definition web_shell_message :: "exec_event \<Rightarrow> http_request_event \<Rightarrow> string" where
  "web_shell_message exec request =
     (let m = exec_meta exec;
          delta_s = abs_diff (m_timestamp_ns (http_request_meta request)) (m_timestamp_ns m) div 1000000000;
          client = (case http_request_client request of None \<Rightarrow> ''unknown'' | Some c \<Rightarrow> show_ip c);
          param = (case http_request_evidence request of None \<Rightarrow> []
                   | Some ev \<Rightarrow> '' param='' @ http_evidence_param ev)
      in ''pid='' @ show_nat (m_pid m) @ '' comm='' @ m_comm m @ '' parent=''
         @ (case exec_parent_comm exec of None \<Rightarrow> ''?'' | Some p \<Rightarrow> p)
         @ '': shell spawned by a web server '' @ show_nat delta_s @ ''s from a ''
         @ show_http_signature (http_request_signature request) @ '' request (''
         @ (case http_request_method request of None \<Rightarrow> ''?'' | Some x \<Rightarrow> x) @ '' ''
         @ http_request_path request @ param @ '', status '' @ show_nat (http_request_status request)
         @ '', client '' @ client @ '') '' @ em_dash
         @ '' suspected web shell or exploited web application'')"

definition web_shell_case_of :: "http_request_event list \<Rightarrow> exec_event \<Rightarrow> web_shell_case option" where
  "web_shell_case_of requests exec =
     (let m = exec_meta exec in
      map_option (\<lambda>request.
          \<lparr>ws_pid = m_pid m, ws_generation = process_generation m, ws_timestamp_ns = m_timestamp_ns m,
           ws_alert = correlation_alert_of ''T1505.003'' High (web_shell_message exec request)\<rparr>)
        (min_by_key (\<lambda>r. abs_diff (m_timestamp_ns (http_request_meta r)) (m_timestamp_ns m)) requests))"

definition rule_web_request_shell :: "event_bus \<Rightarrow> web_shell_case list" where
  "rule_web_request_shell bus =
     (let requests = List.map_filter http_request_of (bus_events bus) in
      if requests = [] then []
      else List.map_filter (web_shell_case_of requests) (List.map_filter web_shell_exec_of (bus_events bus)))"

subsection \<open>Entropy\<close>

definition char_share :: "string list \<Rightarrow> string \<Rightarrow> real" where
  "char_share cs c = real (count_list cs c) / real (length cs)"

lemma chars_of_nonempty [simp]: "s \<noteq> [] \<Longrightarrow> chars_of s \<noteq> []"
  by (cases s) auto

lemma shannon_entropy_sum:
  "s \<noteq> [] \<Longrightarrow> shannon_entropy s =
     (\<Sum>c \<in> set (chars_of s). - char_share (chars_of s) c * log 2 (char_share (chars_of s) c))"
  by (simp add: shannon_entropy_def Let_def char_share_def sum_list_distinct_conv_sum_set)

lemma char_share_pos: "c \<in> set cs \<Longrightarrow> 0 < char_share cs c"
  by (auto simp: char_share_def count_list_0_iff intro!: divide_pos_pos) (metis count_notin gr0I count_list_0_iff)

lemma char_share_sum: "cs \<noteq> [] \<Longrightarrow> (\<Sum>c \<in> set cs. char_share cs c) = 1"
proof -
  assume "cs \<noteq> []"
  moreover have "(\<Sum>c \<in> set cs. char_share cs c) = real (\<Sum>c \<in> set cs. count_list cs c) / real (length cs)"
    by (simp add: char_share_def sum_divide_distrib)
  ultimately show ?thesis by (simp add: sum_count_set [of cs "set cs"])
qed

text \<open>The share of one character contributes no more than it would in the uniform case.\<close>

lemma entropy_term_le:
  fixes p n :: real
  assumes "0 < p" and "0 < n"
  shows "- p * log 2 p \<le> p * log 2 n + (1 / n - p) / ln 2"
proof -
  have "ln (1 / (n * p)) \<le> 1 / (n * p) - 1" by (rule ln_le_minus_one) (simp add: assms)
  then have "p * ln (1 / (n * p)) \<le> p * (1 / (n * p) - 1)" using assms by (intro mult_left_mono) auto
  also have "\<dots> = 1 / n - p" using assms by (simp add: field_simps)
  finally have le: "p * (- ln n - ln p) \<le> 1 / n - p" using assms by (simp add: ln_div ln_mult)
  have "- p * log 2 p - p * log 2 n = p * (- ln n - ln p) / ln 2"
    by (simp add: log_def field_simps)
  also have "\<dots> \<le> (1 / n - p) / ln 2" using le by (intro divide_right_mono) auto
  finally show ?thesis by simp
qed

lemma shannon_entropy_le:
  assumes "s \<noteq> []"
  shows "shannon_entropy s \<le> log 2 (real (card (set (chars_of s))))"
proof -
  let ?cs = "chars_of s" and ?n = "real (card (set (chars_of s)))"
  have n: "0 < ?n" using assms by (simp add: card_gt_0_iff)
  have "shannon_entropy s \<le>
      (\<Sum>c \<in> set ?cs. char_share ?cs c * log 2 ?n + (1 / ?n - char_share ?cs c) / ln 2)"
    unfolding shannon_entropy_sum [OF assms]
    by (intro sum_mono entropy_term_le char_share_pos n)
  also have "\<dots> = log 2 ?n + (?n * (1 / ?n) - 1) / ln 2"
    using assms by (simp add: sum.distrib sum_distrib_right [symmetric] sum_divide_distrib [symmetric]
        sum_subtractf char_share_sum)
  finally show ?thesis using n assms by simp
qed

lemma char_share_le_1: "char_share cs c \<le> 1"
  by (simp add: char_share_def count_le_length divide_le_eq_1)

lemma shannon_entropy_ge_0: "0 \<le> shannon_entropy s"
proof (cases "s = []")
  case False
  then show ?thesis
    unfolding shannon_entropy_sum [OF False]
    by (intro sum_nonneg) (simp add: mult_nonneg_nonpos char_share_pos less_imp_le char_share_le_1)
qed (simp add: shannon_entropy_def)

lemma tunnel_label_distinct:
  assumes "is_tunnel_like_label label"
  shows "12 \<le> card (set (chars_of (to_ascii_lowercase label)))"
proof (rule ccontr)
  let ?l = "to_ascii_lowercase label"
  assume "\<not> ?thesis"
  then have c: "card (set (chars_of ?l)) \<le> 11" by simp
  have ne: "?l \<noteq> []" and ent: "35 / 10 < shannon_entropy ?l"
    using assms by (auto simp: is_tunnel_like_label_def DNS_TUNNEL_LABEL_MIN_ENTROPY_def
        DNS_TUNNEL_LABEL_MIN_LEN_def to_ascii_lowercase_def)
  have "0 < card (set (chars_of ?l))" using ne by (simp add: card_gt_0_iff)
  then have "log 2 (real (card (set (chars_of ?l)))) \<le> log 2 11" using c by simp
  also have "2 * log 2 11 = log 2 121"
    using log_nat_power [of 11 2 2] by simp
  then have "2 * log 2 11 \<le> log 2 128" by simp
  then have "log 2 11 \<le> 35 / 10" using log_pow_cancel [of 2 7] by simp
  finally show False using shannon_entropy_le [OF ne] ent by simp
qed

subsection \<open>What the DNS rule counts\<close>

definition tunnel_pair :: "event \<Rightarrow> (string \<times> string) option" where
  "tunnel_pair e =
     (case dns_query_of e of
        None \<Rightarrow> None
      | Some q \<Rightarrow> (case split_leftmost_label q of None \<Rightarrow> None
                   | Some (label, parent) \<Rightarrow>
                       if is_tunnel_like_label label then Some (parent, to_ascii_lowercase label) else None))"

definition tunnel_labels :: "event list \<Rightarrow> string \<Rightarrow> string set" where
  "tunnel_labels es parent = {label. Some (parent, label) \<in> tunnel_pair ` set es}"

lemma dns_exfil_step_pair:
  "dns_exfil_step per e = (case tunnel_pair e of None \<Rightarrow> per | Some (p, l) \<Rightarrow> add_label per p l)"
  by (auto simp: dns_exfil_step_def tunnel_pair_def split: option.splits prod.splits)

text \<open>The association list built so far agrees with the set of labels per parent.\<close>

definition per_parent_ok :: "(string \<times> string list) list \<Rightarrow> event list \<Rightarrow> bool" where
  "per_parent_ok per es \<longleftrightarrow>
     distinct (map fst per) \<and>
     (\<forall>p. (case map_of per p of
             None \<Rightarrow> tunnel_labels es p = {}
           | Some ls \<Rightarrow> distinct ls \<and> set ls = tunnel_labels es p))"

lemma tunnel_labels_snoc:
  "tunnel_labels (es @ [e]) p =
     tunnel_labels es p \<union> (case tunnel_pair e of None \<Rightarrow> {} | Some (q, l) \<Rightarrow> if q = p then {l} else {})"
  by (auto simp: tunnel_labels_def split: option.splits if_splits)

lemma per_parent_ok_step:
  assumes "per_parent_ok per es"
  shows "per_parent_ok (dns_exfil_step per e) (es @ [e])"
proof (cases "tunnel_pair e")
  case None
  then have eq: "tunnel_labels (es @ [e]) = tunnel_labels es" by (auto simp: tunnel_labels_snoc)
  show ?thesis using assms None unfolding per_parent_ok_def eq by (simp add: dns_exfil_step_pair)
next
  case (Some ql)
  obtain q l where ql: "ql = (q, l)" by (cases ql)
  have "case map_of (add_label per q l) p of None \<Rightarrow> tunnel_labels (es @ [e]) p = {}
      | Some ls \<Rightarrow> distinct ls \<and> set ls = tunnel_labels (es @ [e]) p" for p
    using assms Some ql
    by (cases "p = q"; cases "map_of per p")
       (auto simp: per_parent_ok_def add_label_def update_conv' tunnel_labels_snoc distinct_insert
         dest: spec [of _ p])
  moreover have "distinct (map fst (add_label per q l))"
    using assms by (simp add: per_parent_ok_def add_label_def distinct_update)
  ultimately show ?thesis using Some ql by (simp add: per_parent_ok_def dns_exfil_step_pair)
qed

lemma per_parent_ok_run: "per_parent_ok (foldl dns_exfil_step [] es) es"
proof (induction es rule: rev_induct)
  case Nil
  then show ?case by (simp add: per_parent_ok_def tunnel_labels_def)
next
  case (snoc e es)
  then show ?case using per_parent_ok_step [OF snoc.IH, of e] by simp
qed

lemma max_by_key_None [simp]: "max_by_key f xs = None \<longleftrightarrow> xs = []"
  by (cases xs) (auto split: option.splits)

lemma max_by_key_Some:
  "max_by_key f xs = Some y \<Longrightarrow> y \<in> set xs \<and> (\<forall>x \<in> set xs. f x \<le> f y)"
  by (induction xs arbitrary: y) (fastforce split: option.splits if_splits)+

lemma rule_dns_exfil_fires:
  "rule_dns_exfil p g b \<noteq> None \<longleftrightarrow>
     (\<exists>parent. DNS_TUNNEL_MIN_QUERIES \<le> card (tunnel_labels (events_for_pid b p g) parent))"
proof -
  let ?own = "events_for_pid b p g"
  let ?per = "foldl dns_exfil_step [] ?own"
  have ok: "per_parent_ok ?per ?own" by (rule per_parent_ok_run)
  have len: "length ls = card (tunnel_labels ?own q)" if "(q, ls) \<in> set ?per" for q ls
  proof -
    have "map_of ?per q = Some ls" using ok that by (simp add: per_parent_ok_def)
    then have "distinct ls \<and> set ls = tunnel_labels ?own q"
      using ok by (auto simp: per_parent_ok_def dest: spec [of _ q])
    then show ?thesis using distinct_card by metis
  qed
  have mem: "\<exists>ls. (q, ls) \<in> set ?per" if "DNS_TUNNEL_MIN_QUERIES \<le> card (tunnel_labels ?own q)" for q
  proof (cases "map_of ?per q")
    case None
    then have "tunnel_labels ?own q = {}" using ok by (auto simp: per_parent_ok_def dest: spec [of _ q])
    then show ?thesis using that by (simp add: DNS_TUNNEL_MIN_QUERIES_def)
  qed (blast dest: map_of_SomeD)
  have fires: "rule_dns_exfil p g b \<noteq> None \<longleftrightarrow>
      (\<exists>m. max_by_key (\<lambda>x. length (snd x)) ?per = Some m \<and> DNS_TUNNEL_MIN_QUERIES \<le> length (snd m))"
    by (cases "?own = []") (auto simp: rule_dns_exfil_def Let_def split: option.splits)
  show ?thesis
  proof
    assume "rule_dns_exfil p g b \<noteq> None"
    then obtain q ls where "max_by_key (\<lambda>x. length (snd x)) ?per = Some (q, ls)"
        and n: "DNS_TUNNEL_MIN_QUERIES \<le> length ls" unfolding fires by auto
    then have "(q, ls) \<in> set ?per" using max_by_key_Some by metis
    then show "\<exists>parent. DNS_TUNNEL_MIN_QUERIES \<le> card (tunnel_labels ?own parent)" using len n by metis
  next
    assume "\<exists>parent. DNS_TUNNEL_MIN_QUERIES \<le> card (tunnel_labels ?own parent)"
    then obtain q ls where q: "(q, ls) \<in> set ?per" "DNS_TUNNEL_MIN_QUERIES \<le> length ls"
      using mem len by metis
    then obtain m where m: "max_by_key (\<lambda>x. length (snd x)) ?per = Some m"
      by (cases "max_by_key (\<lambda>x. length (snd x)) ?per") auto
    then have "length ls \<le> length (snd m)" using max_by_key_Some [OF m] q(1) by fastforce
    then show "rule_dns_exfil p g b \<noteq> None" unfolding fires using m q(2) by auto
  qed
qed

subsection \<open>The other rules, read off the bus\<close>

lemma rule_fires:
  "rule_spawn_connect p g b \<noteq> None \<longleftrightarrow>
     list_ex is_exec (events_for_pid b p g) \<and> list_ex is_network_connect (events_for_pid b p g)"
  "rule_connect_filewrite p g b \<noteq> None \<longleftrightarrow>
     list_ex is_network_connect (events_for_pid b p g) \<and> list_ex writes_payload_file (events_for_pid b p g)"
  "rule_spawn_connect_filewrite p g b \<noteq> None \<longleftrightarrow>
     list_ex is_exec (events_for_pid b p g) \<and> list_ex is_network_connect (events_for_pid b p g) \<and>
     list_ex writes_payload_file (events_for_pid b p g)"
  "rule_assembly_connect p g b \<noteq> None \<longleftrightarrow>
     list_ex (\<lambda>e. assembly_of e \<noteq> None) (events_for_pid b p g) \<and> list_ex is_network_connect (events_for_pid b p g)"
  "rule_exec_smb p g b \<noteq> None \<longleftrightarrow>
     list_ex is_exec (events_for_pid b p g) \<and> list_ex (\<lambda>e. smb_server_of e \<noteq> None) (events_for_pid b p g)"
  "rule_assembly_smb p g b \<noteq> None \<longleftrightarrow>
     list_ex (\<lambda>e. assembly_of e \<noteq> None) (events_for_pid b p g) \<and>
     list_ex (\<lambda>e. smb_server_of e \<noteq> None) (events_for_pid b p g)"
  by (simp_all add: rule_spawn_connect_def rule_connect_filewrite_def rule_spawn_connect_filewrite_def
      rule_assembly_connect_def rule_exec_smb_def rule_assembly_smb_def Let_def)

lemma min_by_key_None [simp]: "min_by_key f xs = None \<longleftrightarrow> xs = []"
  by (cases xs) (auto split: option.splits)

lemma min_by_key_Some:
  "min_by_key f xs = Some y \<Longrightarrow> y \<in> set xs \<and> (\<forall>x \<in> set xs. f y \<le> f x)"
  by (induction xs arbitrary: y) (fastforce split: option.splits if_splits)+

subsection \<open>Sample events for the witnesses\<close>

definition sample_meta :: "nat \<Rightarrow> nat \<Rightarrow> nat \<Rightarrow> string \<Rightarrow> generation \<Rightarrow> event_meta" where
  "sample_meta p pp ts c g =
     \<lparr>m_pid = p, m_ppid = pp, m_user = Unknown_User, m_timestamp_ns = ts, m_comm = c, m_container = None,
      process_generation = g, parent_process_generation = None\<rparr>"

definition sample_exec :: "event_meta \<Rightarrow> string \<Rightarrow> string option \<Rightarrow> exec_event" where
  "sample_exec m path parent =
     \<lparr>exec_meta = m, exec_image_path = path, exec_cmdline = [], exec_argv = [], exec_parent_comm = parent,
      exec_parent_image_path = None, exec_sha256 = None, exec_signature = None, exec_env_security = []\<rparr>"

definition sample_request :: "event_meta \<Rightarrow> string \<Rightarrow> http_request_event" where
  "sample_request m path =
     \<lparr>http_request_meta = m, http_request_client = None, http_request_method = None,
      http_request_path = path, http_request_param_names = [], http_request_status = 200,
      http_request_signature = WebshellLike, http_request_evidence = None,
      http_request_scanner = None, http_request_truncated = False\<rparr>"

definition sample_connect :: "event_meta \<Rightarrow> connect_event" where
  "sample_connect m = \<lparr>connect_meta = m, connect_daddr = V4 203 0 113 7, connect_dport = 443\<rparr>"

lemmas sample_defs = sample_meta_def sample_exec_def sample_request_def sample_connect_def

subsection \<open>Properties of the rules\<close>

text \<open>
  The DNS rule fires exactly when some parent domain has at least ten distinct tunnel-like
  leftmost labels (compared without case) among the queries of this process incarnation in the
  window; repeated queries and queries of other domains do not add up.
\<close>

theorem dns_exfil_counts_distinct_labels:
  "rule_dns_exfil p g b \<noteq> None \<longleftrightarrow>
     (\<exists>parent. DNS_TUNNEL_MIN_QUERIES \<le>
        card {l. \<exists>e \<in> set (events_for_pid b p g). tunnel_pair e = Some (parent, l)})"
proof -
  have "{l. \<exists>e \<in> set (events_for_pid b p g). tunnel_pair e = Some (parent, l)} =
      tunnel_labels (events_for_pid b p g) parent" for parent
    by (auto simp: tunnel_labels_def image_iff) metis+
  then show ?thesis using rule_dns_exfil_fires by simp
qed

lemma count_list_distinct: "distinct xs \<Longrightarrow> x \<in> set xs \<Longrightarrow> count_list xs x = 1"
  by (induction xs) (auto simp: count_list_0_iff)

lemma shannon_entropy_distinct:
  assumes "s \<noteq> []" and "\<forall>c \<in> set s. \<not> is_continuation c" and "distinct s"
  shows "shannon_entropy s = log 2 (real (length s))"
proof -
  have cs: "chars_of s = map (\<lambda>c. [c]) s" by (rule chars_of_ascii) (rule assms(2))
  have d: "distinct (chars_of s)" using assms(3) by (simp add: cs distinct_map inj_on_def)
  have share: "char_share (chars_of s) c = 1 / length s" if "c \<in> set (chars_of s)" for c
    using count_list_distinct [OF d that] by (simp add: char_share_def cs)
  have "shannon_entropy s = (\<Sum>c \<in> set (chars_of s). - (1 / length s) * log 2 (1 / length s))"
    unfolding shannon_entropy_sum [OF assms(1)] by (rule sum.cong) (simp_all add: share)
  also have "\<dots> = log 2 (real (length s))"
    using assms(1) distinct_card [OF d] by (simp add: cs log_divide)
  finally show ?thesis .
qed

text \<open>
  The entropy estimate is non-negative and at most the logarithm of the number of distinct
  characters, so a label is taken for tunnelled data only when it is longer than 30 bytes and has
  at least twelve distinct characters (up to case): a label of decimal digits is never flagged.
\<close>

theorem tunnel_label_needs_distinct_characters:
  "0 \<le> shannon_entropy s \<and>
   (s \<noteq> [] \<longrightarrow> shannon_entropy s \<le> log 2 (real (card (set (chars_of s))))) \<and>
   (is_tunnel_like_label s \<longrightarrow>
      DNS_TUNNEL_LABEL_MIN_LEN < length s \<and> 12 \<le> card (set (chars_of (to_ascii_lowercase s))))"
  using shannon_entropy_ge_0 shannon_entropy_le tunnel_label_distinct is_tunnel_like_label_def by blast

theorem tunnel_label_needs_distinct_characters_witness:
  "12 \<le> card (set (chars_of (to_ascii_lowercase ''abcdefghijklmnopqrstuvwxyz012345'')))"
proof -
  let ?s = "''abcdefghijklmnopqrstuvwxyz012345''"
  have low: "to_ascii_lowercase ?s = ?s" by code_simp
  have "shannon_entropy ?s = log 2 (real (length ?s))"
    by (rule shannon_entropy_distinct) (simp_all add: is_continuation_def)
  also have "\<dots> = 5" using log_pow_cancel [of 2 5] by simp
  finally have "is_tunnel_like_label ?s"
    by (simp add: is_tunnel_like_label_def low DNS_TUNNEL_LABEL_MIN_ENTROPY_def DNS_TUNNEL_LABEL_MIN_LEN_def)
  then show ?thesis using tunnel_label_needs_distinct_characters [of ?s] by blast
qed

lemma set_map_filter: "y \<in> set (List.map_filter f xs) \<longleftrightarrow> (\<exists>x \<in> set xs. f x = Some y)"
  by (auto simp: List.map_filter_def image_iff)

lemma http_request_of_Some: "http_request_of e = Some r \<longleftrightarrow> e = HttpRequest r"
  by (cases e) auto

lemma web_shell_exec_of_Some: "web_shell_exec_of e = Some x \<longleftrightarrow> e = Exec x \<and> is_web_server_shell x"
  by (cases e) auto

text \<open>
  The web-shell rule pairs by time: every reported case is a web server's shell of the window
  with a request of the window that is closest in time to it, and every web server's shell of the
  window is reported as soon as the window holds a request.
\<close>

theorem web_shell_pairs_closest_request:
  "(\<forall>c \<in> set (rule_web_request_shell b). \<exists>x r.
      Exec x \<in> set (bus_events b) \<and> is_web_server_shell x \<and> HttpRequest r \<in> set (bus_events b) \<and>
      ws_pid c = m_pid (exec_meta x) \<and> ws_generation c = process_generation (exec_meta x) \<and>
      ws_timestamp_ns c = m_timestamp_ns (exec_meta x) \<and> al_message (ws_alert c) = web_shell_message x r \<and>
      (\<forall>r'. HttpRequest r' \<in> set (bus_events b) \<longrightarrow>
         abs_diff (m_timestamp_ns (http_request_meta r)) (m_timestamp_ns (exec_meta x)) \<le>
         abs_diff (m_timestamp_ns (http_request_meta r')) (m_timestamp_ns (exec_meta x)))) \<and>
   (\<forall>x r. Exec x \<in> set (bus_events b) \<and> is_web_server_shell x \<and> HttpRequest r \<in> set (bus_events b) \<longrightarrow>
      (\<exists>c \<in> set (rule_web_request_shell b). ws_pid c = m_pid (exec_meta x) \<and>
         ws_generation c = process_generation (exec_meta x) \<and>
         ws_timestamp_ns c = m_timestamp_ns (exec_meta x)))"
proof -
  let ?rs = "List.map_filter http_request_of (bus_events b)"
  have rs: "r \<in> set ?rs \<longleftrightarrow> HttpRequest r \<in> set (bus_events b)" for r
    by (auto simp: set_map_filter http_request_of_Some)
  have cases: "c \<in> set (rule_web_request_shell b) \<longleftrightarrow>
      (\<exists>x. Exec x \<in> set (bus_events b) \<and> is_web_server_shell x \<and> web_shell_case_of ?rs x = Some c)" for c
    by (auto simp: rule_web_request_shell_def Let_def set_map_filter web_shell_exec_of_Some
        web_shell_case_of_def)
  show ?thesis
  proof (intro conjI ballI allI impI, goal_cases)
    case (1 c)
    then obtain x where x: "Exec x \<in> set (bus_events b)" "is_web_server_shell x"
        and "web_shell_case_of ?rs x = Some c" unfolding cases by blast
    then obtain r where r: "min_by_key (\<lambda>r. abs_diff (m_timestamp_ns (http_request_meta r))
          (m_timestamp_ns (exec_meta x))) ?rs = Some r"
        and c: "c = \<lparr>ws_pid = m_pid (exec_meta x), ws_generation = process_generation (exec_meta x),
          ws_timestamp_ns = m_timestamp_ns (exec_meta x),
          ws_alert = correlation_alert_of ''T1505.003'' High (web_shell_message x r)\<rparr>"
      by (auto simp: web_shell_case_of_def Let_def)
    show ?case using x min_by_key_Some [OF r] rs c by (auto simp: correlation_alert_of_def)
  next
    case (2 x r)
    then have "?rs \<noteq> []" using rs by fastforce
    then obtain c where c: "web_shell_case_of ?rs x = Some c"
      by (cases "web_shell_case_of ?rs x") (auto simp: web_shell_case_of_def Let_def)
    moreover have "ws_pid c = m_pid (exec_meta x)" "ws_generation c = process_generation (exec_meta x)"
      "ws_timestamp_ns c = m_timestamp_ns (exec_meta x)"
      using c by (auto simp: web_shell_case_of_def Let_def)
    ultimately show ?case using 2 cases by blast
  qed
qed

theorem web_shell_pairs_closest_request_witness:
  "\<exists>c \<in> set (rule_web_request_shell (foldl bus_push (bus_new 60000000000)
      [HttpRequest (sample_request (sample_meta 0 0 5 ''nginx'' None) ''/a.php''),
       Exec (sample_exec (sample_meta 7 3 9 ''sh'' (Some 1)) ''/bin/sh'' (Some ''nginx''))])).
     ws_pid c = 7 \<and> ws_timestamp_ns c = 9"
proof -
  let ?r = "sample_request (sample_meta 0 0 5 ''nginx'' None) ''/a.php''"
  let ?x = "sample_exec (sample_meta 7 3 9 ''sh'' (Some 1)) ''/bin/sh'' (Some ''nginx'')"
  let ?b = "foldl bus_push (bus_new 60000000000) [HttpRequest ?r, Exec ?x]"
  have e: "bus_events ?b = [HttpRequest ?r, Exec ?x]"
    by (simp add: bus_push_fields bus_new_def sample_defs as_u64_def)
  have "is_web_server_shell ?x"
    by (simp add: is_web_server_shell_def sample_defs WEB_SERVER_COMMS_def SHELL_NAMES_def
        after_last_def)
  then have "\<exists>c \<in> set (rule_web_request_shell ?b). ws_pid c = m_pid (exec_meta ?x) \<and>
      ws_generation c = process_generation (exec_meta ?x) \<and> ws_timestamp_ns c = m_timestamp_ns (exec_meta ?x)"
    using web_shell_pairs_closest_request [of ?b] e by auto
  moreover have "m_pid (exec_meta ?x) = 7" "m_timestamp_ns (exec_meta ?x) = 9" by (simp_all add: sample_defs)
  ultimately show ?thesis by metis
qed

end
