(* ===== verification/Behavior.thy ===== *)
theory Behavior
  imports EventBus CorrRules
begin

text \<open>
  The behavioural vector of \<open>crates/correlator/src/behavior.rs\<close> and the naive Bayes filter of
  \<open>crates/correlator/src/bayes.rs\<close>. Features, log odds and the exponential decay are real
  numbers: no rounding, no overflow to infinity and no NaN.
\<close>

subsection \<open>The behavioural vector\<close>

record behavior_vector =
  has_exec :: real
  has_connect :: real
  has_filewrite :: real
  time_exec_to_connect_ms :: real
  time_exec_to_filewrite_ms :: real
  is_suspicious_path :: real
  connect_count :: real
  distinct_dports :: real
  dest_is_external :: real

definition to_vec :: "behavior_vector \<Rightarrow> real list" where
  "to_vec v =
     [has_exec v, has_connect v, has_filewrite v, time_exec_to_connect_ms v,
      time_exec_to_filewrite_ms v, is_suspicious_path v, connect_count v, distinct_dports v,
      dest_is_external v]"

definition bool_feature :: "bool \<Rightarrow> real" where
  "bool_feature b = (if b then 1 else 0)"

fun is_private_ipv4 :: "nat \<Rightarrow> nat \<Rightarrow> nat \<Rightarrow> nat \<Rightarrow> bool" where
  "is_private_ipv4 a b c d \<longleftrightarrow>
     (a = 0 \<and> b = 0 \<and> c = 0 \<and> d = 0) \<or> a = 10 \<or> (a = 172 \<and> 16 \<le> b \<and> b \<le> 31)
     \<or> (a = 192 \<and> b = 168) \<or> a = 127"

fun is_non_global_ipv6 :: "ip_addr \<Rightarrow> bool" where
  "is_non_global_ipv6 (V6 a b c d e f g h) \<longleftrightarrow>
     (a = 0 \<and> b = 0 \<and> c = 0 \<and> d = 0 \<and> e = 0 \<and> f = 0 \<and> g = 0 \<and> h = 1)
     \<or> is_unspecified (V6 a b c d e f g h)
     \<or> a AND 0xffc0 = 0xfe80 \<or> a AND 0xfe00 = 0xfc00 \<or> a AND 0xff00 = 0xff00"
| "is_non_global_ipv6 (V4 a b c d) \<longleftrightarrow> False"

fun is_external :: "ip_addr \<Rightarrow> bool" where
  "is_external (V4 a b c d) = (\<not> is_private_ipv4 a b c d)"
| "is_external (V6 a b c d e f g h) = (\<not> is_non_global_ipv6 (V6 a b c d e f g h))"

definition connect_features :: "connect_event list \<Rightarrow> real \<times> bool" where
  "connect_features cs =
     (let (dports, external) =
        foldl (\<lambda>(ds, x) c. (List.insert (connect_dport c) ds, x \<or> is_external (connect_daddr c))) ([], False) cs
      in (real (length dports), external))"

fun connect_of :: "event \<Rightarrow> connect_event option" where
  "connect_of (Connect c) = Some c"
| "connect_of _ = None"

fun exec_of :: "event \<Rightarrow> exec_event option" where
  "exec_of (Exec x) = Some x"
| "exec_of _ = None"

definition delta_ms :: "nat option \<Rightarrow> nat option \<Rightarrow> real" where
  "delta_ms a b = (case (a, b) of (Some f, Some t) \<Rightarrow> real (t - f) / 1000000 | _ \<Rightarrow> 0)"

definition timing_features :: "event list \<Rightarrow> connect_event list \<Rightarrow> real \<times> real" where
  "timing_features events connect_events =
     (let first_exec_ns = find_map (\<lambda>e. map_option (\<lambda>x. m_timestamp_ns (exec_meta x)) (exec_of e)) events;
          first_connect_ns =
            (case connect_events of [] \<Rightarrow> None | c # _ \<Rightarrow> Some (m_timestamp_ns (connect_meta c)));
          first_filewrite_ns = map_option ev_ts (find is_file_write events)
      in (delta_ms first_exec_ns first_connect_ns, delta_ms first_exec_ns first_filewrite_ns))"

definition is_suspicious_image_path :: "string \<Rightarrow> bool" where
  "is_suspicious_image_path path =
     (let lower = to_ascii_lowercase path in
      list_ex (contains lower) [''appdata'', win ''/temp/'', ''downloads'', ''desktop'', win ''/public/''])"

definition suspicious_path_feature :: "event list \<Rightarrow> real" where
  "suspicious_path_feature events =
     (case find_map (\<lambda>e. map_option (\<lambda>x. bool_feature (is_suspicious_image_path (exec_image_path x))) (exec_of e)) events of
        None \<Rightarrow> 0 | Some f \<Rightarrow> f)"

definition from_window :: "event list \<Rightarrow> behavior_vector option" where
  "from_window events =
     (if events = [] then None
      else
        (let connect_events = List.map_filter connect_of events;
             (dports, external) = connect_features connect_events;
             (to_connect, to_filewrite) = timing_features events connect_events
         in Some \<lparr>has_exec = bool_feature (list_ex is_exec events),
                  has_connect = bool_feature (connect_events \<noteq> []),
                  has_filewrite = bool_feature (list_ex is_file_write events),
                  time_exec_to_connect_ms = to_connect,
                  time_exec_to_filewrite_ms = to_filewrite,
                  is_suspicious_path = suspicious_path_feature events,
                  connect_count = real (length connect_events),
                  distinct_dports = dports,
                  dest_is_external = bool_feature external\<rparr>))"

subsection \<open>The belief\<close>

definition PRIOR_LOG_ODDS :: real where
  "PRIOR_LOG_ODDS = - 46 / 10"

definition DECAY_TAU_S :: real where
  "DECAY_TAU_S = 300"

definition BAYES_THRESHOLD :: real where
  "BAYES_THRESHOLD = 2"

record belief_state =
  log_odds :: real
  last_update_ns :: nat
  alerted :: bool

definition belief_new :: "nat \<Rightarrow> belief_state" where
  "belief_new now = \<lparr>log_odds = PRIOR_LOG_ODDS, last_update_ns = now, alerted = False\<rparr>"

definition probability :: "belief_state \<Rightarrow> real" where
  "probability b = (let odds = exp (log_odds b) in odds / (1 + odds))"

definition log_likelihood_ratio :: "nat \<Rightarrow> real \<Rightarrow> real" where
  "log_likelihood_ratio idx v =
     (if idx = 0 then 0
      else if idx = 1 then (if v > 0.5 then 1.19 else - 0.93)
      else if idx = 2 then 0
      else if idx = 3 then (if v > 0 \<and> v < 2000 then 1.90 else if v > 0 then - 0.22 else - 0.09)
      else if idx = 4 then 0
      else if idx = 5 then (if v > 0.5 then 3.60 else - 0.20)
      else if idx = 6 then (if v = 0 then - 0.96 else if v < 5 then 0.41 else if v < 15 then 2.22 else 0.87)
      else if idx = 7 then (if v \<le> 1 then 0.02 else if v \<le> 3 then - 0.54 else 0)
      else if idx = 8 then (if v > 0.5 then 1.23 else - 0.44)
      else 0)"

definition update_belief :: "belief_state \<Rightarrow> behavior_vector \<Rightarrow> real option \<Rightarrow> nat \<Rightarrow> belief_state" where
  "update_belief state v ml_llr now =
     (let dt_s = real (now - last_update_ns state) / 10 ^ 9;
          decay = 1 - exp (- dt_s / DECAY_TAU_S);
          lo = log_odds state + (PRIOR_LOG_ODDS - log_odds state) * decay;
          lo = foldl (\<lambda>acc (i, x). acc + log_likelihood_ratio i x) lo (enumerate 0 (to_vec v));
          lo = (case ml_llr of None \<Rightarrow> lo | Some llr \<Rightarrow> lo + llr)
      in state\<lparr>log_odds := lo, last_update_ns := now\<rparr>)"

definition apply_ml_llr :: "belief_state \<Rightarrow> real \<Rightarrow> belief_state" where
  "apply_ml_llr state llr = state\<lparr>log_odds := log_odds state + llr\<rparr>"

subsection \<open>Features of a window\<close>

lemma connect_features_fold:
  "foldl (\<lambda>(ds, x) c. (List.insert (connect_dport c) ds, x \<or> is_external (connect_daddr c))) (ds, x) cs =
     (fold List.insert (map connect_dport cs) ds, x \<or> list_ex (\<lambda>c. is_external (connect_daddr c)) cs)"
  by (induction cs arbitrary: ds x) auto

lemma fold_insert_set: "set (fold List.insert xs ds) = set xs \<union> set ds"
  by (induction xs arbitrary: ds) auto

lemma fold_insert_distinct: "distinct ds \<Longrightarrow> distinct (fold List.insert xs ds)"
  by (induction xs arbitrary: ds) auto

lemma connect_features_eq:
  "connect_features cs =
     (real (card (connect_dport ` set cs)), list_ex (\<lambda>c. is_external (connect_daddr c)) cs)"
  using distinct_card [OF fold_insert_distinct [of "[]" "map connect_dport cs"]]
  by (simp add: connect_features_def connect_features_fold fold_insert_set)

lemma find_map_None: "find_map f xs = None \<longleftrightarrow> (\<forall>x \<in> set xs. f x = None)"
  by (induction xs) (auto split: option.splits)

lemma find_map_mem: "find_map f xs = Some y \<Longrightarrow> \<exists>x \<in> set xs. f x = Some y"
  by (induction xs) (auto split: option.splits)

lemma connect_of_Some: "connect_of e = Some c \<longleftrightarrow> e = Connect c"
  by (cases e) auto

lemma exec_of_None: "exec_of e = None \<longleftrightarrow> \<not> is_exec e"
  by (cases e) auto

lemma delta_ms_nonneg [simp]: "0 \<le> delta_ms a b"
  by (auto simp: delta_ms_def split: option.splits)

lemma delta_ms_None [simp]: "delta_ms None b = 0" "delta_ms a None = 0"
  by (auto simp: delta_ms_def split: option.splits)

lemma from_window_Some:
  "from_window es = Some v \<longleftrightarrow> es \<noteq> [] \<and>
     v = \<lparr>has_exec = bool_feature (list_ex is_exec es),
          has_connect = bool_feature (List.map_filter connect_of es \<noteq> []),
          has_filewrite = bool_feature (list_ex is_file_write es),
          time_exec_to_connect_ms = fst (timing_features es (List.map_filter connect_of es)),
          time_exec_to_filewrite_ms = snd (timing_features es (List.map_filter connect_of es)),
          is_suspicious_path = suspicious_path_feature es,
          connect_count = real (length (List.map_filter connect_of es)),
          distinct_dports = real (card (connect_dport ` set (List.map_filter connect_of es))),
          dest_is_external = bool_feature (list_ex (\<lambda>c. is_external (connect_daddr c)) (List.map_filter connect_of es))\<rparr>"
  by (auto simp: from_window_def Let_def connect_features_eq split: prod.splits)

lemma from_window_total: "es \<noteq> [] \<Longrightarrow> \<exists>v. from_window es = Some v"
  by (simp add: from_window_Some)

lemma suspicious_path_feature_01: "suspicious_path_feature es \<in> {0, 1}"
  by (auto simp: suspicious_path_feature_def bool_feature_def split: option.splits dest!: find_map_mem)

fun is_connect :: "event \<Rightarrow> bool" where
  "is_connect (Connect _) = True"
| "is_connect _ = False"

text \<open>The milliseconds from the first event of one kind to the first of another; zero when one is missing.\<close>

definition delay_ms :: "(event \<Rightarrow> bool) \<Rightarrow> (event \<Rightarrow> bool) \<Rightarrow> event list \<Rightarrow> real" where
  "delay_ms P Q es =
     (case (find P es, find Q es) of (Some a, Some b) \<Rightarrow> real (ev_ts b - ev_ts a) / 1000000 | _ \<Rightarrow> 0)"

lemma find_map_exec: "find_map (\<lambda>e. map_option f (exec_of e)) es = map_option (\<lambda>e. f (the (exec_of e))) (find is_exec es)"
proof (induction es)
  case (Cons e es)
  then show ?case by (cases e) simp_all
qed simp

lemma find_exec_time: "map_option (\<lambda>e. m_timestamp_ns (exec_meta (the (exec_of e)))) (find is_exec es) = map_option ev_ts (find is_exec es)"
proof (induction es)
  case (Cons e es)
  then show ?case by (cases e) simp_all
qed simp

lemma connects_of_window:
  "(case List.map_filter connect_of es of [] \<Rightarrow> None | c # _ \<Rightarrow> Some (m_timestamp_ns (connect_meta c))) = map_option ev_ts (find is_connect es)"
  "length (List.map_filter connect_of es) = length (filter is_connect es)"
proof -
  have "(case List.map_filter connect_of es of [] \<Rightarrow> None | c # _ \<Rightarrow> Some (m_timestamp_ns (connect_meta c))) = map_option ev_ts (find is_connect es) \<and>
    length (List.map_filter connect_of es) = length (filter is_connect es)"
  proof (induction es)
    case (Cons e es)
    then show ?case by (cases e) (simp_all add: map_filter_simps)
  qed (simp add: map_filter_simps)
  then show "(case List.map_filter connect_of es of [] \<Rightarrow> None | c # _ \<Rightarrow> Some (m_timestamp_ns (connect_meta c))) = map_option ev_ts (find is_connect es)"
    "length (List.map_filter connect_of es) = length (filter is_connect es)" by blast+
qed

lemma set_connects: "set (List.map_filter connect_of es) = {c. Connect c \<in> set es}"
  by (auto simp: List.map_filter_def connect_of_Some image_iff) (metis connect_of.simps(1) option.sel)

lemma timing_features_eq:
  "timing_features es (List.map_filter connect_of es) = (delay_ms is_exec is_connect es, delay_ms is_exec is_file_write es)"
  by (simp add: timing_features_def Let_def find_map_exec find_exec_time connects_of_window delay_ms_def delta_ms_def split: option.split)

lemma suspicious_path_feature_eq:
  "suspicious_path_feature es =
     bool_feature (\<exists>x. find is_exec es = Some (Exec x) \<and> is_suspicious_image_path (exec_image_path x))"
proof (cases "find is_exec es")
  case None
  then show ?thesis by (simp add: suspicious_path_feature_def find_map_exec bool_feature_def)
next
  case (Some e)
  then have "is_exec e" by (simp add: find_Some_iff) blast
  then show ?thesis using Some by (cases e) (simp_all add: suspicious_path_feature_def find_map_exec bool_feature_def)
qed

text \<open>
  C29: Every feature of a window is what its name says. A window has a vector exactly when it is not
  empty. The flags tell whether there is an exec, a connection, a file opened for writing, a
  connection to an external address, and whether the first exec runs a suspicious image; the counts
  are the number of connections and of their distinct destination ports; the delays are those from
  the first exec to the first connection and to the first file write, zero when either end is
  missing or comes earlier.
\<close>

theorem behavior_vector_exact:
  "from_window es =
     (if es = [] then None
      else Some \<lparr>has_exec = bool_feature (\<exists>x. Exec x \<in> set es),
                 has_connect = bool_feature (\<exists>c. Connect c \<in> set es),
                 has_filewrite = bool_feature (\<exists>f. FileOpen f \<in> set es \<and> has_write_intent (file_open_flags f)),
                 time_exec_to_connect_ms = delay_ms is_exec is_connect es,
                 time_exec_to_filewrite_ms = delay_ms is_exec is_file_write es,
                 is_suspicious_path =
                   bool_feature (\<exists>x. find is_exec es = Some (Exec x) \<and> is_suspicious_image_path (exec_image_path x)),
                 connect_count = real (length (filter is_connect es)),
                 distinct_dports = real (card {connect_dport c |c. Connect c \<in> set es}),
                 dest_is_external = bool_feature (\<exists>c. Connect c \<in> set es \<and> is_external (connect_daddr c))\<rparr>)"
proof (cases "es = []")
  case False
  have kinds: "list_ex is_exec es \<longleftrightarrow> (\<exists>x. Exec x \<in> set es)"
      "list_ex is_file_write es \<longleftrightarrow> (\<exists>f. FileOpen f \<in> set es \<and> has_write_intent (file_open_flags f))"
    by (auto simp: list_ex_iff elim!: is_exec.elims is_file_write.elims intro: bexI [rotated])
  have connects: "List.map_filter connect_of es \<noteq> [] \<longleftrightarrow> (\<exists>c. Connect c \<in> set es)"
      "connect_dport ` set (List.map_filter connect_of es) = {connect_dport c |c. Connect c \<in> set es}"
      "list_ex (\<lambda>c. is_external (connect_daddr c)) (List.map_filter connect_of es) \<longleftrightarrow> (\<exists>c. Connect c \<in> set es \<and> is_external (connect_daddr c))"
    using set_connects [of es] by (auto simp: list_ex_iff simp flip: set_empty)
  have "from_window es = Some v \<longleftrightarrow> v =
      \<lparr>has_exec = bool_feature (list_ex is_exec es), has_connect = bool_feature (List.map_filter connect_of es \<noteq> []),
       has_filewrite = bool_feature (list_ex is_file_write es), time_exec_to_connect_ms = delay_ms is_exec is_connect es,
       time_exec_to_filewrite_ms = delay_ms is_exec is_file_write es, is_suspicious_path = suspicious_path_feature es,
       connect_count = real (length (List.map_filter connect_of es)),
       distinct_dports = real (card (connect_dport ` set (List.map_filter connect_of es))),
       dest_is_external = bool_feature (list_ex (\<lambda>c. is_external (connect_daddr c)) (List.map_filter connect_of es))\<rparr>" for v
    unfolding from_window_Some timing_features_eq using False by simp
  then show ?thesis
    unfolding kinds connects connects_of_window(2) suspicious_path_feature_eq using False by simp
qed (simp add: from_window_def)

subsection \<open>The belief update\<close>

definition evidence :: "behavior_vector \<Rightarrow> real" where
  "evidence v = (\<Sum>i < 9. log_likelihood_ratio i (to_vec v ! i))"

lemma evidence_sum:
  "evidence v = log_likelihood_ratio 1 (has_connect v) + log_likelihood_ratio 3 (time_exec_to_connect_ms v)
     + log_likelihood_ratio 5 (is_suspicious_path v) + log_likelihood_ratio 6 (connect_count v)
     + log_likelihood_ratio 7 (distinct_dports v) + log_likelihood_ratio 8 (dest_is_external v)"
proof -
  have "{..<9 :: nat} = {0, 1, 2, 3, 4, 5, 6, 7, 8}" by auto
  moreover have "log_likelihood_ratio 0 x = 0" "log_likelihood_ratio 2 x = 0" "log_likelihood_ratio 4 x = 0" for x
    by (simp_all add: log_likelihood_ratio_def)
  ultimately show ?thesis by (simp add: evidence_def to_vec_def)
qed

lemma llr_fold:
  "foldl (\<lambda>acc (i, x). acc + log_likelihood_ratio i x) lo (enumerate 0 (to_vec v)) = lo + evidence v"
  by (simp add: to_vec_def evidence_sum log_likelihood_ratio_def)

lemma llr_bounds:
  "- 93 / 100 \<le> log_likelihood_ratio 1 x \<and> log_likelihood_ratio 1 x \<le> 119 / 100"
  "- 22 / 100 \<le> log_likelihood_ratio 3 x \<and> log_likelihood_ratio 3 x \<le> 190 / 100"
  "- 20 / 100 \<le> log_likelihood_ratio 5 x \<and> log_likelihood_ratio 5 x \<le> 360 / 100"
  "- 96 / 100 \<le> log_likelihood_ratio 6 x \<and> log_likelihood_ratio 6 x \<le> 222 / 100"
  "- 54 / 100 \<le> log_likelihood_ratio 7 x \<and> log_likelihood_ratio 7 x \<le> 2 / 100"
  "- 44 / 100 \<le> log_likelihood_ratio 8 x \<and> log_likelihood_ratio 8 x \<le> 123 / 100"
  by (simp_all add: log_likelihood_ratio_def)

lemma evidence_bounds: "- 329 / 100 \<le> evidence v \<and> evidence v \<le> 1016 / 100"
  using llr_bounds(1) [of "has_connect v"] llr_bounds(2) [of "time_exec_to_connect_ms v"]
    llr_bounds(3) [of "is_suspicious_path v"] llr_bounds(4) [of "connect_count v"]
    llr_bounds(5) [of "distinct_dports v"] llr_bounds(6) [of "dest_is_external v"]
  unfolding evidence_sum by linarith

lemma update_belief_log_odds:
  "log_odds (update_belief s v m now) =
     PRIOR_LOG_ODDS + (log_odds s - PRIOR_LOG_ODDS) * exp (- (real (now - last_update_ns s) / 10 ^ 9) / DECAY_TAU_S)
     + evidence v + (case m of None \<Rightarrow> 0 | Some l \<Rightarrow> l)"
  by (simp add: update_belief_def Let_def llr_fold algebra_simps split: option.splits)

lemma update_belief_fields [simp]:
  "last_update_ns (update_belief s v m now) = now" "alerted (update_belief s v m now) = alerted s"
  by (simp_all add: update_belief_def Let_def)

text \<open>Without an exec from a suspicious path the evidence of one window stays below 66 / 10.\<close>

lemma evidence_plain_path:
  assumes "is_suspicious_path v \<le> 5 / 10"
  shows "evidence v \<le> 636 / 100"
proof -
  have "log_likelihood_ratio 5 (is_suspicious_path v) = - 20 / 100" using assms by (simp add: log_likelihood_ratio_def)
  then show ?thesis
    using llr_bounds(1) [of "has_connect v"] llr_bounds(2) [of "time_exec_to_connect_ms v"]
      llr_bounds(4) [of "connect_count v"] llr_bounds(5) [of "distinct_dports v"]
      llr_bounds(6) [of "dest_is_external v"]
    unfolding evidence_sum by linarith
qed

lemma evidence_no_connect:
  assumes "has_connect v \<le> 5 / 10" and "connect_count v = 0" and "dest_is_external v \<le> 5 / 10"
  shows "evidence v \<le> 32 / 10"
proof -
  have "log_likelihood_ratio 1 (has_connect v) = - 93 / 100" "log_likelihood_ratio 6 (connect_count v) = - 96 / 100"
    "log_likelihood_ratio 8 (dest_is_external v) = - 44 / 100"
    using assms by (simp_all add: log_likelihood_ratio_def)
  then show ?thesis
    using llr_bounds(2) [of "time_exec_to_connect_ms v"] llr_bounds(3) [of "is_suspicious_path v"]
      llr_bounds(5) [of "distinct_dports v"]
    unfolding evidence_sum by linarith
qed

lemma exp_two_lower: "(22 / 3 :: real) < exp 2"
proof -
  have "1 + 1 / 8 + (1 / 8)\<^sup>2 / 2 \<le> exp (1 / 8 :: real)" by (rule exp_lower_Taylor_quadratic) simp
  then have "(145 / 128 :: real) ^ 16 \<le> exp (1 / 8) ^ 16" by (intro power_mono) (simp_all add: power2_eq_square)
  also have "exp (1 / 8 :: real) ^ 16 = exp 2" by (simp add: exp_of_nat_mult [symmetric])
  finally have "(145 / 128 :: real) ^ 16 \<le> exp 2" .
  moreover have "(22 / 3 :: real) < (145 / 128) ^ 16" by (simp add: power_divide)
  ultimately show ?thesis by linarith
qed

lemma probability_threshold: "BAYES_THRESHOLD < log_odds s \<Longrightarrow> 88 / 100 < probability s"
proof -
  assume "BAYES_THRESHOLD < log_odds s"
  then have "exp 2 < exp (log_odds s)" by (simp add: BAYES_THRESHOLD_def)
  then have "22 / 3 < exp (log_odds s)" using exp_two_lower by linarith
  then show ?thesis by (simp add: probability_def Let_def field_simps)
qed

lemma probability_range: "0 < probability s \<and> probability s < 1"
  by (simp add: probability_def Let_def field_simps add_pos_pos)

text \<open>
  One update pulls the log odds towards the prior by a factor between 0 and 1 and then adds
  evidence between -3.29 and 10.16, whatever the vector. A fresh belief therefore crosses the
  alert threshold on its first window only when that window shows both an exec from a suspicious
  path and a connection; above the threshold the probability is more than 88 percent.
\<close>

theorem belief_update_bounds:
  assumes "from_window es = Some v"
  shows "(\<exists>d. 0 < d \<and> d \<le> 1 \<and>
      PRIOR_LOG_ODDS + (log_odds s - PRIOR_LOG_ODDS) * d - 329 / 100 \<le> log_odds (update_belief s v None now) \<and>
      log_odds (update_belief s v None now) \<le> PRIOR_LOG_ODDS + (log_odds s - PRIOR_LOG_ODDS) * d + 1016 / 100) \<and>
    (BAYES_THRESHOLD < log_odds (update_belief (belief_new t) v None now) \<longrightarrow>
       is_suspicious_path v = 1 \<and> has_connect v = 1 \<and>
       88 / 100 < probability (update_belief (belief_new t) v None now))"
proof (intro conjI impI)
  let ?d = "exp (- (real (now - last_update_ns s) / 10 ^ 9) / DECAY_TAU_S)"
  have "?d \<le> 1" by (simp add: DECAY_TAU_S_def)
  then show "\<exists>d. 0 < d \<and> d \<le> 1 \<and>
      PRIOR_LOG_ODDS + (log_odds s - PRIOR_LOG_ODDS) * d - 329 / 100 \<le> log_odds (update_belief s v None now) \<and>
      log_odds (update_belief s v None now) \<le> PRIOR_LOG_ODDS + (log_odds s - PRIOR_LOG_ODDS) * d + 1016 / 100"
    using evidence_bounds [of v] by (intro exI [of _ ?d]) (simp add: update_belief_log_odds)
next
  assume crossing: "BAYES_THRESHOLD < log_odds (update_belief (belief_new t) v None now)"
  then have e: "66 / 10 < evidence v"
    by (simp add: update_belief_log_odds belief_new_def PRIOR_LOG_ODDS_def BAYES_THRESHOLD_def)
  have v: "is_suspicious_path v \<in> {0, 1}" "has_connect v \<in> {0, 1}" "dest_is_external v \<in> {0, 1}"
      "dest_is_external v = 1 \<longrightarrow> has_connect v = 1" "has_connect v = 0 \<longrightarrow> connect_count v = 0"
    using assms suspicious_path_feature_01 [of es] unfolding from_window_Some by (auto simp: bool_feature_def)
  show "is_suspicious_path v = 1" using evidence_plain_path [of v] e v(1) by fastforce
  show "has_connect v = 1"
  proof (rule ccontr)
    assume "has_connect v \<noteq> 1"
    then have "has_connect v = 0" "dest_is_external v = 0" "connect_count v = 0" using v by auto
    then show False using evidence_no_connect [of v] e by simp
  qed
  show "88 / 100 < probability (update_belief (belief_new t) v None now)"
    by (rule probability_threshold) (rule crossing)
qed

theorem belief_update_bounds_witness:
  "\<exists>v. from_window [Exec (sample_exec (sample_meta 7 3 1000 ''a'' None) ''/home/u/downloads/a'' None),
       Connect (sample_connect (sample_meta 7 3 3000000 ''a'' None))] = Some v \<and>
     88 / 100 < probability (update_belief (belief_new 0) v None 0)"
proof -
  let ?es = "[Exec (sample_exec (sample_meta 7 3 1000 ''a'' None) ''/home/u/downloads/a'' None),
       Connect (sample_connect (sample_meta 7 3 3000000 ''a'' None))]"
  obtain v where v: "from_window ?es = Some v" using from_window_total by blast
  have susp: "is_suspicious_image_path ''/home/u/downloads/a''" by code_simp
  have "has_connect v = 1" "is_suspicious_path v = 1" "connect_count v = 1" "distinct_dports v = 1"
      "dest_is_external v = 1" "time_exec_to_connect_ms v = 2999000 / 1000000"
    using v susp unfolding from_window_Some
    by (auto simp: bool_feature_def suspicious_path_feature_def timing_features_def Let_def delta_ms_def sample_defs)
  then have "evidence v = 835 / 100" by (simp add: evidence_sum log_likelihood_ratio_def)
  then have "BAYES_THRESHOLD < log_odds (update_belief (belief_new 0) v None 0)"
    by (simp add: update_belief_log_odds belief_new_def PRIOR_LOG_ODDS_def BAYES_THRESHOLD_def)
  then show ?thesis using belief_update_bounds [OF v, of "belief_new 0" 0 0] v by blast
qed

end
