(* ===== verification/CorrEngine.thy ===== *)
theory CorrEngine
  imports Behavior Bounded
begin

text \<open>
  The correlation engine of \<open>crates/correlator/src/engine.rs\<close>: it records every correlated
  event on the bus, keeps the pid-to-entity table, the masquerade marks, the beliefs and the
  table of fired rules (all in bounded maps) and returns the alerts. The one panic the code can
  reach, the \<open>expect\<close> of \<open>get_or_insert_with\<close>, is the result \<open>None\<close>; it is proved
  unreachable.
\<close>

definition IGNORED :: "string list" where
  "IGNORED =
     [''svchost.exe'', ''SearchProtocolHost.exe'', ''MsMpEng.exe'', ''WmiPrvSE.exe'', ''taskhostw.exe'',
      ''backgroundTaskHost.exe'', ''RuntimeBroker.exe'', ''WindowsPackageManagerServer.exe'',
      ''SoftLandingTask.exe'', ''msedge.exe'', ''conhost.exe'', ''CrossDeviceServ'', ''SecurityHealthH'',
      ''System'', ''MoUsoCoreWorker'', ''backgroundTaskH'', ''nordvpn-service'']"

definition is_ignored :: "string \<Rightarrow> bool" where
  "is_ignored comm =
     (let name = after_last backslash comm in list_ex (\<lambda>i. eq_ignore_ascii_case name i) IGNORED)"

definition BAYES_NAME_EXCLUSIONS :: "string list" where
  "BAYES_NAME_EXCLUSIONS = [''wget'', ''chronyd'']"

definition is_bayes_excluded :: "string \<Rightarrow> bool" where
  "is_bayes_excluded comm =
     (let name = after_last backslash comm in list_ex (\<lambda>i. eq_ignore_ascii_case name i) BAYES_NAME_EXCLUSIONS)"

record 'v stamped =
  st_generation :: generation
  st_value :: 'v

definition stamp :: "generation \<Rightarrow> 'v \<Rightarrow> 'v stamped" where
  "stamp g v = \<lparr>st_generation = g, st_value = v\<rparr>"

definition current :: "'v stamped \<Rightarrow> generation \<Rightarrow> bool" where
  "current s gen = same_generation (st_generation s) gen"

record entity_ref =
  er_ppid :: pid
  er_comm :: string
  er_parent_generation :: generation

definition er_id :: "entity_ref \<Rightarrow> pid \<times> string" where
  "er_id r = (er_ppid r, er_comm r)"

record correlation_engine =
  ce_bus :: event_bus
  ce_window_ns :: nat
  beliefs :: "(pid \<times> string, belief_state stamped) bounded_map"
  pid_entities :: "(pid, entity_ref stamped) bounded_map"
  fired :: "(string \<times> pid, nat stamped) bounded_map"
  masquerading :: "(pid, generation) bounded_map"

definition ENTITY_CAP :: nat where
  "ENTITY_CAP = 65536"

definition BELIEF_CAP :: nat where
  "BELIEF_CAP = 16384"

definition with_window :: "nat \<Rightarrow> correlation_engine" where
  "with_window window =
     \<lparr>ce_bus = bus_new window, ce_window_ns = as_u64 window, beliefs = bm_empty BELIEF_CAP,
      pid_entities = bm_empty ENTITY_CAP, fired = bm_empty BELIEF_CAP, masquerading = bm_empty ENTITY_CAP\<rparr>"

definition engine_new :: correlation_engine where
  "engine_new = with_window (60 * 10 ^ 9)"

subsection \<open>Alerts, once per window\<close>

definition fire_once ::
    "nat \<Rightarrow> (string \<times> pid, nat stamped) bounded_map \<Rightarrow> string \<times> pid \<Rightarrow> generation \<Rightarrow> nat \<Rightarrow> correlation_alert
     \<Rightarrow> (string \<times> pid, nat stamped) bounded_map \<times> correlation_alert list" where
  "fire_once window_ns m key gen now alert =
     (let (m1, entry) = bm_get m key;
          recently = (case entry of None \<Rightarrow> False
                      | Some e \<Rightarrow> current e gen \<and> now - st_value e \<le> window_ns)
      in if recently then (m1, []) else (bm_insert m1 key (stamp gen now), [alert]))"

fun web_cases ::
    "nat \<Rightarrow> (string \<times> pid, nat stamped) bounded_map \<Rightarrow> web_shell_case list
     \<Rightarrow> (string \<times> pid, nat stamped) bounded_map \<times> correlation_alert list" where
  "web_cases window_ns m [] = (m, [])"
| "web_cases window_ns m (c # cs) =
     (let (m1, a) = fire_once window_ns m (''web_request_shell'', ws_pid c) (ws_generation c) (ws_timestamp_ns c) (ws_alert c);
          (m2, as) = web_cases window_ns m1 cs
      in (m2, a @ as))"

definition web_shell_alerts :: "correlation_engine \<Rightarrow> correlation_engine \<times> correlation_alert list" where
  "web_shell_alerts eng =
     (let (m, as) = web_cases (ce_window_ns eng) (fired eng) (rule_web_request_shell (ce_bus eng))
      in (eng\<lparr>fired := m\<rparr>, as))"

text \<open>
  One satisfied rule of \<open>evaluate\<close>, through the closure \<open>push_once\<close>: the alert goes out
  unless the same rule fired for this pid and incarnation within the window.
\<close>

definition push_once ::
    "nat \<Rightarrow> pid \<Rightarrow> generation \<Rightarrow> nat \<Rightarrow> string \<Rightarrow> correlation_alert option
     \<Rightarrow> (string \<times> pid, nat stamped) bounded_map \<times> correlation_alert list
     \<Rightarrow> (string \<times> pid, nat stamped) bounded_map \<times> correlation_alert list" where
  "push_once window_ns pid gen now rule_id alert acc =
     (case alert of
        None \<Rightarrow> acc
      | Some a \<Rightarrow>
          (let (m, as) = acc; (m1, new) = fire_once window_ns m (rule_id, pid) gen now a
           in (m1, as @ new)))"

text \<open>The rules of one evaluation in source order, with the branches already decided.\<close>

definition satisfied_rules :: "pid \<Rightarrow> generation \<Rightarrow> event_bus \<Rightarrow> (string \<times> correlation_alert option) list" where
  "satisfied_rules pid gen bus =
     (if rule_spawn_connect_filewrite pid gen bus \<noteq> None
      then [(''spawn_connect_filewrite'', rule_spawn_connect_filewrite pid gen bus)]
      else [(''spawn_connect'', rule_spawn_connect pid gen bus)])
     @ [(''connect_filewrite'', rule_connect_filewrite pid gen bus),
        (''respawn_connect'', rule_respawn_connect pid gen bus),
        (''dns_exfil'', rule_dns_exfil pid gen bus)]
     @ (if rule_assembly_smb pid gen bus \<noteq> None
        then [(''assembly_smb'', rule_assembly_smb pid gen bus)]
        else [(''assembly_connect'', rule_assembly_connect pid gen bus),
              (''exec_smb'', rule_exec_smb pid gen bus)])"

definition evaluate ::
    "correlation_engine \<Rightarrow> pid \<Rightarrow> generation \<Rightarrow> nat \<Rightarrow> correlation_engine \<times> correlation_alert list" where
  "evaluate eng pid gen now =
     (let (m, as) = foldl (\<lambda>acc (rule_id, alert). push_once (ce_window_ns eng) pid gen now rule_id alert acc)
                      (fired eng, []) (satisfied_rules pid gen (ce_bus eng))
      in (eng\<lparr>fired := m\<rparr>, as))"

subsection \<open>Beliefs\<close>

text \<open>The belief for an entity: the map with the slot fetched, and the slot.\<close>

definition belief_or_insert ::
    "correlation_engine \<Rightarrow> entity_ref \<Rightarrow> nat \<Rightarrow> correlation_engine \<times> belief_state stamped option" where
  "belief_or_insert eng entity now =
     (let key = er_id entity;
          stale = (case bm_peek (beliefs eng) key of None \<Rightarrow> False
                   | Some b \<Rightarrow> \<not> same_generation (st_generation b) (er_parent_generation entity));
          m1 = (if stale then fst (bm_remove (beliefs eng) key) else beliefs eng);
          (m2, slot) = bm_get_or_insert_with m1 key (stamp (er_parent_generation entity) (belief_new now))
      in case slot of
           None \<Rightarrow> (eng\<lparr>beliefs := m2\<rparr>, None)
         | Some entry \<Rightarrow>
             (let entry' = (if st_generation entry = None
                            then entry\<lparr>st_generation := er_parent_generation entity\<rparr> else entry)
              in (eng\<lparr>beliefs := bm_write m2 key entry'\<rparr>, Some entry')))"

definition belief_mut ::
    "correlation_engine \<Rightarrow> entity_ref \<Rightarrow> correlation_engine \<times> belief_state stamped option" where
  "belief_mut eng entity =
     (let (m1, entry) = bm_get_mut (beliefs eng) (er_id entity)
      in (eng\<lparr>beliefs := m1\<rparr>,
          case entry of None \<Rightarrow> None
          | Some e \<Rightarrow> if current e (er_parent_generation entity) then Some e else None))"

text \<open>Assigning through the reference to a belief.\<close>

definition set_belief :: "correlation_engine \<Rightarrow> entity_ref \<Rightarrow> belief_state stamped \<Rightarrow> belief_state \<Rightarrow> correlation_engine" where
  "set_belief eng entity slot b =
     eng\<lparr>beliefs := bm_write (beliefs eng) (er_id entity) (slot\<lparr>st_value := b\<rparr>)\<rparr>"

definition bayes_message :: "pid \<Rightarrow> string \<Rightarrow> belief_state \<Rightarrow> string" where
  "bayes_message pid comm b =
     ''pid='' @ show_nat pid @ '' comm='' @ comm @ '': high Bayesian score (log_odds=''
     @ fmt_fixed 2 (log_odds b) @ '', P='' @ fmt_fixed 0 (probability b * 100) @ ''%)''"

definition bayes_alert ::
    "correlation_engine \<Rightarrow> pid \<Rightarrow> string \<Rightarrow> entity_ref \<Rightarrow> correlation_engine \<times> correlation_alert option" where
  "bayes_alert eng pid comm entity =
     (let (eng1, slot) = belief_mut eng entity in
      case slot of
        None \<Rightarrow> (eng1, None)
      | Some e \<Rightarrow>
          (let b = st_value e in
           if BAYES_THRESHOLD < log_odds b \<and> \<not> alerted b then
             (set_belief eng1 entity e (b\<lparr>alerted := True\<rparr>),
              Some (correlation_alert_of ''BAYES'' Critical (bayes_message pid comm b)))
           else if log_odds b \<le> BAYES_THRESHOLD \<and> alerted b then
             (set_belief eng1 entity e (b\<lparr>alerted := False\<rparr>), None)
           else (eng1, None)))"

definition behavior_vector_for_pid :: "correlation_engine \<Rightarrow> pid \<Rightarrow> generation \<Rightarrow> behavior_vector option" where
  "behavior_vector_for_pid eng pid gen = from_window (events_for_pid (ce_bus eng) pid gen)"

definition is_masquerading :: "correlation_engine \<Rightarrow> pid \<Rightarrow> generation \<Rightarrow> bool" where
  "is_masquerading eng pid gen =
     (case bm_peek (masquerading eng) pid of None \<Rightarrow> False | Some r \<Rightarrow> same_generation r gen)"

text \<open>The greatest timestamp of the pid's events in the window, zero when there is none.\<close>

definition pid_now :: "correlation_engine \<Rightarrow> pid \<Rightarrow> generation \<Rightarrow> nat" where
  "pid_now eng pid gen = foldl max 0 (map ev_ts (events_for_pid (ce_bus eng) pid gen))"

text \<open>The entity of a pid: from the table when its entry is current, else the pid itself.\<close>

definition entity_lookup :: "correlation_engine \<Rightarrow> pid \<Rightarrow> generation \<Rightarrow> string \<Rightarrow> correlation_engine \<times> entity_ref" where
  "entity_lookup eng pid gen comm =
     (let (m, entry) = bm_get (pid_entities eng) pid;
          fallback = \<lparr>er_ppid = pid, er_comm = comm, er_parent_generation = gen\<rparr>
      in (eng\<lparr>pid_entities := m\<rparr>,
          case entry of None \<Rightarrow> fallback
          | Some e \<Rightarrow> if current e gen then st_value e else fallback))"

subsection \<open>The entry points\<close>

definition record_exec :: "correlation_engine \<Rightarrow> exec_event \<Rightarrow> correlation_engine" where
  "record_exec eng exec =
     (let m = exec_meta exec;
          pid = m_pid m;
          gen = process_generation m;
          comm = m_comm m;
          eng1 = (if m_ppid m \<noteq> 0
                  then eng\<lparr>pid_entities := bm_insert (pid_entities eng) pid
                         (stamp gen \<lparr>er_ppid = m_ppid m, er_comm = comm,
                                     er_parent_generation = parent_process_generation m\<rparr>)\<rparr>
                  else eng)
      in if (is_ignored comm \<or> is_bayes_excluded comm)
            \<and> (\<not> name_exclusion_applies (Some (exec_image_path exec))
               \<or> \<not> parent_exclusion_applies comm (exec_parent_comm exec))
         then eng1\<lparr>masquerading := bm_insert (masquerading eng1) pid gen\<rparr>
         else eng1)"

definition engine_push :: "correlation_engine \<Rightarrow> event \<Rightarrow> correlation_engine" where
  "engine_push eng event = eng\<lparr>ce_bus := bus_push (ce_bus eng) event\<rparr>"

text \<open>The belief update of \<open>on_event\<close>; \<open>None\<close> is the panic.\<close>

definition on_event_belief ::
    "correlation_engine \<Rightarrow> pid \<Rightarrow> generation \<Rightarrow> entity_ref \<Rightarrow> correlation_engine option" where
  "on_event_belief eng pid gen entity =
     (case behavior_vector_for_pid eng pid gen of
        None \<Rightarrow> Some eng
      | Some bv \<Rightarrow>
          (let now = pid_now eng pid gen; (eng1, slot) = belief_or_insert eng entity now in
           case slot of
             None \<Rightarrow> None
           | Some e \<Rightarrow> Some (set_belief eng1 entity e (update_belief (st_value e) bv None now))))"

definition on_event :: "correlation_engine \<Rightarrow> event \<Rightarrow> (correlation_engine \<times> correlation_alert list) option" where
  "on_event eng event =
     (if \<not> is_correlated event then Some (eng, [])
      else if http_request_of event \<noteq> None then Some (web_shell_alerts (engine_push eng event))
      else
        (let is_web_shell = (web_shell_exec_of event \<noteq> None);
             pid = m_pid (meta event);
             gen = process_generation (meta event);
             comm = m_comm (meta event);
             eng1 = (case exec_of event of None \<Rightarrow> eng | Some exec \<Rightarrow> record_exec eng exec);
             eng2 = engine_push eng1 event;
             (eng3, entity) = entity_lookup eng2 pid gen comm
         in case on_event_belief eng3 pid gen entity of
              None \<Rightarrow> None
            | Some eng4 \<Rightarrow>
                (let (eng5, web_alerts) = (if is_web_shell then web_shell_alerts eng4 else (eng4, [])) in
                 if is_ignored comm \<and> \<not> is_masquerading eng5 pid gen then Some (eng5, web_alerts)
                 else
                   (let now = pid_now eng5 pid gen;
                        (eng6, rule_alerts) = evaluate eng5 pid gen now
                    in if \<not> is_bayes_excluded comm \<or> is_masquerading eng6 pid gen
                       then (let (eng7, b) = bayes_alert eng6 pid comm entity
                             in Some (eng7, web_alerts @ rule_alerts
                                  @ (case b of None \<Rightarrow> [] | Some a \<Rightarrow> [a])))
                       else Some (eng6, web_alerts @ rule_alerts)))))"

text \<open>The result is \<open>True\<close> for \<open>Ok(())\<close> and \<open>False\<close> for \<open>Err(())\<close>.\<close>

definition update_belief_with_ml ::
    "correlation_engine \<Rightarrow> pid \<Rightarrow> generation \<Rightarrow> real option \<Rightarrow> correlation_engine \<times> bool" where
  "update_belief_with_ml eng pid gen ml_llr =
     (case ml_llr of
        None \<Rightarrow> (eng, True)
      | Some llr \<Rightarrow>
          (let own = events_for_pid (ce_bus eng) pid gen in
           if own = [] then (eng, False)
           else
             (let comm = m_comm (meta (last own));
                  (eng1, entity) = entity_lookup eng pid gen comm;
                  (eng2, slot) = belief_mut eng1 entity
              in case slot of
                   None \<Rightarrow> (eng2, False)
                 | Some e \<Rightarrow> (set_belief eng2 entity e (apply_ml_llr (st_value e) llr), True))))"

end
