(* ===== verification/Recency.thy ===== *)
theory Recency
  imports Bounded
begin

text \<open>
  How long an entry of the bounded map (\<open>crates/store/src/bounded.rs\<close>) survives: an entry with
  few newer ones is never a victim of an eviction pass. The clients that look an entry up again
  after a bounded number of other operations rely on this through the locale
  \<open>recency_store\<close>, which extends \<open>lru_store\<close>.
\<close>

text \<open>The map holds \<open>v\<close> for \<open>k\<close> and at most \<open>n\<close> entries were used later.\<close>

definition fresh :: "('k, 'v) bounded_map \<Rightarrow> 'k \<Rightarrow> 'v \<Rightarrow> nat \<Rightarrow> bool" where
  "fresh m k v n \<longleftrightarrow>
     (\<exists>t. (k, v, t) \<in> set (entries m) \<and> card {e \<in> set (entries m). t < snd (snd e)} \<le> n)"

text \<open>What an eviction pass leaves: the size of the map right after it.\<close>

definition room :: "('k, 'v) bounded_map \<Rightarrow> nat" where
  "room m = Suc (bm_cap m) - max (bm_cap m div 8) 1"

lemma fresh_mono: "fresh m k v n \<Longrightarrow> n \<le> n' \<Longrightarrow> fresh m k v n'"
  by (auto simp: fresh_def intro: order_trans)

locale recency_store = lru_store +
  fixes newest :: "'a \<Rightarrow> 'b \<Rightarrow> 'c \<Rightarrow> nat \<Rightarrow> bool"
    and spare :: "'a \<Rightarrow> nat"
  assumes newest_look: "invar m \<Longrightarrow> newest m k v n \<Longrightarrow> look m k = Some v"
    and newest_ins: "invar m \<Longrightarrow> newest (ins m k v) k v 0"
    and newest_ins_other: "invar m \<Longrightarrow> newest m k v n \<Longrightarrow> j \<noteq> k \<Longrightarrow> Suc n < spare m \<Longrightarrow>
      newest (ins m j w) k v (Suc n)"
    and newest_get: "invar m \<Longrightarrow> look m k = Some v \<Longrightarrow> newest (fst (get m k)) k v 0"
    and newest_get_other: "invar m \<Longrightarrow> newest m k v n \<Longrightarrow> newest (fst (get m j)) k v (Suc n)"
    and spare_ins: "spare (ins m k v) = spare m"
    and spare_get: "spare (fst (get m k)) = spare m"
begin

lemma newest_survives:
  "invar m \<Longrightarrow> newest m k v n \<Longrightarrow> k \<notin> fst ` set kvs \<Longrightarrow> n + length kvs < spare m \<Longrightarrow>
     newest (foldl (\<lambda>m (j, w). ins m j w) m kvs) k v (n + length kvs)"
proof (induction kvs arbitrary: m n)
  case (Cons e kvs)
  obtain j w where e: "e = (j, w)" by (cases e)
  have "newest (ins m j w) k v (Suc n)" using Cons.prems e by (intro newest_ins_other) auto
  then have "newest (foldl (\<lambda>m (j, w). ins m j w) (ins m j w) kvs) k v (Suc n + length kvs)"
    using Cons.prems by (intro Cons.IH) (auto simp: invar_ins spare_ins)
  then show ?case by (simp add: e)
qed simp

end

subsection \<open>The bounded map keeps fresh entries\<close>

lemma bm_insert_entries_subset:
  assumes "bm_wf m"
  shows "set (entries (bm_insert m j w)) \<subseteq> insert (j, w, Suc (tick m)) (set (entries m))"
  using assms set_update_subset [of j "(w, Suc (tick m))" "entries m"]
  by (cases rule: bm_insert_cases [where k = j and v = w]) (auto simp: bm_put_def entries_evict_batch)

lemma card_newer_mono:
  assumes "set es' \<subseteq> insert e (set es)" and "card {x \<in> set es. t < snd (snd x)} \<le> n"
  shows "card {x \<in> set es'. t < snd (snd x)} \<le> Suc n"
proof -
  have "card {x \<in> set es'. t < snd (snd x)} \<le> card (insert e {x \<in> set es. t < snd (snd x)})"
    using assms(1) by (intro card_mono) auto
  also have "\<dots> \<le> Suc (card {x \<in> set es. t < snd (snd x)})" by (rule card_insert_le_m1) auto
  finally show ?thesis using assms(2) by simp
qed

lemma fresh_not_victim:
  assumes wf: "bm_wf m" and len: "length (entries (bm_put m j w)) = Suc (bm_cap m)"
    and k: "(k, v, t) \<in> set (entries (bm_put m j w))"
    and few: "card {e \<in> set (entries (bm_put m j w)). t < snd (snd e)} < room m"
  shows "(k, v, t) \<in> set (entries (evict_batch (bm_put m j w)))"
proof (rule ccontr)
  let ?p = "bm_put m j w"
  assume "\<not> ?thesis"
  then have victim: "k \<in> victims ?p" using k by (simp add: entries_evict_batch)
  note ok = bm_put_facts(1) [OF wf, of j w]
  have "set (entries (evict_batch ?p)) \<subseteq> {e \<in> set (entries ?p). t < snd (snd e)}"
    using evict_batch_lru [OF ok k victim] by (auto simp: entries_evict_batch)
  then have "card (set (entries (evict_batch ?p))) \<le> card {e \<in> set (entries ?p). t < snd (snd e)}"
    by (intro card_mono) auto
  moreover have "distinct (entries (evict_batch ?p))"
    using ok by (auto simp: entries_ok_def entries_evict_batch distinct_map)
  then have "card (set (entries (evict_batch ?p))) = room m"
    using evict_batch_overfull(1) [OF ok] len bm_wfD(1) [OF wf] by (simp add: distinct_card room_def)
  ultimately show False using few by simp
qed

lemma fresh_insert_other:
  assumes wf: "bm_wf m" and f: "fresh m k v n" and jk: "j \<noteq> k" and few: "Suc n < room m"
  shows "fresh (bm_insert m j w) k v (Suc n)"
proof -
  obtain t where k: "(k, v, t) \<in> set (entries m)" and c: "card {e \<in> set (entries m). t < snd (snd e)} \<le> n"
    using f by (auto simp: fresh_def)
  have kp: "(k, v, t) \<in> set (entries (bm_put m j w))"
    using k jk bm_wfD(4) [OF wf] by (simp add: bm_put_def set_update_eq)
  have cp: "card {e \<in> set (entries (bm_put m j w)). t < snd (snd e)} \<le> Suc n"
    by (rule card_newer_mono [OF _ c, of _ "(j, w, Suc (tick m))"]) (simp add: bm_put_def set_update_subset)
  have "(k, v, t) \<in> set (entries (bm_insert m j w))"
    using wf
  proof (cases rule: bm_insert_cases [where k = j and v = w])
    case fits
    then show ?thesis using kp by simp
  next
    case evicts
    then show ?thesis using fresh_not_victim [OF wf evicts(2) kp] cp few by simp
  qed
  then show ?thesis
    using card_newer_mono [OF bm_insert_entries_subset [OF wf, of j w] c] by (auto simp: fresh_def)
qed

lemma fresh_insert:
  assumes wf: "bm_wf m"
  shows "fresh (bm_insert m k v) k v 0"
proof -
  have "bm_peek (bm_insert m k v) k = Some v" using wf by (rule bm.look_ins_same)
  then obtain t where t: "(k, v, t) \<in> set (entries (bm_insert m k v))"
    using bm_peek_iff [OF bm_wf_insert [OF wf]] by blast
  have "(k, v, t) \<in> set (AList.update k (v, Suc (tick m)) (entries m))"
    using wf t by (cases rule: bm_insert_cases [where k = k and v = v])
      (auto simp: bm_put_def entries_evict_batch)
  then have "t = Suc (tick m)"
    using set_update_eq [OF bm_wfD(4) [OF wf], of k "(v, Suc (tick m))"] by auto
  moreover have "snd (snd e) \<le> Suc (tick m)" if "e \<in> set (entries (bm_insert m k v))" for e
    using bm_wf_insert [OF wf, of k v] that by (auto simp: bm_wf_def entries_ok_def)
  ultimately have "{e \<in> set (entries (bm_insert m k v)). t < snd (snd e)} = {}" by fastforce
  then show ?thesis using t by (auto simp: fresh_def)
qed

lemma bm_get_entries:
  assumes "bm_wf m"
  shows "fst (bm_get m j) = (case bm_peek m j of None \<Rightarrow> m\<lparr>tick := Suc (tick m)\<rparr> | Some w \<Rightarrow> bm_put m j w)"
  by (auto simp: bm_get_def bm_peek_def bm_put_def next_tick_def Let_def split: option.splits)

lemma fresh_get:
  assumes wf: "bm_wf m" and k: "bm_peek m k = Some v"
  shows "fresh (fst (bm_get m k)) k v 0"
proof -
  have eq: "entries (fst (bm_get m k)) = AList.update k (v, Suc (tick m)) (entries m)"
    using k by (simp add: bm_get_entries [OF wf] bm_put_def)
  have "set (entries (fst (bm_get m k))) = insert (k, v, Suc (tick m)) {p \<in> set (entries m). fst p \<noteq> k}"
    unfolding eq by (rule set_update_eq) (rule bm_wfD(4) [OF wf])
  moreover have "snd (snd e) \<le> Suc (tick m)" if "e \<in> set (entries m)" for e
    using wf that by (auto simp: bm_wf_def entries_ok_def intro: le_SucI)
  ultimately have "{e \<in> set (entries (fst (bm_get m k))). Suc (tick m) < snd (snd e)} = {}"
    by fastforce
  then show ?thesis
    unfolding fresh_def using \<open>set (entries (fst (bm_get m k))) = _\<close>
    by (intro exI [of _ "Suc (tick m)"]) simp
qed

lemma fresh_get_other:
  assumes wf: "bm_wf m" and f: "fresh m k v n"
  shows "fresh (fst (bm_get m j)) k v (Suc n)"
proof (cases "j = k")
  case True
  have "bm_peek m k = Some v" using f bm_peek_iff [OF wf] by (auto simp: fresh_def)
  then have "fresh (fst (bm_get m k)) k v 0" by (rule fresh_get [OF wf])
  then show ?thesis using True by (auto intro: fresh_mono)
next
  case False
  obtain t where k: "(k, v, t) \<in> set (entries m)" and c: "card {e \<in> set (entries m). t < snd (snd e)} \<le> n"
    using f by (auto simp: fresh_def)
  show ?thesis
  proof (cases "bm_peek m j")
    case None
    then show ?thesis using f by (auto simp: bm_get_entries [OF wf] fresh_def intro: le_SucI)
  next
    case (Some w)
    have "card {e \<in> set (entries (bm_put m j w)). t < snd (snd e)} \<le> Suc n"
      by (rule card_newer_mono [OF _ c, of _ "(j, w, Suc (tick m))"]) (simp add: bm_put_def set_update_subset)
    moreover have "(k, v, t) \<in> set (entries (bm_put m j w))"
      using k False bm_wfD(4) [OF wf] by (simp add: bm_put_def set_update_eq)
    ultimately show ?thesis using Some by (auto simp: bm_get_entries [OF wf] fresh_def)
  qed
qed

lemma bm_cap_get [simp]: "bm_cap (fst (bm_get m k)) = bm_cap m"
  by (auto simp: bm_get_def next_tick_def Let_def split: option.splits)

interpretation bmr: recency_store bm_peek bm_insert bm_get bm_write bm_remove bm_get_or_insert_with
  bm_wf bm_len bm_cap fresh room
proof (unfold_locales, goal_cases)
  case (1 m k v n)
  then show ?case using bm_peek_iff [of m k v] by (auto simp: fresh_def)
qed (auto intro: fresh_insert fresh_insert_other fresh_get fresh_get_other simp: room_def)

lemma bm_extend_foldl: "bm_extend m kvs = foldl (\<lambda>m (k, v). bm_insert m k v) m kvs"
  by (induction m kvs rule: bm_extend.induct) simp_all

text \<open>
  A key that was just used survives any run of insertions of other keys that is shorter than
  what an eviction pass leaves (seven eighths of the capacity), with its value unchanged.
\<close>

theorem recently_used_survives:
  assumes "bm_wf m" and "bm_peek m k = Some v" and "k \<notin> fst ` set kvs"
    and "length kvs < Suc (bm_cap m) - max (bm_cap m div 8) 1"
  shows "bm_peek (bm_extend (fst (bm_get m k)) kvs) k = Some v"
proof -
  have "fresh (bm_extend (fst (bm_get m k)) kvs) k v (0 + length kvs)"
    unfolding bm_extend_foldl using assms
    by (intro bmr.newest_survives bmr.newest_get) (auto intro: inv_intros simp: room_def)
  moreover have "bm_wf (bm_extend (fst (bm_get m k)) kvs)" using assms(1) by (auto intro: inv_intros)
  ultimately show ?thesis by (rule bmr.newest_look [rotated])
qed

theorem recently_used_survives_witness:
  "bm_peek (bm_extend (fst (bm_get sample_map 1)) [(7, 70)]) 1 = bm_peek sample_map 1 \<and>
   bm_peek sample_map 1 \<noteq> None"
proof -
  have wf: "bm_wf sample_map" using sample_map_facts by simp
  have k: "bm_peek sample_map 1 = Some 10" by code_simp
  have "bm_cap sample_map \<ge> 2" by code_simp
  then have "length [(7 :: nat, 70 :: nat)] < Suc (bm_cap sample_map) - max (bm_cap sample_map div 8) 1" by auto
  then show ?thesis using recently_used_survives [OF wf k, of "[(7, 70)]"] k by simp
qed

end
