(* ===== verification/CorrContract.thy ===== *)
theory CorrContract
  imports CorrEngine Recency
begin

text \<open>
  What the correlation engine promises: it never panics, its tables stay within their bounds and
  its bus is the window of the correlated events; a rule alerts when it is satisfied and then
  keeps quiet for the window; exclusions by name are lifted for masquerading processes; beliefs
  are kept per incarnation of the parent and alert once per crossing of the threshold.
\<close>

subsection \<open>The invariant\<close>

definition engine_ok :: "correlation_engine \<Rightarrow> bool" where
  "engine_ok eng \<longleftrightarrow>
     bm_wf (beliefs eng) \<and> bm_cap (beliefs eng) = BELIEF_CAP \<and>
     bm_wf (pid_entities eng) \<and> bm_cap (pid_entities eng) = ENTITY_CAP \<and>
     bm_wf (fired eng) \<and> bm_cap (fired eng) = BELIEF_CAP \<and>
     bm_wf (masquerading eng) \<and> bm_cap (masquerading eng) = ENTITY_CAP"

lemma engine_ok_with_window: "engine_ok (with_window w)"
  by (simp add: engine_ok_def with_window_def BELIEF_CAP_def ENTITY_CAP_def bm_wf_empty)
     (simp add: bm_empty_def)

subsection \<open>Firing once\<close>

definition recent ::
    "nat \<Rightarrow> (string \<times> pid, nat stamped) bounded_map \<Rightarrow> string \<times> pid \<Rightarrow> generation \<Rightarrow> nat \<Rightarrow> bool" where
  "recent w m key gen now =
     (case bm_peek m key of None \<Rightarrow> False | Some e \<Rightarrow> current e gen \<and> now - st_value e \<le> w)"

lemma fire_once_eq:
  "fire_once w m key gen now a =
     (if recent w m key gen now then (fst (bm_get m key), [])
      else (bm_insert (fst (bm_get m key)) key (stamp gen now), [a]))"
proof -
  obtain m1 e where g: "bm_get m key = (m1, e)" by (cases "bm_get m key")
  have "bm_peek m key = e" using bm_get_result [of m key] g by simp
  then show ?thesis using g by (simp add: fire_once_def recent_def)
qed

lemma fire_once_ok:
  assumes "bm_wf m"
  shows "bm_wf (fst (fire_once w m key gen now a))" "bm_cap (fst (fire_once w m key gen now a)) = bm_cap m"
    "room (fst (fire_once w m key gen now a)) = room m"
  using assms by (auto simp: fire_once_eq room_def intro: inv_intros)

lemma fire_once_other:
  assumes "bm_wf m" and "j \<noteq> key"
  shows "bm_peek (fst (fire_once w m key gen now a)) j \<in> {None, bm_peek m j}"
  using bm.look_ins_other [OF bm_wf_get [OF assms(1)] assms(2)] by (auto simp: fire_once_eq)

lemma fire_once_fresh_other:
  assumes "bm_wf m" and "fresh m j e n" and "j \<noteq> key" and "n + 2 < room m"
  shows "fresh (fst (fire_once w m key gen now a)) j e (n + 2)"
proof -
  have g: "fresh (fst (bm_get m key)) j e (Suc n)" using assms by (intro bmr.newest_get_other)
  have "Suc (Suc n) < room (fst (bm_get m key))" using assms(4) by (simp add: room_def)
  then have "fresh (bm_insert (fst (bm_get m key)) key v) j e (Suc (Suc n))" for v
    using assms g by (intro bmr.newest_ins_other) (auto intro: inv_intros)
  moreover have "fresh (fst (bm_get m key)) j e (Suc (Suc n))" using g by (rule fresh_mono) simp
  ultimately show ?thesis by (simp add: fire_once_eq)
qed

lemma fire_once_fresh_same:
  assumes "bm_wf m" and "bm_peek m key = Some e" and "recent w m key gen now"
  shows "fresh (fst (fire_once w m key gen now a)) key e 0"
  using assms by (simp add: fire_once_eq bmr.newest_get)

lemma fire_once_fires:
  assumes "bm_wf m" and "\<not> recent w m key gen now"
  shows "snd (fire_once w m key gen now a) = [a]"
    "fresh (fst (fire_once w m key gen now a)) key (stamp gen now) 0"
  using assms by (auto simp: fire_once_eq intro!: bmr.newest_ins inv_intros)

subsection \<open>One evaluation\<close>

text \<open>The fold of \<open>evaluate\<close> over the satisfied rules.\<close>

abbreviation fire_all ::
    "nat \<Rightarrow> pid \<Rightarrow> generation \<Rightarrow> nat
     \<Rightarrow> (string \<times> pid, nat stamped) bounded_map \<times> correlation_alert list
     \<Rightarrow> (string \<times> correlation_alert option) list
     \<Rightarrow> (string \<times> pid, nat stamped) bounded_map \<times> correlation_alert list" where
  "fire_all w pid gen now \<equiv> foldl (\<lambda>acc (rule_id, alert). push_once w pid gen now rule_id alert acc)"

lemma push_once_Some:
  "push_once w pid gen now i (Some a) (m, as) =
     (fst (fire_once w m (i, pid) gen now a), as @ snd (fire_once w m (i, pid) gen now a))"
  by (simp add: push_once_def split: prod.splits)

lemma push_once_None [simp]: "push_once w pid gen now i None acc = acc"
  by (simp add: push_once_def)

lemma fire_all_ok:
  "bm_wf (fst acc) \<Longrightarrow> bm_wf (fst (fire_all w p g now acc rs)) \<and> bm_cap (fst (fire_all w p g now acc rs)) = bm_cap (fst acc)"
proof (induction rs arbitrary: acc)
  case (Cons r rs)
  obtain i al where r: "r = (i, al)" by (cases r)
  have "bm_wf (fst (push_once w p g now i al acc)) \<and> bm_cap (fst (push_once w p g now i al acc)) = bm_cap (fst acc)"
    using Cons.prems by (cases al; cases acc) (auto simp: push_once_Some fire_once_ok)
  then show ?case using Cons.IH [of "push_once w p g now i al acc"] by (simp add: r)
qed simp

lemma fire_all_keeps_alerts: "a \<in> set (snd acc) \<Longrightarrow> a \<in> set (snd (fire_all w p g now acc rs))"
proof (induction rs arbitrary: acc)
  case (Cons r rs)
  obtain i al where r: "r = (i, al)" by (cases r)
  have "a \<in> set (snd (push_once w p g now i al acc))"
    using Cons.prems by (cases al; cases acc) (auto simp: push_once_Some)
  then show ?case using Cons.IH by (simp add: r)
qed simp

lemma fire_all_fresh_other:
  assumes "bm_wf m" and "fresh m j e n" and "j \<notin> (\<lambda>r. (fst r, p)) ` set rs" and "n + 2 * length rs < room m"
  shows "fresh (fst (fire_all w p g now (m, as) rs)) j e (n + 2 * length rs)"
  using assms
proof (induction rs arbitrary: m as n)
  case (Cons r rs)
  obtain i al where r: "r = (i, al)" by (cases r)
  show ?case
  proof (cases al)
    case None
    have "fresh (fst (fire_all w p g now (m, as) rs)) j e (n + 2 * length rs)"
      using Cons.prems by (intro Cons.IH) auto
    then have "fresh (fst (fire_all w p g now (m, as) rs)) j e (n + 2 * length (r # rs))"
      by (rule fresh_mono) simp
    then show ?thesis using None r by simp
  next
    case (Some a)
    have "fresh (fst (fire_once w m (i, p) g now a)) j e (n + 2)"
      using Cons.prems r by (intro fire_once_fresh_other) auto
    then have "fresh (fst (fire_all w p g now (fst (fire_once w m (i, p) g now a),
        as @ snd (fire_once w m (i, p) g now a)) rs)) j e ((n + 2) + 2 * length rs)"
      using Cons.prems r by (intro Cons.IH) (auto simp: fire_once_ok)
    then show ?thesis using Some r by (simp add: push_once_Some)
  qed
qed simp

lemma not_recent_other:
  assumes "bm_wf m" and "\<not> recent w m j gen now" and "j \<noteq> key"
  shows "\<not> recent w (fst (fire_once w m key gen' now' a)) j gen now"
  using fire_once_other [OF assms(1,3), of w gen' now' a] assms(2) by (auto simp: recent_def split: option.splits)

text \<open>A satisfied rule that did not fire recently alerts, and the evaluation leaves its mark.\<close>

lemma fire_all_fires:
  assumes "bm_wf m" and "distinct (map fst rs)" and "(i, Some a) \<in> set rs"
    and "\<not> recent w m (i, p) g now" and "2 * length rs < room m"
  shows "a \<in> set (snd (fire_all w p g now (m, as) rs)) \<and>
    fresh (fst (fire_all w p g now (m, as) rs)) (i, p) (stamp g now) (2 * length rs)"
  using assms
proof (induction rs arbitrary: m as)
  case (Cons r rs)
  obtain j al where r: "r = (j, al)" by (cases r)
  let ?m = "case al of None \<Rightarrow> m | Some b \<Rightarrow> fst (fire_once w m (j, p) g now b)"
  let ?as = "case al of None \<Rightarrow> as | Some b \<Rightarrow> as @ snd (fire_once w m (j, p) g now b)"
  have step: "fire_all w p g now (m, as) (r # rs) = fire_all w p g now (?m, ?as) rs"
    by (cases al) (simp_all add: r push_once_Some)
  have ok: "bm_wf ?m" "room ?m = room m"
    using Cons.prems(1) by (auto simp: fire_once_ok split: option.splits)
  show ?case
  proof (cases "i = j")
    case True
    then have al: "al = Some a"
      using Cons.prems(2,3) r by (auto simp: image_iff)
    have f: "snd (fire_once w m (j, p) g now a) = [a]" "fresh ?m (i, p) (stamp g now) 0"
      using fire_once_fires [OF Cons.prems(1), of w "(j, p)" g now a] Cons.prems(4) True al by auto
    have "(i, p) \<notin> (\<lambda>r. (fst r, p)) ` set rs" using Cons.prems(2) True r by auto
    then have "fresh (fst (fire_all w p g now (?m, ?as) rs)) (i, p) (stamp g now) (0 + 2 * length rs)"
      using f(2) ok Cons.prems(5) by (intro fire_all_fresh_other) auto
    then have "fresh (fst (fire_all w p g now (?m, ?as) rs)) (i, p) (stamp g now) (2 * length (r # rs))"
      by (rule fresh_mono) simp
    moreover have "a \<in> set (snd (fire_all w p g now (?m, ?as) rs))"
      using f(1) al by (intro fire_all_keeps_alerts) simp
    ultimately show ?thesis unfolding step by simp
  next
    case False
    have nr: "\<not> recent w ?m (i, p) g now"
    proof (cases al)
      case (Some b)
      then show ?thesis
        using not_recent_other [OF Cons.prems(1,4), of "(j, p)" g now b] False by simp
    qed (use Cons.prems(4) in simp)
    have "a \<in> set (snd (fire_all w p g now (?m, ?as) rs)) \<and>
        fresh (fst (fire_all w p g now (?m, ?as) rs)) (i, p) (stamp g now) (2 * length rs)"
      using Cons.prems ok nr False r by (intro Cons.IH) auto
    then have "a \<in> set (snd (fire_all w p g now (?m, ?as) rs))"
      "fresh (fst (fire_all w p g now (?m, ?as) rs)) (i, p) (stamp g now) (2 * length (r # rs))"
      by (auto elim: fresh_mono)
    then show ?thesis unfolding step by simp
  qed
qed simp

text \<open>Rules whose mark is fresh and recent stay quiet.\<close>

lemma fire_all_silent:
  assumes "bm_wf m" and "\<forall>i \<in> K. \<exists>e. fresh m (i, p) e n \<and> current e g \<and> now - st_value e \<le> w"
    and "n + 2 * length rs < room m"
    and "b \<in> set (snd (fire_all w p g now (m, as) rs))"
  shows "b \<in> set as \<or> (\<exists>i. i \<notin> K \<and> (i, Some b) \<in> set rs)"
  using assms
proof (induction rs arbitrary: m as n)
  case (Cons r rs)
  obtain j al where r: "r = (j, al)" by (cases r)
  show ?case
  proof (cases al)
    case None
    then have "b \<in> set as \<or> (\<exists>i. i \<notin> K \<and> (i, Some b) \<in> set rs)"
      using Cons.prems r by (intro Cons.IH [of m n as]) auto
    then show ?thesis by auto
  next
    case (Some a)
    let ?f = "fire_once w m (j, p) g now a"
    have quiet: "recent w m (j, p) g now" if "j \<in> K"
      using Cons.prems(2) that bmr.newest_look [OF Cons.prems(1)] by (fastforce simp: recent_def)
    have "\<exists>e. fresh (fst ?f) (i, p) e (n + 2) \<and> current e g \<and> now - st_value e \<le> w" if i: "i \<in> K" for i
    proof -
      obtain e where e: "fresh m (i, p) e n" "current e g" "now - st_value e \<le> w" using Cons.prems(2) i by blast
      have "fresh (fst ?f) (i, p) e (n + 2)"
      proof (cases "i = j")
        case True
        have "fresh (fst ?f) (j, p) e 0"
          using quiet i e(1) bmr.newest_look [OF Cons.prems(1)] True by (intro fire_once_fresh_same [OF Cons.prems(1)]) auto
        then show ?thesis using True by (auto elim: fresh_mono)
      next
        case False
        then show ?thesis using e(1) Cons.prems(1,3) by (intro fire_once_fresh_other) auto
      qed
      then show ?thesis using e by blast
    qed
    then have "b \<in> set (as @ snd ?f) \<or> (\<exists>i. i \<notin> K \<and> (i, Some b) \<in> set rs)"
      using Cons.prems r Some
      by (intro Cons.IH [of "fst ?f" "n + 2"]) (auto simp: fire_once_ok push_once_Some)
    moreover have "snd ?f = [] \<or> (snd ?f = [a] \<and> j \<notin> K)" using quiet by (auto simp: fire_once_eq)
    ultimately show ?thesis using r Some by auto
  qed
qed simp

lemma satisfied_rules_shape: "distinct (map fst (satisfied_rules p g b))" "length (satisfied_rules p g b) \<le> 6"
  by (simp_all add: satisfied_rules_def)

lemma room_fired: "engine_ok eng \<Longrightarrow> room (fired eng) = 14337"
  by (simp add: engine_ok_def room_def BELIEF_CAP_def)

lemma evaluate_eq:
  "evaluate eng p g now =
     (eng\<lparr>fired := fst (fire_all (ce_window_ns eng) p g now (fired eng, []) (satisfied_rules p g (ce_bus eng)))\<rparr>,
      snd (fire_all (ce_window_ns eng) p g now (fired eng, []) (satisfied_rules p g (ce_bus eng))))"
  by (simp add: evaluate_def split: prod.splits)

lemma evaluate_ok: "engine_ok eng \<Longrightarrow> engine_ok (fst (evaluate eng p g now))"
  using fire_all_ok [of "(fired eng, [])"] by (simp add: engine_ok_def evaluate_eq)

lemma evaluate_fires:
  assumes "engine_ok eng" and "(i, Some a) \<in> set (satisfied_rules p g (ce_bus eng))"
    and "\<not> recent (ce_window_ns eng) (fired eng) (i, p) g now"
  shows "a \<in> set (snd (evaluate eng p g now))"
    "fresh (fired (fst (evaluate eng p g now))) (i, p) (stamp g now) 12"
proof -
  let ?rs = "satisfied_rules p g (ce_bus eng)"
  have "2 * length ?rs \<le> 12" using satisfied_rules_shape(2) [of p g "ce_bus eng"] by simp
  moreover have "a \<in> set (snd (fire_all (ce_window_ns eng) p g now (fired eng, []) ?rs)) \<and>
      fresh (fst (fire_all (ce_window_ns eng) p g now (fired eng, []) ?rs)) (i, p) (stamp g now) (2 * length ?rs)"
    using assms calculation room_fired [OF assms(1)]
    by (intro fire_all_fires satisfied_rules_shape) (auto simp: engine_ok_def)
  ultimately show "a \<in> set (snd (evaluate eng p g now))"
    "fresh (fired (fst (evaluate eng p g now))) (i, p) (stamp g now) 12"
    by (auto simp: evaluate_eq elim: fresh_mono)
qed

text \<open>
  C14: A rule that is satisfied in the window alerts, unless the same rule already alerted for this
  pid within the window and the incarnations do not differ: with no earlier alert on record, with
  one older than the window, or with one recorded for a different known incarnation of the pid,
  the alert goes out.
\<close>

theorem satisfied_rule_alerts:
  assumes "engine_ok eng" and "(i, Some a) \<in> set (satisfied_rules p g (ce_bus eng))"
    and "case bm_peek (fired eng) (i, p) of None \<Rightarrow> True
         | Some e \<Rightarrow> \<not> same_generation (st_generation e) g \<or> ce_window_ns eng < now - st_value e"
  shows "a \<in> set (snd (evaluate eng p g now)) \<and>
    bm_peek (fired (fst (evaluate eng p g now))) (i, p) = Some (stamp g now)"
proof -
  have nr: "\<not> recent (ce_window_ns eng) (fired eng) (i, p) g now"
    using assms(3) by (auto simp: recent_def current_def split: option.splits)
  have wf: "bm_wf (fired (fst (evaluate eng p g now)))"
    using evaluate_ok [OF assms(1)] by (simp add: engine_ok_def)
  show ?thesis
    using evaluate_fires(1) [OF assms(1,2) nr] bmr.newest_look [OF wf evaluate_fires(2) [OF assms(1,2) nr]] by simp
qed

text \<open>
  Once per window: a rule that alerted for a pid is silent in the next evaluation of that pid
  and incarnation, whatever arrived on the bus in between, until more than the window has
  passed; every alert of that evaluation comes from a rule that did not alert in the first.
\<close>

theorem rule_alerts_once_per_window:
  assumes "engine_ok eng" and "evaluate eng p g now = (eng', as)"
    and "evaluate (eng'\<lparr>ce_bus := bus\<rparr>) p g now' = (eng'', as')"
    and "now' - now \<le> ce_window_ns eng" and "b \<in> set as'"
  shows "\<exists>i. (i, Some b) \<in> set (satisfied_rules p g bus) \<and>
    ((\<exists>a. (i, Some a) \<in> set (satisfied_rules p g (ce_bus eng))) \<longrightarrow>
       recent (ce_window_ns eng) (fired eng) (i, p) g now)"
proof -
  let ?K = "{i. (\<exists>a. (i, Some a) \<in> set (satisfied_rules p g (ce_bus eng))) \<and>
      \<not> recent (ce_window_ns eng) (fired eng) (i, p) g now}"
  let ?e = "eng'\<lparr>ce_bus := bus\<rparr>"
  have eng': "eng' = fst (evaluate eng p g now)" using assms(2) by simp
  have ok: "engine_ok ?e" using evaluate_ok [OF assms(1)] eng' by (simp add: engine_ok_def)
  have w: "ce_window_ns ?e = ce_window_ns eng" using eng' by (simp add: evaluate_eq)
  have "\<exists>e. fresh (fired ?e) (i, p) e 12 \<and> current e g \<and> now' - st_value e \<le> ce_window_ns ?e" if i: "i \<in> ?K" for i
  proof -
    obtain a where a: "(i, Some a) \<in> set (satisfied_rules p g (ce_bus eng))"
      "\<not> recent (ce_window_ns eng) (fired eng) (i, p) g now" using i by auto
    show ?thesis
      using evaluate_fires(2) [OF assms(1) a] assms(4) w eng'
      by (intro exI [of _ "stamp g now"]) (simp add: stamp_def current_def)
  qed
  moreover have "12 + 2 * length (satisfied_rules p g bus) < room (fired ?e)"
    using room_fired [OF ok] satisfied_rules_shape(2) [of p g bus] by simp
  moreover have "b \<in> set (snd (fire_all (ce_window_ns ?e) p g now' (fired ?e, []) (satisfied_rules p g bus)))"
    using assms(3,5) by (auto simp: evaluate_eq)
  ultimately have "b \<in> set [] \<or> (\<exists>i. i \<notin> ?K \<and> (i, Some b) \<in> set (satisfied_rules p g bus))"
    using ok by (intro fire_all_silent [where n = 12]) (auto simp: engine_ok_def)
  then show ?thesis by auto
qed

subsection \<open>Each step keeps the invariant and its frame\<close>

text \<open>The parts a step after the recording leaves alone: bus, window and masquerade marks.\<close>

definition same_frame :: "correlation_engine \<Rightarrow> correlation_engine \<Rightarrow> bool" where
  "same_frame eng eng' \<longleftrightarrow>
     ce_bus eng' = ce_bus eng \<and> ce_window_ns eng' = ce_window_ns eng \<and> masquerading eng' = masquerading eng"

lemma same_frame_refl [simp]: "same_frame eng eng"
  by (simp add: same_frame_def)

lemma same_frame_trans: "same_frame a b \<Longrightarrow> same_frame b c \<Longrightarrow> same_frame a c"
  by (simp add: same_frame_def)

definition fire_case ::
    "nat \<Rightarrow> (string \<times> pid, nat stamped) bounded_map \<Rightarrow> web_shell_case
     \<Rightarrow> (string \<times> pid, nat stamped) bounded_map \<times> correlation_alert list" where
  "fire_case w m c = fire_once w m (''web_request_shell'', ws_pid c) (ws_generation c) (ws_timestamp_ns c) (ws_alert c)"

lemma web_cases_Cons:
  "web_cases w m (c # cs) =
     (fst (web_cases w (fst (fire_case w m c)) cs), snd (fire_case w m c) @ snd (web_cases w (fst (fire_case w m c)) cs))"
  by (simp add: fire_case_def split: prod.splits)

lemma web_cases_ok:
  "bm_wf m \<Longrightarrow> bm_wf (fst (web_cases w m cs)) \<and> bm_cap (fst (web_cases w m cs)) = bm_cap m"
  by (induction cs arbitrary: m) (simp_all add: web_cases_Cons fire_case_def fire_once_ok del: web_cases.simps(2))

lemma web_shell_alerts_ok:
  "engine_ok eng \<Longrightarrow> engine_ok (fst (web_shell_alerts eng)) \<and> same_frame eng (fst (web_shell_alerts eng))"
  using web_cases_ok [of "fired eng" "ce_window_ns eng" "rule_web_request_shell (ce_bus eng)"]
  by (auto simp: web_shell_alerts_def engine_ok_def same_frame_def split: prod.splits)

lemma web_cases_other:
  "bm_wf m \<Longrightarrow> i \<noteq> ''web_request_shell'' \<Longrightarrow> bm_peek m (i, q) = None \<Longrightarrow> bm_peek (fst (web_cases w m cs)) (i, q) = None"
proof (induction cs arbitrary: m)
  case (Cons c cs)
  have "bm_peek (fst (fire_case w m c)) (i, q) = None"
    using fire_once_other [OF Cons.prems(1), of "(i, q)" "(''web_request_shell'', ws_pid c)"] Cons.prems(2,3)
    by (auto simp: fire_case_def)
  then show ?case
    using Cons by (simp add: web_cases_Cons fire_case_def fire_once_ok del: web_cases.simps(2))
qed simp

lemma web_shell_alerts_other:
  "engine_ok eng \<Longrightarrow> i \<noteq> ''web_request_shell'' \<Longrightarrow> bm_peek (fired eng) (i, q) = None \<Longrightarrow>
     bm_peek (fired (fst (web_shell_alerts eng))) (i, q) = None"
  using web_cases_other [of "fired eng" i q "ce_window_ns eng" "rule_web_request_shell (ce_bus eng)"]
  by (auto simp: web_shell_alerts_def engine_ok_def split: prod.splits)

lemma evaluate_frame: "same_frame eng (fst (evaluate eng p g now))"
  by (simp add: evaluate_eq same_frame_def)

definition entity_of :: "correlation_engine \<Rightarrow> pid \<Rightarrow> generation \<Rightarrow> string \<Rightarrow> entity_ref" where
  "entity_of eng p g c = snd (entity_lookup eng p g c)"

lemma entity_lookup_eq: "entity_lookup eng p g c = (eng\<lparr>pid_entities := fst (bm_get (pid_entities eng) p)\<rparr>, entity_of eng p g c)"
  by (simp add: entity_lookup_def entity_of_def Let_def split: prod.splits)

lemma entity_lookup_ok:
  "engine_ok eng \<Longrightarrow> engine_ok (fst (entity_lookup eng p g c)) \<and> same_frame eng (fst (entity_lookup eng p g c))"
  by (simp add: entity_lookup_eq engine_ok_def same_frame_def bm_wf_get)

text \<open>The belief a lookup finds: the stored one, if it is of the right incarnation.\<close>

definition found_belief :: "correlation_engine \<Rightarrow> entity_ref \<Rightarrow> belief_state stamped option" where
  "found_belief eng r =
     (case bm_peek (beliefs eng) (er_id r) of None \<Rightarrow> None
      | Some e \<Rightarrow> if current e (er_parent_generation r) then Some e else None)"

lemma belief_mut_eq:
  "belief_mut eng r = (eng\<lparr>beliefs := fst (bm_get (beliefs eng) (er_id r))\<rparr>, found_belief eng r)"
proof -
  obtain m e where g: "bm_get (beliefs eng) (er_id r) = (m, e)" by (cases "bm_get (beliefs eng) (er_id r)")
  then have "bm_peek (beliefs eng) (er_id r) = e" using bm_get_result [of "beliefs eng" "er_id r"] by simp
  then show ?thesis using g by (simp add: belief_mut_def found_belief_def bm_get_mut_eq_get)
qed

lemma belief_mut_ok:
  "engine_ok eng \<Longrightarrow> engine_ok (fst (belief_mut eng r)) \<and> same_frame eng (fst (belief_mut eng r))"
  by (simp add: belief_mut_eq engine_ok_def same_frame_def bm_wf_get)

lemma set_belief_ok:
  "engine_ok eng \<Longrightarrow> engine_ok (set_belief eng r e b) \<and> same_frame eng (set_belief eng r e b)"
  by (simp add: set_belief_def engine_ok_def same_frame_def bm_wf_write)

lemma bayes_alert_ok:
  assumes "engine_ok eng"
  shows "engine_ok (fst (bayes_alert eng p c r)) \<and> same_frame eng (fst (bayes_alert eng p c r))"
proof -
  obtain eng1 slot where b: "belief_mut eng r = (eng1, slot)" by (cases "belief_mut eng r")
  then have "engine_ok eng1" "same_frame eng eng1" using belief_mut_ok [OF assms, of r] by auto
  then show ?thesis
    using set_belief_ok same_frame_trans b by (auto simp: bayes_alert_def Let_def split: option.splits)
qed

text \<open>The belief kept for an entity: the stored one unless it belongs to another incarnation.\<close>

definition kept_belief :: "correlation_engine \<Rightarrow> entity_ref \<Rightarrow> nat \<Rightarrow> belief_state" where
  "kept_belief eng r now =
     (case bm_peek (beliefs eng) (er_id r) of
        None \<Rightarrow> belief_new now
      | Some b \<Rightarrow> if same_generation (st_generation b) (er_parent_generation r) then st_value b else belief_new now)"

lemma belief_or_insert_slot:
  assumes ok: "engine_ok eng"
  obtains eng1 e where "belief_or_insert eng r now = (eng1, Some e)" "engine_ok eng1" "same_frame eng eng1"
    "st_value e = kept_belief eng r now" "current e (er_parent_generation r)"
    "bm_peek (beliefs eng1) (er_id r) = Some e"
    "st_generation e = None \<Longrightarrow> er_parent_generation r = None" "fired eng1 = fired eng"
proof -
  let ?k = "er_id r" and ?d = "stamp (er_parent_generation r) (belief_new now)"
  define stale where "stale = (case bm_peek (beliefs eng) ?k of None \<Rightarrow> False
      | Some b \<Rightarrow> \<not> same_generation (st_generation b) (er_parent_generation r))"
  define m1 where "m1 = (if stale then fst (bm_remove (beliefs eng) ?k) else beliefs eng)"
  have wf: "bm_wf (beliefs eng)" using ok by (simp add: engine_ok_def)
  then have wf1: "bm_wf m1" "bm_cap m1 = bm_cap (beliefs eng)" by (simp_all add: m1_def bm_wf_remove)
  define v where "v = (case bm_peek m1 ?k of None \<Rightarrow> ?d | Some b \<Rightarrow> b)"
  define e where "e = (if st_generation v = None then v\<lparr>st_generation := er_parent_generation r\<rparr> else v)"
  define m2 where "m2 = fst (bm_get_or_insert_with m1 ?k ?d)"
  have goi: "bm_get_or_insert_with m1 ?k ?d = (m2, Some v)"
    using bm.goi_result [OF wf1(1), of ?k ?d] by (simp add: m2_def v_def prod_eq_iff)
  have m2: "bm_wf m2" "bm_cap m2 = bm_cap (beliefs eng)" "bm_peek m2 ?k = Some v"
    using wf1 bm.look_goi_same [OF wf1(1), of ?k ?d] by (simp_all add: m2_def bm_wf_goi v_def)
  have r: "belief_or_insert eng r now = (eng\<lparr>beliefs := bm_write m2 ?k e\<rparr>, Some e)"
    unfolding belief_or_insert_def Let_def stale_def [symmetric] m1_def [symmetric] goi
    by (simp add: e_def)
  have val: "st_value e = kept_belief eng r now" "same_generation (st_generation v) (er_parent_generation r)"
    by (auto simp: e_def v_def m1_def stale_def kept_belief_def stamp_def split: option.splits)
  show ?thesis
  proof (rule that [OF r])
    show "engine_ok (eng\<lparr>beliefs := bm_write m2 ?k e\<rparr>)" using ok m2 by (simp add: engine_ok_def bm_wf_write)
    show "same_frame eng (eng\<lparr>beliefs := bm_write m2 ?k e\<rparr>)" by (simp add: same_frame_def)
    show "bm_peek (beliefs (eng\<lparr>beliefs := bm_write m2 ?k e\<rparr>)) ?k = Some e" using m2(3) by (simp add: bm.look_wr)
    show "current e (er_parent_generation r)" using val(2) by (auto simp: current_def e_def)
    show "st_value e = kept_belief eng r now" by (rule val(1))
  qed (auto simp: e_def split: if_splits)
qed

lemma on_event_belief_ok:
  assumes "engine_ok eng"
  shows "\<exists>eng'. on_event_belief eng p g r = Some eng' \<and> engine_ok eng' \<and> same_frame eng eng' \<and> fired eng' = fired eng"
proof (cases "behavior_vector_for_pid eng p g")
  case (Some bv)
  obtain eng1 e where b: "belief_or_insert eng r (pid_now eng p g) = (eng1, Some e)"
    "engine_ok eng1" "same_frame eng eng1" "fired eng1 = fired eng"
    using belief_or_insert_slot [OF assms] by metis
  moreover have "fired (set_belief eng1 r e v) = fired eng1" for v by (simp add: set_belief_def)
  ultimately show ?thesis
    using Some set_belief_ok [OF b(2), of r e] same_frame_trans [OF b(3)] by (simp add: on_event_belief_def)
qed (simp add: on_event_belief_def assms)

lemma record_exec_ok: "engine_ok eng \<Longrightarrow> engine_ok (record_exec eng x)"
  by (simp add: record_exec_def engine_ok_def Let_def bm_wf_insert)

lemma record_exec_frame [simp]:
  "ce_bus (record_exec eng x) = ce_bus eng" "ce_window_ns (record_exec eng x) = ce_window_ns eng"
  by (simp_all add: record_exec_def Let_def)

lemma engine_push_ok [simp]: "engine_ok (engine_push eng e) = engine_ok eng"
  by (simp add: engine_push_def engine_ok_def)

subsection \<open>A whole event\<close>

text \<open>The engine after the recording half of \<open>on_event\<close>.\<close>

definition recorded :: "correlation_engine \<Rightarrow> event \<Rightarrow> correlation_engine" where
  "recorded eng e =
     engine_push (case exec_of e of None \<Rightarrow> eng | Some x \<Rightarrow> record_exec eng x) e"

lemma recorded_ok: "engine_ok eng \<Longrightarrow> engine_ok (recorded eng e)"
  by (simp add: recorded_def record_exec_ok split: option.splits)

lemma recorded_fields [simp]:
  "ce_bus (recorded eng e) = bus_push (ce_bus eng) e" "ce_window_ns (recorded eng e) = ce_window_ns eng"
  by (simp_all add: recorded_def engine_push_def split: option.splits)

lemma web_case_technique: "c \<in> set (rule_web_request_shell b) \<Longrightarrow> al_technique (ws_alert c) = ''T1505.003''"
  by (auto simp: rule_web_request_shell_def Let_def set_map_filter web_shell_case_of_def
      correlation_alert_of_def split: if_splits)

lemma web_cases_alerts: "a \<in> set (snd (web_cases w m cs)) \<Longrightarrow> \<exists>c \<in> set cs. a = ws_alert c"
proof (induction cs arbitrary: m)
  case (Cons c cs)
  have "set (snd (fire_case w m c)) \<subseteq> {ws_alert c}" by (simp add: fire_case_def fire_once_eq)
  then show ?case using Cons by (auto simp: web_cases_Cons simp del: web_cases.simps(2))
qed simp

lemma web_shell_alerts_technique:
  "a \<in> set (snd (web_shell_alerts eng)) \<Longrightarrow> al_technique a = ''T1505.003''"
  using web_cases_alerts [of a "ce_window_ns eng" "fired eng" "rule_web_request_shell (ce_bus eng)"]
  by (auto simp: web_shell_alerts_def web_case_technique split: prod.splits)

text \<open>What is left of \<open>on_event\<close> after the belief update and the web-shell half.\<close>

definition finish_event ::
    "correlation_engine \<Rightarrow> pid \<Rightarrow> generation \<Rightarrow> string \<Rightarrow> entity_ref \<Rightarrow> correlation_alert list
     \<Rightarrow> correlation_engine \<times> correlation_alert list" where
  "finish_event eng p g c r web =
     (if is_ignored c \<and> \<not> is_masquerading eng p g then (eng, web)
      else
        (let (eng6, rule_alerts) = evaluate eng p g (pid_now eng p g) in
         if \<not> is_bayes_excluded c \<or> is_masquerading eng6 p g
         then (let (eng7, b) = bayes_alert eng6 p c r
               in (eng7, web @ rule_alerts @ (case b of None \<Rightarrow> [] | Some a \<Rightarrow> [a])))
         else (eng6, web @ rule_alerts)))"

lemma finish_event_ok:
  assumes "engine_ok eng"
  shows "engine_ok (fst (finish_event eng p g c r web)) \<and> same_frame eng (fst (finish_event eng p g c r web))"
proof -
  obtain eng6 as where e: "evaluate eng p g (pid_now eng p g) = (eng6, as)"
    by (cases "evaluate eng p g (pid_now eng p g)")
  obtain eng7 b where b: "bayes_alert eng6 p c r = (eng7, b)" by (cases "bayes_alert eng6 p c r")
  have 6: "engine_ok eng6" "same_frame eng eng6"
    using evaluate_ok [OF assms, of p g "pid_now eng p g"] evaluate_frame [of eng p g "pid_now eng p g"] e by auto
  then have "engine_ok eng7" "same_frame eng eng7"
    using bayes_alert_ok [of eng6 p c r] b same_frame_trans [of eng eng6 eng7] by auto
  then show ?thesis using 6 assms e b by (simp add: finish_event_def)
qed

lemma on_event_cases:
  assumes ok: "engine_ok eng" and corr: "is_correlated e" and nohttp: "http_request_of e = None"
  obtains eng5 r web where
    "on_event eng e = Some (finish_event eng5 (m_pid (meta e)) (process_generation (meta e)) (m_comm (meta e)) r web)"
    "engine_ok eng5" "same_frame (recorded eng e) eng5" "\<forall>a \<in> set web. al_technique a = ''T1505.003''"
    "web_shell_exec_of e = None \<longrightarrow> web = []"
    "\<forall>i q. i \<noteq> ''web_request_shell'' \<longrightarrow> bm_peek (fired eng) (i, q) = None \<longrightarrow> bm_peek (fired eng5) (i, q) = None"
proof -
  let ?p = "m_pid (meta e)" and ?g = "process_generation (meta e)" and ?c = "m_comm (meta e)"
  obtain eng3 r where k: "entity_lookup (recorded eng e) ?p ?g ?c = (eng3, r)"
    by (cases "entity_lookup (recorded eng e) ?p ?g ?c")
  then have 3: "engine_ok eng3" "same_frame (recorded eng e) eng3"
    using entity_lookup_ok [OF recorded_ok [OF ok, of e], of ?p ?g ?c] by auto
  obtain eng4 where 4: "on_event_belief eng3 ?p ?g r = Some eng4" "engine_ok eng4" "same_frame eng3 eng4" "fired eng4 = fired eng3"
    using on_event_belief_ok [OF 3(1)] by metis
  have fired4: "fired eng4 = fired eng"
    using 4(4) k by (simp add: entity_lookup_eq recorded_def engine_push_def record_exec_def Let_def
        split: option.splits if_splits) auto
  define res where "res = (if web_shell_exec_of e \<noteq> None then web_shell_alerts eng4 else (eng4, []))"
  have 5: "engine_ok (fst res)" "same_frame eng4 (fst res)" "\<forall>a \<in> set (snd res). al_technique a = ''T1505.003''"
    using web_shell_alerts_ok [OF 4(2)] 4(2) web_shell_alerts_technique by (auto simp: res_def)
  have "on_event eng e = Some (finish_event (fst res) ?p ?g ?c r (snd res))"
    using corr nohttp k 4(1)
    by (simp add: on_event_def recorded_def res_def finish_event_def Let_def split: prod.splits)
  then show ?thesis
  proof (rule that)
    show "same_frame (recorded eng e) (fst res)"
      using same_frame_trans [OF same_frame_trans [OF 3(2) 4(3)] 5(2)] .
    show "web_shell_exec_of e = None \<longrightarrow> snd res = []" by (simp add: res_def)
    show "\<forall>i q. i \<noteq> ''web_request_shell'' \<longrightarrow> bm_peek (fired eng) (i, q) = None \<longrightarrow> bm_peek (fired (fst res)) (i, q) = None"
      using web_shell_alerts_other [OF 4(2)] fired4 by (auto simp: res_def)
  qed (use 5 in auto)
qed

lemma on_event_ok:
  assumes "engine_ok eng"
  shows "\<exists>eng' as. on_event eng e = Some (eng', as) \<and> engine_ok eng' \<and>
    ce_bus eng' = (if is_correlated e then bus_push (ce_bus eng) e else ce_bus eng) \<and>
    ce_window_ns eng' = ce_window_ns eng"
proof (cases "is_correlated e")
  case True
  show ?thesis
  proof (cases "http_request_of e")
    case None
    obtain eng5 r web where 5:
      "on_event eng e = Some (finish_event eng5 (m_pid (meta e)) (process_generation (meta e)) (m_comm (meta e)) r web)"
      "engine_ok eng5" "same_frame (recorded eng e) eng5"
      using on_event_cases [OF assms True None] by metis
    have f: "engine_ok (fst (finish_event eng5 (m_pid (meta e)) (process_generation (meta e)) (m_comm (meta e)) r web))"
      "same_frame eng5 (fst (finish_event eng5 (m_pid (meta e)) (process_generation (meta e)) (m_comm (meta e)) r web))"
      using finish_event_ok [OF 5(2)] by auto
    show ?thesis
      using 5(1) f(1) same_frame_trans [OF 5(3) f(2)] True
      by (intro exI [of _ "fst (finish_event eng5 (m_pid (meta e)) (process_generation (meta e)) (m_comm (meta e)) r web)"]
          exI [of _ "snd (finish_event eng5 (m_pid (meta e)) (process_generation (meta e)) (m_comm (meta e)) r web)"])
         (simp add: same_frame_def)
  next
    case (Some r)
    have "engine_ok (fst (web_shell_alerts (engine_push eng e))) \<and>
        same_frame (engine_push eng e) (fst (web_shell_alerts (engine_push eng e)))"
      using assms by (intro web_shell_alerts_ok) simp
    then show ?thesis
      using Some True
      by (intro exI [of _ "fst (web_shell_alerts (engine_push eng e))"]
          exI [of _ "snd (web_shell_alerts (engine_push eng e))"])
         (simp add: on_event_def same_frame_def engine_push_def)
  qed
qed (simp add: on_event_def assms)

end
