(* ===== verification/CorrProps.thy ===== *)
theory CorrProps
  imports CorrContract
begin

text \<open>
  The properties of whole events of the correlation engine
  (\<open>crates/correlator/src/engine.rs\<close>) and the witnesses of \<open>CorrContract\<close>.
\<close>

text \<open>The caller's loop: one event after the other.\<close>

fun engine_run :: "correlation_engine \<Rightarrow> event list \<Rightarrow> (correlation_engine \<times> correlation_alert list) option" where
  "engine_run eng [] = Some (eng, [])"
| "engine_run eng (e # es) =
     (case on_event eng e of
        None \<Rightarrow> None
      | Some (eng1, as) \<Rightarrow>
          (case engine_run eng1 es of None \<Rightarrow> None | Some (eng2, bs) \<Rightarrow> Some (eng2, as @ bs)))"

lemma engine_run_ok:
  "engine_ok eng \<Longrightarrow> \<exists>eng' as. engine_run eng es = Some (eng', as) \<and> engine_ok eng' \<and>
     ce_bus eng' = foldl bus_push (ce_bus eng) (filter is_correlated es) \<and> ce_window_ns eng' = ce_window_ns eng"
proof (induction es arbitrary: eng)
  case (Cons e es)
  obtain eng1 as where 1: "on_event eng e = Some (eng1, as)" "engine_ok eng1"
    "ce_bus eng1 = (if is_correlated e then bus_push (ce_bus eng) e else ce_bus eng)"
    "ce_window_ns eng1 = ce_window_ns eng"
    using on_event_ok [OF Cons.prems, of e] by blast
  obtain eng2 bs where "engine_run eng1 es = Some (eng2, bs)" "engine_ok eng2"
    "ce_bus eng2 = foldl bus_push (ce_bus eng1) (filter is_correlated es)" "ce_window_ns eng2 = ce_window_ns eng1"
    using Cons.IH [OF 1(2)] by blast
  then show ?case using 1 by simp
qed simp

text \<open>
  C13: The engine processes every sequence of events without a panic. Its four tables stay within
  their capacities, and its bus is exactly the window of the correlated events, counted back
  from the greatest timestamp.
\<close>

theorem correlation_engine_total:
  "\<exists>eng as. engine_run (with_window w) es = Some (eng, as) \<and>
     bm_len (beliefs eng) \<le> BELIEF_CAP \<and> bm_len (fired eng) \<le> BELIEF_CAP \<and>
     bm_len (pid_entities eng) \<le> ENTITY_CAP \<and> bm_len (masquerading eng) \<le> ENTITY_CAP \<and>
     bus_events (ce_bus eng) =
       filter (\<lambda>e. latest (filter is_correlated es) - as_u64 w \<le> ev_ts e) (filter is_correlated es)"
proof -
  obtain eng as where r: "engine_run (with_window w) es = Some (eng, as)" "engine_ok eng"
    "ce_bus eng = foldl bus_push (ce_bus (with_window w)) (filter is_correlated es)"
    using engine_run_ok [OF engine_ok_with_window] by blast
  have "ce_bus (with_window w) = bus_new w" by (simp add: with_window_def)
  then have "bus_events (ce_bus eng) =
      filter (\<lambda>e. latest (filter is_correlated es) - as_u64 w \<le> ev_ts e) (filter is_correlated es)"
    using r(3) bus_run [of w "filter is_correlated es"] by simp
  moreover have "bm_len (beliefs eng) \<le> BELIEF_CAP" "bm_len (fired eng) \<le> BELIEF_CAP"
    "bm_len (pid_entities eng) \<le> ENTITY_CAP" "bm_len (masquerading eng) \<le> ENTITY_CAP"
    using r(2) bm.bounded [of "beliefs eng"] bm.bounded [of "fired eng"] bm.bounded [of "pid_entities eng"]
      bm.bounded [of "masquerading eng"] by (simp_all add: engine_ok_def)
  ultimately show ?thesis using r(1) by blast
qed

subsection \<open>Exclusions by name\<close>

lemma finish_event_silent:
  "is_ignored c \<Longrightarrow> \<not> is_masquerading eng p g \<Longrightarrow> finish_event eng p g c r web = (eng, web)"
  by (simp add: finish_event_def)

lemma is_masquerading_frame: "same_frame eng eng' \<Longrightarrow> is_masquerading eng' = is_masquerading eng"
  by (simp add: same_frame_def is_masquerading_def fun_eq_iff)

text \<open>
  Whether the process of an event is treated as masquerading: an exec marks it, when the name is one
  of the excluded ones and the image is known and untrusted or the parent is known and unexpected;
  an earlier mark of the same incarnation holds for all its events.
\<close>

definition borrows_name :: "exec_event \<Rightarrow> bool" where
  "borrows_name x \<longleftrightarrow> (is_ignored (m_comm (exec_meta x)) \<or> is_bayes_excluded (m_comm (exec_meta x))) \<and>
     (\<not> name_exclusion_applies (Some (exec_image_path x)) \<or> \<not> parent_exclusion_applies (m_comm (exec_meta x)) (exec_parent_comm x))"

definition marked_at :: "correlation_engine \<Rightarrow> event \<Rightarrow> bool" where
  "marked_at eng e \<longleftrightarrow> is_masquerading eng (m_pid (meta e)) (process_generation (meta e)) \<or>
     (case exec_of e of None \<Rightarrow> False | Some x \<Rightarrow> borrows_name x)"

lemma recorded_masquerading:
  assumes "engine_ok eng"
  shows "is_masquerading (recorded eng e) (m_pid (meta e)) (process_generation (meta e)) = marked_at eng e"
proof (cases "exec_of e")
  case None
  then show ?thesis by (simp add: recorded_def engine_push_def is_masquerading_def marked_at_def)
next
  case (Some x)
  then have e: "e = Exec x" by (cases e) auto
  have "bm_wf (masquerading eng)" using assms by (simp add: engine_ok_def)
  then show ?thesis
    by (simp add: e recorded_def engine_push_def is_masquerading_def record_exec_def Let_def bm.look_ins_same
        marked_at_def borrows_name_def)
qed

lemma unsilenced_evaluates:
  assumes "engine_ok eng5" and "\<not> is_ignored c \<or> is_masquerading eng5 p g"
    and "(i, Some a) \<in> set (satisfied_rules p g (ce_bus eng5))" and "bm_peek (fired eng5) (i, p) = None"
  shows "a \<in> set (snd (finish_event eng5 p g c r web))"
proof -
  have "\<not> recent (ce_window_ns eng5) (fired eng5) (i, p) g (pid_now eng5 p g)" using assms(4) by (simp add: recent_def)
  then have "a \<in> set (snd (evaluate eng5 p g (pid_now eng5 p g)))" using evaluate_fires(1) [OF assms(1)] assms(3) by simp
  then show ?thesis using assms(2) by (auto simp: finish_event_def Let_def split: prod.splits)
qed

text \<open>
  C28: An ignored name silences exactly the processes that are not marked as borrowing it. An exec
  under an ignored name marks its process when its image is known and not under a trusted path, or
  its parent is known and not an expected one (an empty image path and a missing parent name do not
  count against it), and the mark holds for every later event of the incarnation, connects and file
  writes included. At each correlated event but an HTTP request: a process that is not marked and has an ignored name raises no
  rule and no Bayes alert, only web-shell alerts remain; at every other event, of a marked process
  or under a name that is not ignored, each rule the window satisfies that has no earlier alert on
  record for the pid does alert.
\<close>

theorem ignored_names_cannot_be_borrowed:
  assumes "engine_ok eng" and "is_correlated e" and "http_request_of e = None"
  shows "\<exists>eng' as. on_event eng e = Some (eng', as) \<and>
    is_masquerading eng' (m_pid (meta e)) (process_generation (meta e)) = marked_at eng e \<and>
    (if is_ignored (m_comm (meta e)) \<and> \<not> marked_at eng e
     then \<forall>a \<in> set as. al_technique a = ''T1505.003''
     else \<forall>i a. (i, Some a) \<in> set (satisfied_rules (m_pid (meta e)) (process_generation (meta e)) (bus_push (ce_bus eng) e)) \<and>
          bm_peek (fired eng) (i, m_pid (meta e)) = None \<longrightarrow> a \<in> set as)"
proof -
  let ?p = "m_pid (meta e)" and ?g = "process_generation (meta e)" and ?c = "m_comm (meta e)"
  obtain eng5 r web where 5: "on_event eng e = Some (finish_event eng5 ?p ?g ?c r web)" "engine_ok eng5"
    "same_frame (recorded eng e) eng5" "\<forall>a \<in> set web. al_technique a = ''T1505.003''"
    "\<forall>i q. i \<noteq> ''web_request_shell'' \<longrightarrow> bm_peek (fired eng) (i, q) = None \<longrightarrow> bm_peek (fired eng5) (i, q) = None"
    by (rule on_event_cases [OF assms])
  let ?f = "finish_event eng5 ?p ?g ?c r web"
  have mask: "is_masquerading eng5 ?p ?g = marked_at eng e"
    using is_masquerading_frame [OF 5(3)] recorded_masquerading [OF assms(1)] by simp
  have after: "is_masquerading (fst ?f) ?p ?g = marked_at eng e"
    using is_masquerading_frame finish_event_ok [OF 5(2)] mask by metis
  have bus: "ce_bus eng5 = bus_push (ce_bus eng) e" using 5(3) by (simp add: same_frame_def)
  have loud: "a \<in> set (snd ?f)" if "\<not> is_ignored ?c \<or> marked_at eng e"
      "(i, Some a) \<in> set (satisfied_rules ?p ?g (bus_push (ce_bus eng) e))" "bm_peek (fired eng) (i, ?p) = None" for i a
  proof (rule unsilenced_evaluates [OF 5(2)])
    have "i \<noteq> ''web_request_shell''" using that(2) by (auto simp: satisfied_rules_def split: if_splits)
    then show "bm_peek (fired eng5) (i, ?p) = None" using 5(5) that(3) by blast
  qed (use that mask bus in auto)
  have silent: "\<forall>a \<in> set (snd ?f). al_technique a = ''T1505.003''" if "is_ignored ?c" "\<not> marked_at eng e"
    using finish_event_silent [OF that(1)] that(2) mask 5(4) by simp
  show ?thesis
    by (rule exI [of _ "fst ?f"], rule exI [of _ "snd ?f"]) (use 5(1) after silent loud in auto)
qed

subsection \<open>Beliefs\<close>

lemma found_belief_peek:
  "bm_peek (beliefs eng) (er_id r) = Some e \<Longrightarrow> current e (er_parent_generation r) \<Longrightarrow> found_belief eng r = Some e"
  by (simp add: found_belief_def)

lemma found_set_belief:
  assumes "found_belief eng r = Some e"
  shows "found_belief (set_belief eng r e b) r = Some (e\<lparr>st_value := b\<rparr>)"
proof -
  have "bm_peek (beliefs eng) (er_id r) = Some e" "current e (er_parent_generation r)"
    using assms by (auto simp: found_belief_def split: option.splits if_splits)
  then show ?thesis by (simp add: found_belief_def set_belief_def bm.look_wr current_def)
qed

lemma found_belief_get:
  "found_belief (eng\<lparr>beliefs := fst (bm_get (beliefs eng) k)\<rparr>) r = found_belief eng r"
  by (simp add: found_belief_def)

text \<open>
  The Bayes alert goes out on a rising edge only. It is raised exactly when the entity has a
  belief of this parent incarnation that is above the threshold and not flagged; after the call
  the log odds are unchanged and the flag says whether the belief is above the threshold, so
  the next alert needs the belief to have been seen below the threshold in between. An alert is
  critical and means a probability above 88 percent.
\<close>

theorem bayes_alert_on_rising_edge:
  "(case found_belief eng r of
      None \<Rightarrow> snd (bayes_alert eng p c r) = None \<and> found_belief (fst (bayes_alert eng p c r)) r = None
    | Some e \<Rightarrow>
        (snd (bayes_alert eng p c r) = None) = (log_odds (st_value e) \<le> BAYES_THRESHOLD \<or> alerted (st_value e)) \<and>
        found_belief (fst (bayes_alert eng p c r)) r =
          Some (e\<lparr>st_value := (st_value e)\<lparr>alerted := (BAYES_THRESHOLD < log_odds (st_value e))\<rparr>\<rparr>) \<and>
        (case snd (bayes_alert eng p c r) of None \<Rightarrow> True
         | Some a \<Rightarrow> al_severity a = Critical \<and> 88 / 100 < probability (st_value e)))"
proof (cases "found_belief eng r")
  case None
  then show ?thesis by (simp add: bayes_alert_def belief_mut_eq found_belief_get)
next
  case (Some e)
  let ?eng1 = "eng\<lparr>beliefs := fst (bm_get (beliefs eng) (er_id r))\<rparr>"
  let ?b = "st_value e"
  have f: "found_belief ?eng1 r = Some e" using Some by (simp add: found_belief_get)
  have same: "e\<lparr>st_value := ?b\<lparr>alerted := x\<rparr>\<rparr> = e" if "alerted ?b = x" for x
    using that by (cases e; cases "st_value e") auto
  show ?thesis
    using Some f found_set_belief [OF f] probability_threshold [of ?b] same
    by (auto simp: bayes_alert_def belief_mut_eq Let_def correlation_alert_of_def)
qed

text \<open>
  A belief is not inherited by a recycled parent pid. The belief fetched for an entity always
  exists; it is the stored one when the stored stamp and the parent's stamp do not contradict
  each other, and a fresh one at the prior otherwise. A known stamp of the parent is adopted.
\<close>

theorem belief_follows_parent_incarnation:
  assumes "engine_ok eng"
  shows "\<exists>eng1 e. belief_or_insert eng r now = (eng1, Some e) \<and> engine_ok eng1 \<and>
    found_belief eng1 r = Some e \<and>
    (er_parent_generation r \<noteq> None \<longrightarrow> st_generation e = er_parent_generation r) \<and>
    st_value e = (case bm_peek (beliefs eng) (er_id r) of
        None \<Rightarrow> belief_new now
      | Some b \<Rightarrow> (case (st_generation b, er_parent_generation r) of
            (Some g, Some h) \<Rightarrow> if g = h then st_value b else belief_new now
          | _ \<Rightarrow> st_value b))"
proof -
  obtain eng1 e where b: "belief_or_insert eng r now = (eng1, Some e)" "engine_ok eng1"
    "st_value e = kept_belief eng r now" "current e (er_parent_generation r)"
    "bm_peek (beliefs eng1) (er_id r) = Some e" "st_generation e = None \<longrightarrow> er_parent_generation r = None"
    using belief_or_insert_slot [OF assms] by metis
  have adopted: "er_parent_generation r \<noteq> None \<longrightarrow> st_generation e = er_parent_generation r"
    using b(4,6) by (cases "st_generation e"; cases "er_parent_generation r") (auto simp: current_def)
  have kept: "kept_belief eng r now = (case bm_peek (beliefs eng) (er_id r) of
        None \<Rightarrow> belief_new now
      | Some b \<Rightarrow> (case (st_generation b, er_parent_generation r) of
            (Some g, Some h) \<Rightarrow> if g = h then st_value b else belief_new now
          | _ \<Rightarrow> st_value b))"
    by (auto simp: kept_belief_def split: option.splits)
  show ?thesis
    unfolding kept [symmetric]
    by (intro exI conjI) (rule b(1), rule b(2), rule found_belief_peek [OF b(5,4)], rule adopted, rule b(3))
qed

text \<open>
  The ML term is added once, on top of the update of \<open>on_event\<close>: with no score nothing
  changes; with a score the call fails exactly when the process has no event in the window or
  its entity has no belief, and otherwise adds the score to the log odds and changes nothing
  else of the belief.
\<close>

theorem ml_score_is_added_once:
  "update_belief_with_ml eng p g None = (eng, True) \<and>
   (let own = events_for_pid (ce_bus eng) p g; r = entity_of eng p g (m_comm (meta (last own)));
        (eng', ok) = update_belief_with_ml eng p g (Some llr)
    in if own = [] then \<not> ok
       else case found_belief eng r of
              None \<Rightarrow> \<not> ok
            | Some e \<Rightarrow> ok \<and> found_belief eng' r =
                Some (e\<lparr>st_value := (st_value e)\<lparr>log_odds := log_odds (st_value e) + llr\<rparr>\<rparr>))"
proof -
  let ?own = "events_for_pid (ce_bus eng) p g"
  let ?r = "entity_of eng p g (m_comm (meta (last ?own)))"
  let ?eng1 = "eng\<lparr>pid_entities := fst (bm_get (pid_entities eng) p)\<rparr>"
  let ?eng2 = "?eng1\<lparr>beliefs := fst (bm_get (beliefs eng) (er_id ?r))\<rparr>"
  have f: "found_belief ?eng1 ?r = found_belief eng ?r" "found_belief ?eng2 ?r = found_belief eng ?r"
    by (simp_all add: found_belief_def)
  have u: "update_belief_with_ml eng p g (Some llr) =
      (if ?own = [] then (eng, False)
       else (case found_belief eng ?r of None \<Rightarrow> (?eng2, False)
             | Some e \<Rightarrow> (set_belief ?eng2 ?r e (apply_ml_llr (st_value e) llr), True)))"
    by (cases "found_belief eng ?r") (simp_all add: update_belief_with_ml_def Let_def entity_lookup_eq belief_mut_eq f(1))
  have "found_belief (set_belief ?eng2 ?r e b) ?r = Some (e\<lparr>st_value := b\<rparr>)" if "found_belief eng ?r = Some e" for e b
    using found_set_belief [of ?eng2 ?r e b] that f(2) by simp
  moreover have "update_belief_with_ml eng p g None = (eng, True)" by (simp add: update_belief_with_ml_def)
  ultimately show ?thesis
    by (cases "?own = []"; cases "found_belief eng ?r") (simp_all add: u apply_ml_llr_def Let_def)
qed

subsection \<open>Witnesses\<close>

definition sample_bus :: event_bus where
  "sample_bus =
     foldl bus_push (bus_new (60 * 10 ^ 9))
       [Exec (sample_exec (sample_meta 7 3 1000 ''evil'' (Some 2)) ''/tmp/evil'' None),
        Connect (sample_connect (sample_meta 7 3 3000 ''evil'' (Some 2)))]"

lemma sample_bus_events:
  "bus_events sample_bus =
     [Exec (sample_exec (sample_meta 7 3 1000 ''evil'' (Some 2)) ''/tmp/evil'' None),
      Connect (sample_connect (sample_meta 7 3 3000 ''evil'' (Some 2)))]"
  by (simp add: sample_bus_def bus_push_fields bus_new_def sample_defs as_u64_def)

lemma sample_rules: "\<exists>a. (''spawn_connect'', Some a) \<in> set (satisfied_rules 7 (Some 2) sample_bus)"
  by (simp add: satisfied_rules_def rule_spawn_connect_def rule_spawn_connect_filewrite_def events_for_pid_def
      sample_bus_events sample_defs is_address_selection_probe_def)

definition sample_engine :: correlation_engine where
  "sample_engine = (with_window (60 * 10 ^ 9))\<lparr>ce_bus := sample_bus\<rparr>"

lemma sample_engine_ok: "engine_ok sample_engine"
  using engine_ok_with_window [of "60 * 10 ^ 9"] by (simp add: sample_engine_def engine_ok_def)

lemma sample_engine_fields:
  "ce_bus sample_engine = sample_bus" "ce_window_ns sample_engine = 60 * 10 ^ 9" "bm_peek (fired sample_engine) k = None"
  by (simp_all add: sample_engine_def with_window_def as_u64_def bm_peek_def bm_empty_def)

theorem satisfied_rule_alerts_witness: "snd (evaluate sample_engine 7 (Some 2) 3000) \<noteq> []"
proof -
  obtain a where a: "(''spawn_connect'', Some a) \<in> set (satisfied_rules 7 (Some 2) (ce_bus sample_engine))"
    using sample_rules by (auto simp: sample_engine_fields)
  have "a \<in> set (snd (evaluate sample_engine 7 (Some 2) 3000))"
    using satisfied_rule_alerts [OF sample_engine_ok a, of 3000] by (simp add: sample_engine_fields)
  then show ?thesis by auto
qed

theorem rule_alerts_once_per_window_witness:
  "\<exists>b i. b \<in> set (snd (evaluate ((fst (evaluate (with_window (60 * 10 ^ 9)) 7 (Some 2) 1000))\<lparr>ce_bus := sample_bus\<rparr>)
      7 (Some 2) 3000)) \<and> (i, Some b) \<in> set (satisfied_rules 7 (Some 2) sample_bus)"
proof -
  let ?e = "with_window (60 * 10 ^ 9)"
  let ?e1 = "fst (evaluate ?e 7 (Some 2) 1000)"
  have none: "fst (evaluate ?e 7 (Some 2) 1000) = ?e"
    by (simp add: evaluate_eq satisfied_rules_def rule_spawn_connect_def rule_spawn_connect_filewrite_def
        rule_connect_filewrite_def rule_respawn_connect_def rule_dns_exfil_def rule_assembly_smb_def
        rule_assembly_connect_def rule_exec_smb_def events_for_pid_def with_window_def bus_new_def)
  obtain a where a: "(''spawn_connect'', Some a) \<in> set (satisfied_rules 7 (Some 2) sample_bus)"
    using sample_rules by blast
  have ok: "engine_ok (?e\<lparr>ce_bus := sample_bus\<rparr>)" using sample_engine_ok by (simp add: sample_engine_def)
  have peek: "bm_peek (fired (?e\<lparr>ce_bus := sample_bus\<rparr>)) (''spawn_connect'', 7) = None"
    using sample_engine_fields(3) by (simp add: sample_engine_def)
  have "a \<in> set (snd (evaluate (?e\<lparr>ce_bus := sample_bus\<rparr>) 7 (Some 2) 3000))"
    using evaluate_fires(1) [OF ok, of "''spawn_connect''" a 7 "Some 2" 3000] a peek
    by (simp add: recent_def)
  then have b: "a \<in> set (snd (evaluate (?e1\<lparr>ce_bus := sample_bus\<rparr>) 7 (Some 2) 3000))" unfolding none .
  have w: "3000 - 1000 \<le> ce_window_ns ?e" by (simp add: with_window_def as_u64_def)
  show ?thesis
    using rule_alerts_once_per_window [OF engine_ok_with_window prod.collapse [symmetric] prod.collapse [symmetric] w b] b
    by blast
qed

text \<open>A process that runs as \<open>svchost.exe\<close> from a temporary directory and was marked when it was executed.\<close>

definition svchost_meta :: "nat \<Rightarrow> event_meta" where
  "svchost_meta ts = sample_meta 7 3 ts ''svchost.exe'' (Some 2)"

definition marked_engine :: correlation_engine where
  "marked_engine = (with_window (60 * 10 ^ 9))
     \<lparr>ce_bus := bus_push (bus_new (60 * 10 ^ 9)) (Exec (sample_exec (svchost_meta 1000) ''/tmp/svchost.exe'' None)),
      masquerading := bm_insert (bm_empty ENTITY_CAP) 7 (Some 2)\<rparr>"

lemma marked_engine_fields:
  "engine_ok marked_engine" "is_masquerading marked_engine 7 (Some 2)" "bm_peek (fired marked_engine) k = None"
proof -
  have "bm_wf (bm_empty ENTITY_CAP :: (pid, generation) bounded_map)" "bm_cap (bm_empty ENTITY_CAP :: (pid, generation) bounded_map) = ENTITY_CAP"
    using engine_ok_with_window [of 1] by (simp_all add: engine_ok_def with_window_def)
  then show "engine_ok marked_engine" "is_masquerading marked_engine 7 (Some 2)"
    using engine_ok_with_window [of "60 * 10 ^ 9"]
    by (simp_all add: marked_engine_def engine_ok_def is_masquerading_def bm.look_ins_same bm.invar_ins same_generation_def)
  show "bm_peek (fired marked_engine) k = None" by (simp add: marked_engine_def with_window_def bm_peek_def bm_empty_def)
qed

lemma marked_connect_rule:
  "\<exists>a. (''spawn_connect'', Some a) \<in> set (satisfied_rules 7 (Some 2) (bus_push (ce_bus marked_engine) (Connect (sample_connect (svchost_meta 3000)))))"
  by (simp add: satisfied_rules_def rule_spawn_connect_def rule_spawn_connect_filewrite_def events_for_pid_def marked_engine_def
      bus_push_fields bus_new_def svchost_meta_def sample_defs as_u64_def is_address_selection_probe_def)

theorem ignored_names_cannot_be_borrowed_witness:
  "\<exists>eng' as. is_ignored ''svchost.exe'' \<and> on_event marked_engine (Connect (sample_connect (svchost_meta 3000))) = Some (eng', as) \<and> as \<noteq> []"
proof -
  let ?e = "Connect (sample_connect (svchost_meta 3000))"
  have m: "m_pid (meta ?e) = 7" "process_generation (meta ?e) = Some 2" by (simp_all add: svchost_meta_def sample_defs)
  have "is_ignored ''svchost.exe''" by code_simp
  moreover have "marked_at marked_engine ?e" using marked_engine_fields(2) unfolding marked_at_def m by simp
  moreover have "is_correlated ?e" "http_request_of ?e = None" by simp_all
  ultimately show ?thesis
    using ignored_names_cannot_be_borrowed [OF marked_engine_fields(1), of ?e] marked_connect_rule marked_engine_fields(3)
    unfolding m by (metis empty_iff empty_set)
qed

theorem belief_follows_parent_incarnation_witness:
  "\<exists>eng1 e. belief_or_insert engine_new \<lparr>er_ppid = 3, er_comm = ''sh'', er_parent_generation = Some 5\<rparr> 10 = (eng1, Some e) \<and>
     st_generation e = Some 5 \<and> st_value e = belief_new 10"
proof -
  let ?r = "\<lparr>er_ppid = 3, er_comm = ''sh'', er_parent_generation = Some 5\<rparr> :: entity_ref"
  have "engine_ok engine_new" by (simp add: engine_new_def engine_ok_with_window)
  moreover have "bm_peek (beliefs engine_new) (er_id ?r) = None"
    by (simp add: engine_new_def with_window_def bm_peek_def bm_empty_def)
  ultimately show ?thesis using belief_follows_parent_incarnation [of engine_new ?r 10] by auto
qed

end
