(* ===== verification/IpcFrame.thy ===== *)
theory IpcFrame
  imports Decimal Events
begin

text \<open>
  The JSON-lines framing of \<open>crates/ipc/src/frame.rs\<close>. A reader is the bytes its buffer holds
  and what the next reads of the underlying stream deliver; \<open>fill_buf\<close> and \<open>consume\<close> are
  the buffered reader's. Serialisation is the parameters \<open>to_json\<close> and \<open>from_json\<close>.
  \<open>utf8_valid\<close> is \<open>std::str::from_utf8\<close> accepting its argument.
\<close>

datatype ('io, 'j) frame_error = Io 'io | TooLarge | NotUtf8 | Parse 'j | Serialize 'j

datatype 'io read_result = Data string | Fail 'io

record 'io buf_reader =
  buffer :: string
  reads :: "'io read_result list"

definition MAX_MESSAGE_BYTES :: nat where
  "MAX_MESSAGE_BYTES = 1024 * 1024"

subsection \<open>The standard library's side\<close>

definition in_range :: "nat \<Rightarrow> nat \<Rightarrow> char \<Rightarrow> bool" where
  "in_range lo hi c \<longleftrightarrow> lo \<le> (of_char c :: nat) \<and> (of_char c :: nat) \<le> hi"

abbreviation cont :: "char \<Rightarrow> bool" where
  "cont \<equiv> in_range 0x80 0xBF"

text \<open>The number of bytes of the character a lead byte starts, zero for no lead byte, and the
  range of its second byte.\<close>

definition utf8_width :: "char \<Rightarrow> nat" where
  "utf8_width c =
     (if in_range 0 0x7F c then 1 else if in_range 0xC2 0xDF c then 2
      else if in_range 0xE0 0xEF c then 3 else if in_range 0xF0 0xF4 c then 4 else 0)"

definition second_ok :: "char \<Rightarrow> char \<Rightarrow> bool" where
  "second_ok c d =
     (let n = (of_char c :: nat) in
      if n = 0xE0 then in_range 0xA0 0xBF d else if n = 0xED then in_range 0x80 0x9F d
      else if n = 0xF0 then in_range 0x90 0xBF d else if n = 0xF4 then in_range 0x80 0x8F d
      else cont d)"

fun utf8_valid :: "string \<Rightarrow> bool" where
  "utf8_valid [] = True"
| "utf8_valid [a] = (utf8_width a = 1)"
| "utf8_valid (a # b # xs) =
     (if utf8_width a = 1 then utf8_valid (b # xs)
      else if utf8_width a = 2 then second_ok a b \<and> utf8_valid xs
      else if utf8_width a = 3 then second_ok a b \<and> xs \<noteq> [] \<and> cont (hd xs) \<and> utf8_valid (tl xs)
      else if utf8_width a = 4 then second_ok a b \<and> xs \<noteq> [] \<and> cont (hd xs)
        \<and> tl xs \<noteq> [] \<and> cont (hd (tl xs)) \<and> utf8_valid (tl (tl xs))
      else False)"

definition fill_buf :: "'io buf_reader \<Rightarrow> 'io buf_reader \<times> ('io + string)" where
  "fill_buf r =
     (if buffer r \<noteq> [] then (r, Inr (buffer r))
      else (case reads r of
              [] \<Rightarrow> (r, Inr [])
            | Data c # rs \<Rightarrow> (r\<lparr>buffer := c, reads := rs\<rparr>, Inr c)
            | Fail e # rs \<Rightarrow> (r\<lparr>reads := rs\<rparr>, Inl e)))"

definition consume :: "nat \<Rightarrow> 'io buf_reader \<Rightarrow> 'io buf_reader" where
  "consume n r = r\<lparr>buffer := drop n (buffer r)\<rparr>"

definition newline_pos :: "string \<Rightarrow> nat option" where
  "newline_pos s = (if nl \<in> set s then Some (length (takeWhile (\<lambda>c. c \<noteq> nl) s)) else None)"

subsection \<open>The framing\<close>

text \<open>
  The loop of \<open>read_line_bounded\<close>: \<open>total_n\<close> bytes so far; \<open>out\<close> is the caller's string, which
  keeps what was pushed to it when the function returns an error.
\<close>

function read_line_bounded ::
    "'io buf_reader \<Rightarrow> nat \<Rightarrow> string \<Rightarrow> 'io buf_reader \<times> string \<times> (('io, 'j) frame_error + nat)" where
  "read_line_bounded r total_n out =
     (case fill_buf r of
        (r1, Inl e) \<Rightarrow> (r1, out, Inl (Io e))
      | (r1, Inr available) \<Rightarrow>
          if available = [] then (r1, out, Inr total_n)
          else
            (case newline_pos available of
               Some pos \<Rightarrow>
                 (let take_n = pos + 1 in
                  if MAX_MESSAGE_BYTES < total_n + take_n then (r1, out, Inl TooLarge)
                  else if \<not> utf8_valid (take take_n available) then (r1, out, Inl NotUtf8)
                  else (consume take_n r1, out @ take take_n available, Inr (total_n + take_n)))
             | None \<Rightarrow>
                 (let take_n = length available in
                  if MAX_MESSAGE_BYTES < total_n + take_n then (r1, out, Inl TooLarge)
                  else if \<not> utf8_valid available then (r1, out, Inl NotUtf8)
                  else read_line_bounded (consume take_n r1) (total_n + take_n) (out @ available))))"
  by pat_completeness auto

termination
proof (relation "measure (\<lambda>(r, _, _). 2 * length (reads r) + (if buffer r = [] then 0 else 1))", goal_cases)
  case 2
  then show ?case
    by (auto simp: fill_buf_def consume_def split: if_splits list.splits read_result.splits)
qed simp

declare read_line_bounded.simps [simp del]

definition strip_line_end :: "string \<Rightarrow> string" where
  "strip_line_end s =
     (if ends_with s [nl] then
        (let t = butlast s in if ends_with t [cr] then butlast t else t)
      else s)"

definition read_message ::
    "(string \<Rightarrow> 'j + 't) \<Rightarrow> 'io buf_reader \<Rightarrow> 'io buf_reader \<times> (('io, 'j) frame_error + 't option)" where
  "read_message from_json r =
     (case read_line_bounded r 0 [] of
        (r1, _, Inl e) \<Rightarrow> (r1, Inl e)
      | (r1, buf, Inr n) \<Rightarrow>
          if n = 0 then (r1, Inr None)
          else (case from_json (strip_line_end buf) of
                  Inl e \<Rightarrow> (r1, Inl (Parse e))
                | Inr t \<Rightarrow> (r1, Inr (Some t))))"

text \<open>What goes on the wire, given how the write and the flush turn out.\<close>

definition write_message ::
    "('t \<Rightarrow> 'j + string) \<Rightarrow> 'io option \<Rightarrow> 'io option \<Rightarrow> 't \<Rightarrow> ('io, 'j) frame_error + string" where
  "write_message to_json write_result flush_result message =
     (case to_json message of
        Inl e \<Rightarrow> Inl (Serialize e)
      | Inr buf \<Rightarrow>
          if MAX_MESSAGE_BYTES < length buf + 1 then Inl TooLarge
          else (case write_result of
                  Some e \<Rightarrow> Inl (Io e)
                | None \<Rightarrow> (case flush_result of Some e \<Rightarrow> Inl (Io e) | None \<Rightarrow> Inr (buf @ [nl]))))"

subsection \<open>UTF-8\<close>

lemma nl_width: "utf8_width nl = 1"
  by (simp add: utf8_width_def in_range_def)

lemma utf8_width_range: "utf8_width c \<in> {0, 1, 2, 3, 4}"
  by (simp add: utf8_width_def)

lemma not_cont_nl: "\<not> cont nl" "\<not> second_ok c nl"
  by (simp_all add: in_range_def second_ok_def Let_def)

text \<open>A newline is never inside a character: cutting after it keeps both halves valid.\<close>

lemma utf8_cut_at_newline:
  "utf8_valid (a @ nl # b) \<longleftrightarrow> utf8_valid a \<and> utf8_valid b"
proof (induction a rule: utf8_valid.induct)
  case 1
  show ?case by (cases b) (simp_all add: nl_width)
next
  case (2 a)
  then show ?case by (cases b) (auto simp: nl_width not_cont_nl utf8_width_def in_range_def)
next
  case (3 a c xs)
  consider (1) "utf8_width a = 1" | (2) "utf8_width a = 2" | (3) "utf8_width a = 3" | (4) "utf8_width a = 4"
    | (0) "utf8_width a = 0" using utf8_width_range [of a] by auto
  then show ?case
  proof cases
    case 3
    then show ?thesis using "3.IH"(3) by (cases xs) (auto simp: not_cont_nl)
  next
    case 4
    then show ?thesis using "3.IH"(4) by (cases xs; cases "tl xs") (auto simp: not_cont_nl)
  qed (use "3.IH"(1,2) in simp_all)
qed

subsection \<open>Reading one line\<close>

fun delivered :: "'io read_result list \<Rightarrow> string" where
  "delivered [] = []"
| "delivered (Data c # rs) = c @ delivered rs"
| "delivered (Fail e # rs) = delivered rs"

text \<open>All bytes still to come, and a stream that delivers them without an error, every read a
  non-empty run of whole characters.\<close>

definition pending :: "'io buf_reader \<Rightarrow> string" where
  "pending r = buffer r @ delivered (reads r)"

definition whole_chunks :: "'io buf_reader \<Rightarrow> bool" where
  "whole_chunks r \<longleftrightarrow> utf8_valid (buffer r) \<and> (\<forall>x \<in> set (reads r). \<exists>c. x = Data c \<and> c \<noteq> [] \<and> utf8_valid c)"

lemma fill_buf_whole:
  assumes "whole_chunks r"
  obtains r1 where "fill_buf r = (r1, Inr (buffer r1))" "whole_chunks r1" "pending r1 = pending r"
    "buffer r1 = [] \<longleftrightarrow> pending r = []"
proof (cases "buffer r = [] \<and> reads r \<noteq> []")
  case True
  then obtain c rs where c: "reads r = Data c # rs" "c \<noteq> []" "utf8_valid c"
    using assms by (cases "reads r") (auto simp: whole_chunks_def)
  show ?thesis
    using assms True c by (intro that [of "r\<lparr>buffer := c, reads := rs\<rparr>"])
      (auto simp: fill_buf_def whole_chunks_def pending_def)
next
  case False
  show ?thesis
    using assms False by (intro that [of r]) (auto simp: fill_buf_def pending_def split: list.splits)
qed

lemma newline_pos_Some:
  assumes "newline_pos s = Some p"
  shows "s = take p s @ nl # drop (Suc p) s" "nl \<notin> set (take p s)" "take (Suc p) s = take p s @ [nl]"
    "length (take p s) = p"
proof -
  let ?t = "takeWhile (\<lambda>c. c \<noteq> nl) s" and ?d = "dropWhile (\<lambda>c. c \<noteq> nl) s"
  have p: "p = length ?t" and nls: "nl \<in> set s" using assms by (auto simp: newline_pos_def split: if_splits)
  have d: "?d \<noteq> []" using nls by (auto simp: dropWhile_eq_Nil_conv)
  then have hd: "hd ?d = nl" using hd_dropWhile by blast
  have s: "s = ?t @ nl # tl ?d"
    using takeWhile_dropWhile_id [of "\<lambda>c. c \<noteq> nl" s] d hd by (metis list.collapse)
  have t: "take p s = ?t" unfolding p by (metis append_eq_conv_conj takeWhile_dropWhile_id)
  have r: "drop (Suc p) s = tl ?d"
    by (subst s) (simp add: p)
  show "s = take p s @ nl # drop (Suc p) s" using s t r by simp
  show "nl \<notin> set (take p s)" unfolding t by (auto dest: set_takeWhileD)
  show len: "length (take p s) = p" using t p by simp
  have "take (Suc p) (?t @ nl # tl ?d) = ?t @ [nl]" by (simp add: p)
  then show "take (Suc p) s = take p s @ [nl]" using s t by simp
qed

lemma newline_pos_None: "newline_pos s = None \<longleftrightarrow> nl \<notin> set s"
  by (simp add: newline_pos_def)

lemma first_line_unique:
  assumes "nl \<notin> set a" and "nl \<notin> set b" and "a @ nl # x = b @ nl # y"
  shows "a = b" "x = y"
proof -
  have "takeWhile (\<lambda>c. c \<noteq> nl) (u @ nl # v) = u" if "nl \<notin> set u" for u v
    using that by (induction u) auto
  then show "a = b" using assms by metis
  then show "x = y" using assms(3) by simp
qed

lemma read_line_ok:
  fixes r :: "'io buf_reader"
  assumes "whole_chunks r" and "pending r = line @ nl # rest" and "nl \<notin> set line"
    and "n + length line + 1 \<le> MAX_MESSAGE_BYTES"
  shows "\<exists>r'. read_line_bounded r n out =
      (r', out @ line @ [nl], Inr (n + length line + 1) :: ('io, 'j) frame_error + nat) \<and>
    whole_chunks r' \<and> pending r' = rest"
  using assms
proof (induction r n out arbitrary: line rule: read_line_bounded.induct)
  case (1 r n out)
  obtain r1 where f: "fill_buf r = (r1, Inr (buffer r1))" "whole_chunks r1" "pending r1 = pending r"
    "buffer r1 = [] \<longleftrightarrow> pending r = []" by (rule fill_buf_whole [OF "1.prems"(1)])
  let ?av = "buffer r1"
  have ne: "?av \<noteq> []" using f(4) "1.prems"(2) by simp
  have bytes: "?av @ delivered (reads r1) = line @ nl # rest" using f(3) "1.prems"(2) by (simp add: pending_def)
  show ?case
  proof (cases "newline_pos ?av")
    case (Some p)
    note np = newline_pos_Some [OF Some]
    have "take p ?av @ nl # (drop (Suc p) ?av @ delivered (reads r1)) = line @ nl # rest"
      using bytes np(1) by (metis append.assoc append_Cons)
    then have line: "take p ?av = line" "drop (Suc p) ?av @ delivered (reads r1) = rest"
      using first_line_unique [OF np(2) "1.prems"(3)] by blast+
    have len: "p = length line" using line(1) np(4) by simp
    have valid: "utf8_valid (take (Suc p) ?av)" "utf8_valid (drop (Suc p) ?av)"
      using f(2) np(1,3) utf8_cut_at_newline [of "take p ?av" "drop (Suc p) ?av"]
        utf8_cut_at_newline [of "take p ?av" "[]"] by (simp_all add: whole_chunks_def)
    have "read_line_bounded r n out = (consume (Suc p) r1, out @ line @ [nl], Inr (n + length line + 1))"
      using f(1) ne Some valid(1) "1.prems"(4) np(3) line(1) len
      by (subst read_line_bounded.simps) simp
    moreover have "whole_chunks (consume (Suc p) r1)" "pending (consume (Suc p) r1) = rest"
      using f(2) valid(2) line(2) by (simp_all add: whole_chunks_def consume_def pending_def)
    ultimately show ?thesis by blast
  next
    case None
    then have no: "nl \<notin> set ?av" by (simp add: newline_pos_None)
    then obtain line' where l: "line = ?av @ line'" "delivered (reads r1) = line' @ nl # rest"
      using bytes by (auto simp: append_eq_append_conv2 Cons_eq_append_conv append_eq_Cons_conv)
    have valid: "utf8_valid ?av" using f(2) by (simp add: whole_chunks_def)
    let ?r2 = "consume (length ?av) r1"
    have r2: "whole_chunks ?r2" "pending ?r2 = line' @ nl # rest"
      using f(2) l(2) by (simp_all add: whole_chunks_def consume_def pending_def)
    have small: "\<not> MAX_MESSAGE_BYTES < n + length ?av" using "1.prems"(4) l(1) by simp
    have "\<exists>r'. read_line_bounded ?r2 (n + length ?av) (out @ ?av) =
        (r', (out @ ?av) @ line' @ [nl], Inr (n + length ?av + length line' + 1) :: ('io, 'j) frame_error + nat) \<and> whole_chunks r' \<and> pending r' = rest"
      using "1.prems"(3,4) l(1) f(1) ne None small valid r2
      by (intro "1.IH" [of r1 "Inr ?av" ?av "length ?av"]) auto
    moreover have "(read_line_bounded r n out :: 'io buf_reader \<times> string \<times> (('io, 'j) frame_error + nat)) =
        read_line_bounded ?r2 (n + length ?av) (out @ ?av)"
      using f(1) ne None small valid by (subst read_line_bounded.simps) (simp add: Let_def)
    ultimately show ?thesis using l(1) by (simp add: ac_simps)
  qed
qed

text \<open>
  What holds of a call on any reader, however the stream is cut and whatever fails: the caller's
  string grows by the bytes taken off the stream and stays within the cap; a line ends at its
  newline or with the stream; an error leaves no newline in the string; too large is reported
  only for a line that is.
\<close>

definition line_read :: "'io buf_reader \<Rightarrow> string \<Rightarrow> 'io buf_reader \<times> string \<times> (('io, 'j) frame_error + nat) \<Rightarrow> bool" where
  "line_read r out result \<longleftrightarrow>
     (case result of (r', out', res) \<Rightarrow>
        (\<exists>got. out' = out @ got \<and> pending r = got @ pending r') \<and> length out' \<le> MAX_MESSAGE_BYTES \<and>
        (case res of
           Inr k \<Rightarrow> k = length out' \<and> (Data [] \<notin> set (reads r) \<longrightarrow> nl \<in> set out' \<or> pending r' = [])
         | Inl e \<Rightarrow> nl \<notin> set out' \<and> (e = TooLarge \<longrightarrow>
             nl \<notin> set (take (MAX_MESSAGE_BYTES - length out') (pending r')) \<and>
             MAX_MESSAGE_BYTES < length out' + length (pending r'))))"

lemma fill_buf_any:
  assumes "fill_buf r = (r1, res)"
  shows "pending r1 = pending r" "set (reads r1) \<subseteq> set (reads r)" "res = Inr av \<Longrightarrow> buffer r1 = av"
    "res = Inr [] \<Longrightarrow> Data [] \<notin> set (reads r) \<Longrightarrow> pending r1 = []"
  using assms by (auto simp: fill_buf_def pending_def split: if_splits list.splits read_result.splits)

lemma line_read_more:
  assumes "line_read r2 (out @ av) result" and "pending r = av @ pending r2" and "set (reads r2) \<subseteq> set (reads r)"
  shows "line_read r out result"
proof -
  obtain r' out' res where result: "result = (r', out', res)" by (cases result)
  then show ?thesis
    using assms unfolding line_read_def by (cases res) auto
qed

lemma read_line_any:
  fixes r :: "'io buf_reader"
  assumes "n = length out" and "n \<le> MAX_MESSAGE_BYTES" and "nl \<notin> set out"
  shows "line_read r out (read_line_bounded r n out :: 'io buf_reader \<times> string \<times> (('io, 'j) frame_error + nat))"
  using assms
proof (induction r n out rule: read_line_bounded.induct)
  case (1 r n out)
  obtain r1 res where f: "fill_buf r = (r1, res)" by (cases "fill_buf r")
  note any = fill_buf_any [OF f]
  show ?case
  proof (cases "res = Inr [] \<or> (\<exists>e. res = Inl e)")
    case True
    then show ?thesis
      using f any "1.prems" by (subst read_line_bounded.simps) (auto simp: line_read_def)
  next
    case False
    then obtain av where av: "res = Inr av" "av \<noteq> []" by (cases res) auto
    have pend: "pending r = av @ delivered (reads r1)" using any(1) any(3) [OF av(1)] by (simp add: pending_def)
    have same: "pending r1 = pending r" by (rule any(1))
    show ?thesis
    proof (cases "newline_pos av")
      case (Some p)
      note np = newline_pos_Some [OF Some]
      have len: "length (take (Suc p) av) = Suc p" using np(3,4) by (metis length_append_singleton)
      have fits: "Suc p \<le> length av" using len by simp
      have "nl \<notin> set (take (MAX_MESSAGE_BYTES - n) (pending r)) \<and> MAX_MESSAGE_BYTES < n + length (pending r)"
        if "MAX_MESSAGE_BYTES < n + Suc p"
      proof
        have "MAX_MESSAGE_BYTES - n \<le> p" using that by simp
        then have "take (MAX_MESSAGE_BYTES - n) (pending r) = take (MAX_MESSAGE_BYTES - n) (take p av)"
          using fits by (simp add: pend min_def)
        then show "nl \<notin> set (take (MAX_MESSAGE_BYTES - n) (pending r))" using np(2) by (metis in_set_takeD)
        show "MAX_MESSAGE_BYTES < n + length (pending r)" using that fits by (simp add: pend)
      qed
      moreover have "pending r = take (Suc p) av @ pending (consume (Suc p) r1)"
        using pend any(3) [OF av(1)] by (simp add: consume_def pending_def append.assoc [symmetric])
      moreover have "nl \<in> set (take (Suc p) av)" using np(3) by simp
      ultimately show ?thesis
        using f av Some len same "1.prems" by (subst read_line_bounded.simps) (auto simp: line_read_def Let_def)
    next
      case None
      then have no: "nl \<notin> set av" by (simp add: newline_pos_None)
      have large: "nl \<notin> set (take (MAX_MESSAGE_BYTES - n) (pending r)) \<and> MAX_MESSAGE_BYTES < n + length (pending r)"
        if "MAX_MESSAGE_BYTES < n + length av"
        using that no by (auto simp: pend dest: in_set_takeD)
      let ?r2 = "consume (length av) r1"
      have r2: "pending r = av @ pending ?r2" "set (reads ?r2) \<subseteq> set (reads r)"
        using pend any(2) any(3) [OF av(1)] by (simp_all add: consume_def pending_def)
      show ?thesis
      proof (cases "MAX_MESSAGE_BYTES < n + length av \<or> \<not> utf8_valid av")
        case True
        then show ?thesis
          using f av None large same "1.prems" by (subst read_line_bounded.simps) (auto simp: line_read_def Let_def)
      next
        case False
        have "line_read ?r2 (out @ av) (read_line_bounded ?r2 (n + length av) (out @ av) :: 'io buf_reader \<times> string \<times> (('io, 'j) frame_error + nat))"
          using "1.prems" False f av None no by (intro "1.IH" [of r1 res av "length av"]) auto
        moreover have "(read_line_bounded r n out :: 'io buf_reader \<times> string \<times> (('io, 'j) frame_error + nat)) =
            read_line_bounded ?r2 (n + length av) (out @ av)"
          using f av None False by (subst read_line_bounded.simps) (simp add: Let_def)
        ultimately show ?thesis using line_read_more r2 by metis
      qed
    qed
  qed
qed

lemma read_line_too_large:
  fixes r :: "'io buf_reader"
  assumes "whole_chunks r" and "nl \<notin> set (take (MAX_MESSAGE_BYTES - n) (pending r))"
    and "MAX_MESSAGE_BYTES < n + length (pending r)" and "n \<le> MAX_MESSAGE_BYTES"
  shows "snd (snd (read_line_bounded r n out)) = (Inl TooLarge :: ('io, 'j) frame_error + nat)"
  using assms
proof (induction r n out rule: read_line_bounded.induct)
  case (1 r n out)
  obtain r1 where f: "fill_buf r = (r1, Inr (buffer r1))" "whole_chunks r1" "pending r1 = pending r"
    "buffer r1 = [] \<longleftrightarrow> pending r = []" by (rule fill_buf_whole [OF "1.prems"(1)])
  let ?av = "buffer r1"
  have ne: "?av \<noteq> []" using f(4) "1.prems"(3,4) by auto
  have pend: "pending r = ?av @ delivered (reads r1)" using f(3) by (simp add: pending_def)
  show ?case
  proof (cases "MAX_MESSAGE_BYTES < n + length ?av")
    case True
    have "MAX_MESSAGE_BYTES < n + (p + 1)" if p: "newline_pos ?av = Some p" for p
    proof (rule ccontr)
      assume "\<not> ?thesis"
      then have "take (Suc p) ?av = take (Suc p) (take (MAX_MESSAGE_BYTES - n) (pending r))"
        using True by (simp add: pend min_def)
      moreover have "nl \<in> set (take (Suc p) ?av)" using newline_pos_Some(3) [OF p] by simp
      ultimately show False using "1.prems"(2) by (metis in_set_takeD)
    qed
    then show ?thesis
      using f(1) ne True by (subst read_line_bounded.simps) (auto simp: Let_def split: option.splits)
  next
    case False
    have av: "?av = take (length ?av) (take (MAX_MESSAGE_BYTES - n) (pending r))" using False by (simp add: pend)
    then have no: "newline_pos ?av = None" using "1.prems"(2) by (metis in_set_takeD newline_pos_None)
    have valid: "utf8_valid ?av" using f(2) by (simp add: whole_chunks_def)
    let ?r2 = "consume (length ?av) r1"
    have r2: "whole_chunks ?r2" "pending ?r2 = delivered (reads r1)"
      using f(2) by (simp_all add: whole_chunks_def consume_def pending_def)
    have "take (MAX_MESSAGE_BYTES - n) (pending r) = ?av @ take (MAX_MESSAGE_BYTES - (n + length ?av)) (delivered (reads r1))"
      using False by (simp add: pend)
    then have rest: "nl \<notin> set (take (MAX_MESSAGE_BYTES - (n + length ?av)) (pending ?r2))"
      using "1.prems"(2) r2(2) by simp
    have "snd (snd (read_line_bounded ?r2 (n + length ?av) (out @ ?av))) = (Inl TooLarge :: ('io, 'j) frame_error + nat)"
      using "1.prems"(3) False f(1) ne no valid r2 rest
      by (intro "1.IH" [of r1 "Inr ?av" ?av "length ?av"]) (auto simp: pend)
    moreover have "(read_line_bounded r n out :: 'io buf_reader \<times> string \<times> (('io, 'j) frame_error + nat)) =
        read_line_bounded ?r2 (n + length ?av) (out @ ?av)"
      using f(1) ne no False valid by (subst read_line_bounded.simps) (simp add: Let_def)
    ultimately show ?thesis by simp
  qed
qed

subsection \<open>Properties\<close>

text \<open>A client that reads message after message.\<close>

fun read_messages ::
    "(string \<Rightarrow> 'j + 't) \<Rightarrow> nat \<Rightarrow> 'io buf_reader \<Rightarrow> (('io, 'j) frame_error + 't option) list" where
  "read_messages from_json 0 r = []"
| "read_messages from_json (Suc n) r =
     (let (r1, m) = read_message from_json r in m # read_messages from_json n r1)"

lemma strip_line_end_nl: "\<not> ends_with s [cr] \<Longrightarrow> strip_line_end (s @ [nl]) = s"
  by (simp add: strip_line_end_def ends_with_def)

lemma read_message_line:
  fixes r :: "'io buf_reader" and from_json :: "string \<Rightarrow> 'j + 't"
  assumes "whole_chunks r" and "pending r = s @ nl # rest" and "nl \<notin> set s" and "\<not> ends_with s [cr]"
    and "length s + 1 \<le> MAX_MESSAGE_BYTES" and "from_json s = Inr m"
  obtains r' where "read_message from_json r = (r', Inr (Some m) :: ('io, 'j) frame_error + 't option)"
    "whole_chunks r'" "pending r' = rest"
proof -
  obtain r' where r': "read_line_bounded r 0 [] = (r', s @ [nl], Inr (length s + 1) :: ('io, 'j) frame_error + nat)"
    "whole_chunks r'" "pending r' = rest"
    using read_line_ok [OF assms(1-3), of 0 "[]"] assms(5) by auto
  then show ?thesis using that assms(4,6) by (simp add: read_message_def strip_line_end_nl)
qed

lemma read_message_eof:
  assumes "whole_chunks r" and "pending r = []"
  shows "snd (read_message from_json r) = Inr None"
proof -
  obtain r1 where "fill_buf r = (r1, Inr (buffer r1))" "buffer r1 = [] \<longleftrightarrow> pending r = []"
    by (rule fill_buf_whole [OF assms(1)])
  then show ?thesis using assms(2) by (simp add: read_message_def read_line_bounded.simps [of r])
qed

text \<open>
  C30: Messages survive the wire. Given a serialiser that is inverted by the parser and emits one
  line (no newline, no final carriage return, both of which JSON escapes or excludes), a stream
  of written messages that is delivered without error in any chunks of whole characters is read
  back as exactly those messages in order, followed by the end of the stream.
\<close>

theorem frames_round_trip:
  fixes r :: "'io buf_reader" and to_json :: "'t \<Rightarrow> 'j + string" and from_json :: "string \<Rightarrow> 'j + 't"
  assumes "\<forall>m s. to_json m = Inr s \<longrightarrow> from_json s = Inr m \<and> nl \<notin> set s \<and> \<not> ends_with s [cr]"
    and "list_all2 (\<lambda>m w. write_message to_json None None m = (Inr w :: ('io, 'j) frame_error + string)) ms ws"
    and "whole_chunks r" and "pending r = concat ws"
  shows "read_messages from_json (Suc (length ms)) r = map (\<lambda>m. Inr (Some m)) ms @ [Inr None]"
  using assms(2-4)
proof (induction ms ws arbitrary: r rule: list_all2_induct)
  case Nil
  then show ?case using read_message_eof [of r from_json] by (auto split: prod.splits dest: sym)
next
  case (Cons m ms w ws)
  obtain s where s: "to_json m = Inr s" "w = s @ [nl]" "length s + 1 \<le> MAX_MESSAGE_BYTES"
    using Cons.hyps by (auto simp: write_message_def split: sum.splits if_splits)
  have p: "pending r = s @ nl # concat ws" using Cons.prems(2) s(2) by simp
  have j: "from_json s = Inr m" "nl \<notin> set s" "\<not> ends_with s [cr]" using assms(1) s(1) by auto
  obtain r' where r': "read_message from_json r = (r', Inr (Some m) :: ('io, 'j) frame_error + 't option)"
    "whole_chunks r'" "pending r' = concat ws"
    by (rule read_message_line [where from_json = from_json, OF Cons.prems(1) p j(2,3) s(3) j(1)])
  then show ?case using Cons.IH [OF r'(2,3)] by simp
qed

text \<open>
  A message is rejected or accepted depending on where the stream is cut. The bytes of one
  valid UTF-8 line are read as that line when they arrive together, and give \<open>NotUtf8\<close> when a
  read ends inside a multi-byte character, because each chunk is validated on its own.
\<close>

theorem split_character_is_rejected:
  "let line = [CHR 0x22, CHR 0xC3, CHR 0xA9, CHR 0x22, nl] in
   utf8_valid line \<and>
   snd (read_line_bounded \<lparr>buffer = [], reads = [Data line]\<rparr> 0 []) = (line, Inr 5) \<and>
   snd (read_message from_json \<lparr>buffer = [], reads = [Data (take 2 line), Data (drop 2 line)]\<rparr>) = Inl NotUtf8"
proof -
  let ?w = "[CHR 0x22, CHR 0xC3, CHR 0xA9, CHR 0x22, nl]"
  have v: "utf8_valid ?w" "\<not> utf8_valid (take 2 ?w)" by code_simp+
  have "newline_pos ?w = Some 4" by (simp add: newline_pos_def)
  then have "snd (read_line_bounded \<lparr>buffer = [], reads = [Data ?w]\<rparr> 0 []) = (?w, Inr 5)"
    using v(1) by (subst read_line_bounded.simps) (simp add: fill_buf_def MAX_MESSAGE_BYTES_def)
  moreover have "newline_pos (take 2 ?w) = None" by (simp add: newline_pos_def)
  then have "snd (read_message from_json \<lparr>buffer = [], reads = [Data (take 2 ?w), Data (drop 2 ?w)]\<rparr>) = Inl NotUtf8"
    using v(2) by (subst read_message_def, subst read_line_bounded.simps)
      (simp add: fill_buf_def MAX_MESSAGE_BYTES_def)
  ultimately show ?thesis using v(1) by (simp add: Let_def)
qed

text \<open>The stream holds more than the cap and no newline within it.\<close>

definition too_long :: "'io buf_reader \<Rightarrow> bool" where
  "too_long r \<longleftrightarrow> nl \<notin> set (take MAX_MESSAGE_BYTES (pending r)) \<and> MAX_MESSAGE_BYTES < length (pending r)"

text \<open>
  C31: Memory per message is bounded, for every stream, however it is cut into chunks and whatever
  read fails. When \<open>read_line_bounded\<close> returns, with a line or with an error, the bytes it has
  collected are those it took off the stream and no more than the cap; a count that is returned is
  their number. \<open>TooLarge\<close> is reported only when the first bytes up to the cap hold no newline and
  more follow; such a line is always refused with an error (a read of no bytes is the end of the
  stream), and with \<open>TooLarge\<close> when no chunk ends inside a character. A written frame never
  exceeds the cap.
\<close>

theorem frames_are_bounded:
  fixes r :: "'io buf_reader" and to_json :: "'t \<Rightarrow> 'j + string" and from_json :: "string \<Rightarrow> 'j + 't"
  assumes "read_line_bounded r 0 [] = (r', out, res :: ('io, 'j) frame_error + nat)"
  shows "pending r = out @ pending r' \<and> length out \<le> MAX_MESSAGE_BYTES \<and>
    (\<forall>n. res = Inr n \<longrightarrow> n = length out) \<and>
    (res = Inl TooLarge \<longrightarrow> too_long r) \<and>
    (too_long r \<and> Data [] \<notin> set (reads r) \<longrightarrow> (\<exists>e. snd (read_message from_json r) = Inl e)) \<and>
    (too_long r \<and> whole_chunks r \<longrightarrow> snd (read_message from_json r) = Inl TooLarge) \<and>
    (write_message to_json we fe m = (Inr w :: ('io, 'j) frame_error + string) \<longrightarrow> length w \<le> MAX_MESSAGE_BYTES)"
proof -
  have any: "line_read r [] (r', out, res)"
    using read_line_any [of 0 "[]" r, where 'j = 'j] assms(1) by simp
  then have split: "pending r = out @ pending r'" "length out \<le> MAX_MESSAGE_BYTES" "\<And>n. res = Inr n \<Longrightarrow> n = length out"
    by (auto simp: line_read_def)
  have taken: "take MAX_MESSAGE_BYTES (pending r) = out @ take (MAX_MESSAGE_BYTES - length out) (pending r')"
    using split(1,2) by simp
  have cap: "too_long r" if "res = Inl TooLarge"
    using any that unfolding too_long_def taken by (auto simp: line_read_def split(1))
  have refused: "\<exists>e. snd (read_message from_json r) = Inl e" if "too_long r" "Data [] \<notin> set (reads r)"
  proof (cases res)
    case (Inl e)
    then show ?thesis using assms(1) by (simp add: read_message_def)
  next
    case (Inr n)
    then have "nl \<in> set out \<or> pending r' = []" using any that(2) by (simp add: line_read_def)
    moreover have "nl \<notin> set out" "MAX_MESSAGE_BYTES < length out + length (pending r')"
      using that(1) taken split(1) by (auto simp: too_long_def)
    ultimately show ?thesis using split(2) by auto
  qed
  have large: "snd (read_message from_json r) = Inl TooLarge" if "too_long r" "whole_chunks r"
    using read_line_too_large [OF that(2), of 0 "[]", where 'j = 'j] that(1) assms(1) by (simp add: too_long_def read_message_def)
  have "length w \<le> MAX_MESSAGE_BYTES" if "write_message to_json we fe m = (Inr w :: ('io, 'j) frame_error + string)"
    using that by (auto simp: write_message_def split: sum.splits if_splits option.splits)
  then show ?thesis using split cap refused large by blast
qed

subsection \<open>Witnesses\<close>

definition bool_to_json :: "bool \<Rightarrow> unit + string" where
  "bool_to_json b = Inr (if b then ''true'' else ''false'')"

definition bool_from_json :: "string \<Rightarrow> unit + bool" where
  "bool_from_json s = (if s = ''true'' then Inr True else if s = ''false'' then Inr False else Inl ())"

theorem frames_round_trip_witness:
  "read_messages bool_from_json 3 (\<lparr>buffer = [], reads = [Data ''tr'', Data ''ue'', Data (nl # ''fal''), Data (''se'' @ [nl])]\<rparr>
     :: unit buf_reader) = [Inr (Some True), Inr (Some False), Inr None]"
proof -
  let ?r = "\<lparr>buffer = [], reads = [Data ''tr'', Data ''ue'', Data (nl # ''fal''), Data (''se'' @ [nl])]\<rparr> :: unit buf_reader"
  have "\<forall>m s. bool_to_json m = Inr s \<longrightarrow> bool_from_json s = Inr m \<and> nl \<notin> set s \<and> \<not> ends_with s [cr]"
    by (auto simp: bool_to_json_def bool_from_json_def ends_with_def)
  moreover have "list_all2 (\<lambda>m w. write_message bool_to_json None None m = (Inr w :: (unit, unit) frame_error + string))
      [True, False] [''true'' @ [nl], ''false'' @ [nl]]"
    by (simp add: write_message_def bool_to_json_def MAX_MESSAGE_BYTES_def)
  moreover have "whole_chunks ?r" by (simp add: whole_chunks_def utf8_width_def in_range_def)
  moreover have "pending ?r = concat [''true'' @ [nl], ''false'' @ [nl]]" by (simp add: pending_def)
  ultimately have "read_messages bool_from_json (Suc (length [True, False])) ?r = map (\<lambda>m. Inr (Some m)) [True, False] @ [Inr None]"
    by (rule frames_round_trip)
  then show ?thesis by (simp add: numeral_3_eq_3)
qed

text \<open>A stream one byte longer than the cap without a newline, in two chunks: it is refused, and at most the cap is collected.\<close>

definition long_stream :: "unit buf_reader" where
  "long_stream = \<lparr>buffer = [], reads = [Data ''x'', Data (replicate MAX_MESSAGE_BYTES CHR ''y'')]\<rparr>"

theorem frames_are_bounded_witness:
  "\<exists>r' out e. read_line_bounded long_stream 0 [] = (r', out, e :: (unit, unit) frame_error + nat) \<and>
     length out \<le> MAX_MESSAGE_BYTES \<and> pending long_stream = out @ pending r' \<and>
     (\<exists>e. snd (read_message bool_from_json long_stream) = Inl e)"
proof -
  obtain r' out and e :: "(unit, unit) frame_error + nat" where run: "read_line_bounded long_stream 0 [] = (r', out, e)"
    by (cases "read_line_bounded long_stream 0 [] :: unit buf_reader \<times> string \<times> ((unit, unit) frame_error + nat)")
  have "pending long_stream = CHR ''x'' # replicate MAX_MESSAGE_BYTES CHR ''y''" by (simp add: long_stream_def pending_def)
  then have long: "too_long long_stream" by (auto simp: too_long_def dest!: in_set_takeD)
  have "MAX_MESSAGE_BYTES \<noteq> 0" by (simp add: MAX_MESSAGE_BYTES_def)
  then have more: "Data [] \<notin> set (reads long_stream)" by (simp add: long_stream_def)
  note all = frames_are_bounded [OF run, of bool_from_json bool_to_json None None True "[]"]
  have "length out \<le> MAX_MESSAGE_BYTES" "pending long_stream = out @ pending r'"
      "\<exists>e. snd (read_message bool_from_json long_stream) = Inl e"
    using all long more by simp_all
  then show ?thesis using run by blast
qed

end
