(* ===== verification/Tamper.thy ===== *)
theory Tamper
  imports Display "HOL-Library.AList"
begin

text \<open>
  Self-protection: the silence monitor of \<open>crates/tamper/src/heartbeat.rs\<close> and the integrity
  manifest of \<open>crates/tamper/src/integrity.rs\<close>. The shared atomic counters are a store from
  counter addresses to 64-bit values. The file system is a function from paths to what a look at
  the path finds; SHA-256 (with its hexadecimal output) is a parameter. The ordered map of the
  manifest is an association list, so the order of the violations is not modelled.
\<close>

subsection \<open>Silence\<close>

type_synonym counters = "nat \<Rightarrow> nat"

record sensor_heartbeat =
  hb_name :: string
  hb_counter :: nat

definition pulse_n :: "sensor_heartbeat \<Rightarrow> nat \<Rightarrow> counters \<Rightarrow> counters" where
  "pulse_n h n st = st(hb_counter h := (st (hb_counter h) + n) mod 2 ^ 64)"

definition pulse :: "sensor_heartbeat \<Rightarrow> counters \<Rightarrow> counters" where
  "pulse h st = st(hb_counter h := (st (hb_counter h) + 1) mod 2 ^ 64)"

definition pulse_count :: "sensor_heartbeat \<Rightarrow> counters \<Rightarrow> nat" where
  "pulse_count h st = st (hb_counter h)"

record watched =
  w_heartbeat :: sensor_heartbeat
  w_deadline_ns :: nat
  last_count :: nat
  last_change_ns :: nat
  w_alerted :: bool

record silence_verdict =
  sv_sensor :: string
  silent_for_ns :: nat
  sv_deadline_ns :: nat

definition silence_message :: "silence_verdict \<Rightarrow> string" where
  "silence_message v =
     ''sensor `'' @ sv_sensor v @ ''` produced no telemetry for '' @ fmt_fixed 1 (real (silent_for_ns v) / 10 ^ 9)
     @ ''s (deadline '' @ fmt_fixed 1 (real (sv_deadline_ns v) / 10 ^ 9) @ ''s) '' @ em_dash
     @ '' stopped, detached, or the agent is frozen''"

type_synonym silence_monitor = "watched list"

definition register :: "silence_monitor \<Rightarrow> counters \<Rightarrow> sensor_heartbeat \<Rightarrow> nat \<Rightarrow> nat \<Rightarrow> silence_monitor" where
  "register m st h deadline now =
     m @ [\<lparr>w_heartbeat = h, w_deadline_ns = deadline, last_count = pulse_count h st,
           last_change_ns = now, w_alerted = False\<rparr>]"

text \<open>One sensor of one poll.\<close>

definition poll_one :: "counters \<Rightarrow> nat \<Rightarrow> watched \<Rightarrow> watched \<times> silence_verdict option" where
  "poll_one st now w =
     (let count = pulse_count (w_heartbeat w) st in
      if count \<noteq> last_count w then
        (w\<lparr>last_count := count, last_change_ns := now, w_alerted := False\<rparr>, None)
      else
        (let silent_for = now - last_change_ns w in
         if w_deadline_ns w < silent_for \<and> \<not> w_alerted w then
           (w\<lparr>w_alerted := True\<rparr>,
            Some \<lparr>sv_sensor = hb_name (w_heartbeat w), silent_for_ns = silent_for, sv_deadline_ns = w_deadline_ns w\<rparr>)
         else (w, None)))"

fun poll :: "counters \<Rightarrow> nat \<Rightarrow> silence_monitor \<Rightarrow> silence_monitor \<times> silence_verdict list" where
  "poll st now [] = ([], [])"
| "poll st now (w # ws) =
     (let (w1, v) = poll_one st now w; (ws1, vs) = poll st now ws
      in (w1 # ws1, (case v of None \<Rightarrow> vs | Some x \<Rightarrow> x # vs)))"

definition any_silent :: "silence_monitor \<Rightarrow> bool" where
  "any_silent m = list_ex w_alerted m"

record sensor_health =
  sh_name :: string
  sh_pulse_count :: nat
  sh_silent :: bool

definition sensor_health_of :: "counters \<Rightarrow> silence_monitor \<Rightarrow> sensor_health list" where
  "sensor_health_of st m =
     map (\<lambda>w. \<lparr>sh_name = hb_name (w_heartbeat w), sh_pulse_count = pulse_count (w_heartbeat w) st,
               sh_silent = w_alerted w\<rparr>) m"

subsection \<open>Integrity\<close>

definition MAX_VERIFY_BYTES :: nat where
  "MAX_VERIFY_BYTES = 256 * 1024 * 1024"

datatype file_node = Regular string bool | Special

type_synonym file_system = "string \<Rightarrow> file_node option"

datatype violation_kind = Modified string string | Missing | Unreadable | Oversized nat

record integrity_violation =
  iv_path :: string
  iv_kind :: violation_kind

record integrity_manifest =
  man_entries :: "(string \<times> string) list"

definition integrity_from_entries :: "(string \<times> string) list \<Rightarrow> integrity_manifest" where
  "integrity_from_entries es =
     \<lparr>man_entries = fold (\<lambda>(p, h). AList.update p (to_ascii_lowercase h)) es []\<rparr>"

definition integrity_insert :: "integrity_manifest \<Rightarrow> string \<Rightarrow> string \<Rightarrow> integrity_manifest" where
  "integrity_insert m p h = m\<lparr>man_entries := AList.update p (to_ascii_lowercase h) (man_entries m)\<rparr>"

text \<open>The flag of a regular file says whether it can be opened and read.\<close>

definition hash_file :: "(string \<Rightarrow> string) \<Rightarrow> file_system \<Rightarrow> string \<Rightarrow> string option" where
  "hash_file sha256 fs path =
     (case fs path of
        Some (Regular content readable) \<Rightarrow>
          if readable then Some (sha256 (take MAX_VERIFY_BYTES content)) else None
      | _ \<Rightarrow> None)"

definition verify_one :: "(string \<Rightarrow> string) \<Rightarrow> file_system \<Rightarrow> string \<Rightarrow> string \<Rightarrow> violation_kind option" where
  "verify_one sha256 fs path expected =
     (case fs path of
        None \<Rightarrow> Some Missing
      | Some Special \<Rightarrow> Some Unreadable
      | Some (Regular content readable) \<Rightarrow>
          if MAX_VERIFY_BYTES < length content then Some (Oversized (length content))
          else (case hash_file sha256 fs path of
                  Some actual \<Rightarrow> if actual = expected then None else Some (Modified expected actual)
                | None \<Rightarrow> Some Unreadable))"

definition verify :: "(string \<Rightarrow> string) \<Rightarrow> file_system \<Rightarrow> integrity_manifest \<Rightarrow> integrity_violation list" where
  "verify sha256 fs m =
     List.map_filter (\<lambda>(path, expected).
        map_option (\<lambda>k. \<lparr>iv_path = path, iv_kind = k\<rparr>) (verify_one sha256 fs path expected)) (man_entries m)"

definition integrity_message :: "integrity_violation \<Rightarrow> string" where
  "integrity_message v =
     (let p = iv_path v in
      case iv_kind v of
        Modified expected actual \<Rightarrow>
          ''protected artifact `'' @ p @ ''` was modified (expected '' @ expected @ '', found '' @ actual
          @ '') '' @ em_dash @ '' possible neutered-build swap''
      | Missing \<Rightarrow> ''protected artifact `'' @ p @ ''` is missing '' @ em_dash @ '' removed or moved''
      | Unreadable \<Rightarrow> ''protected artifact `'' @ p @ ''` is present but unreadable as a regular file''
      | Oversized size_n \<Rightarrow>
          ''protected artifact `'' @ p @ ''` is '' @ show_nat size_n @ '' bytes, past the ''
          @ show_nat MAX_VERIFY_BYTES @ ''-byte verification bound '' @ em_dash @ '' treated as tampered'')"

subsection \<open>One sensor over many polls\<close>

fun poll_run :: "(counters \<times> nat) list \<Rightarrow> watched \<Rightarrow> watched \<times> silence_verdict list" where
  "poll_run [] w = (w, [])"
| "poll_run ((st, now) # ps) w =
     (let (w1, v) = poll_one st now w; (w2, vs) = poll_run ps w1
      in (w2, (case v of None \<Rightarrow> vs | Some x \<Rightarrow> x # vs)))"

lemma poll_nth:
  "i < length m \<Longrightarrow> fst (poll st now m) ! i = fst (poll_one st now (m ! i))"
  "length (fst (poll st now m)) = length m"
  "snd (poll st now m) = List.map_filter (\<lambda>w. snd (poll_one st now w)) m"
proof -
  show "i < length m \<Longrightarrow> fst (poll st now m) ! i = fst (poll_one st now (m ! i))"
    by (induction m arbitrary: i) (auto simp: Let_def nth_Cons split: prod.splits nat.splits)
  show "length (fst (poll st now m)) = length m"
    by (induction m) (auto split: prod.splits)
  show "snd (poll st now m) = List.map_filter (\<lambda>w. snd (poll_one st now w)) m"
    by (induction m) (auto split: prod.splits option.splits)
qed

lemma poll_one_stalled:
  assumes "pulse_count (w_heartbeat w) st = last_count w"
  shows "poll_one st now w =
    (if w_deadline_ns w < now - last_change_ns w \<and> \<not> w_alerted w
     then (w\<lparr>w_alerted := True\<rparr>, Some \<lparr>sv_sensor = hb_name (w_heartbeat w), silent_for_ns = now - last_change_ns w,
             sv_deadline_ns = w_deadline_ns w\<rparr>)
     else (w, None))"
  using assms by (simp add: poll_one_def Let_def)

lemma poll_run_alerted:
  assumes "\<forall>(st, now) \<in> set ps. pulse_count (w_heartbeat w) st = last_count w" and "w_alerted w"
  shows "poll_run ps w = (w, [])"
  using assms by (induction ps) (auto simp: poll_one_stalled)

lemma poll_run_stalled:
  assumes "\<forall>(st, now) \<in> set ps. pulse_count (w_heartbeat w) st = last_count w" and "\<not> w_alerted w"
  shows "length (snd (poll_run ps w)) = (if \<exists>(st, now) \<in> set ps. w_deadline_ns w < now - last_change_ns w then 1 else 0)"
  using assms
proof (induction ps)
  case (Cons p ps)
  obtain st now where p: "p = (st, now)" by (cases p)
  have stalled: "pulse_count (w_heartbeat w) st = last_count w" using Cons.prems p by auto
  show ?case
  proof (cases "w_deadline_ns w < now - last_change_ns w")
    case True
    have "poll_run ps (w\<lparr>w_alerted := True\<rparr>) = (w\<lparr>w_alerted := True\<rparr>, [])"
      using Cons.prems(1) by (intro poll_run_alerted) auto
    then show ?thesis using True p stalled Cons.prems(2) by (simp add: poll_one_stalled)
  next
    case False
    then show ?thesis using p stalled Cons by (auto simp: poll_one_stalled split: prod.splits)
  qed
qed simp

subsection \<open>Properties\<close>

text \<open>
  C32: Silence is a detection, once per episode. While a registered sensor's counter does not move,
  the polls report it exactly once if one of them is later than its deadline after the
  registration, and not at all otherwise, whatever the order of the poll times; a poll that sees
  the counter moved reports nothing, clears the mark and restarts the clock. A poll of the monitor
  reports what its sensors report one by one.
\<close>

theorem silence_is_reported_once:
  assumes "\<forall>(st, now) \<in> set ps. pulse_count h st = pulse_count h st0"
  shows "length (snd (poll_run ps (last (register m st0 h deadline t0)))) =
      (if \<exists>(st, now) \<in> set ps. deadline < now - t0 then 1 else 0) \<and>
    snd (poll st now m) = List.map_filter (\<lambda>w. snd (poll_one st now w)) m \<and>
    (pulse_count (w_heartbeat w) st \<noteq> last_count w \<longrightarrow>
      poll_one st now w = (w\<lparr>last_count := pulse_count (w_heartbeat w) st, last_change_ns := now, w_alerted := False\<rparr>, None))"
proof (intro conjI impI)
  let ?w = "last (register m st0 h deadline t0)"
  have "length (snd (poll_run ps ?w)) =
      (if \<exists>(st, now) \<in> set ps. w_deadline_ns ?w < now - last_change_ns ?w then 1 else 0)"
    using assms by (intro poll_run_stalled) (simp_all add: register_def)
  then show "length (snd (poll_run ps ?w)) = (if \<exists>(st, now) \<in> set ps. deadline < now - t0 then 1 else 0)"
    by (simp add: register_def)
qed (auto simp: poll_nth(3) poll_one_def)

theorem silence_is_reported_once_witness:
  "length (snd (poll_run [(\<lambda>_. 7, 5), (\<lambda>_. 7, 30), (\<lambda>_. 7, 60)]
     (last (register [] (\<lambda>_. 7) \<lparr>hb_name = ''ebpf'', hb_counter = 0\<rparr> 20 0)))) = 1"
  using silence_is_reported_once [of "[(\<lambda>_. 7, 5), (\<lambda>_. 7, 30), (\<lambda>_. 7, 60)]"
      "\<lparr>hb_name = ''ebpf'', hb_counter = 0\<rparr>" "\<lambda>_. 7" "[]" 20 0]
  by (simp add: pulse_count_def)

lemma verify_one_None:
  "verify_one sha256 fs p h = None \<longleftrightarrow>
     (\<exists>content. fs p = Some (Regular content True) \<and> length content \<le> MAX_VERIFY_BYTES \<and> sha256 content = h)"
  by (auto simp: verify_one_def hash_file_def split: option.splits file_node.splits if_splits)

lemma map_filter_Nil: "List.map_filter f xs = [] \<longleftrightarrow> (\<forall>x \<in> set xs. f x = None)"
  by (induction xs) (auto split: option.splits)

text \<open>
  A clean verification means what it says: no violation is reported exactly when every
  protected path is a readable regular file within the size bound whose hash is the recorded one;
  and every reported violation is of a protected path that fails one of these.
\<close>

theorem integrity_clean_iff:
  "(verify sha256 fs m = []) =
     (\<forall>p h. (p, h) \<in> set (man_entries m) \<longrightarrow>
        (\<exists>content. fs p = Some (Regular content True) \<and> length content \<le> MAX_VERIFY_BYTES \<and> sha256 content = h)) \<and>
   (\<forall>v \<in> set (verify sha256 fs m). \<exists>h. (iv_path v, h) \<in> set (man_entries m) \<and>
        verify_one sha256 fs (iv_path v) h = Some (iv_kind v))"
proof
  show "(verify sha256 fs m = []) =
     (\<forall>p h. (p, h) \<in> set (man_entries m) \<longrightarrow>
        (\<exists>content. fs p = Some (Regular content True) \<and> length content \<le> MAX_VERIFY_BYTES \<and> sha256 content = h))"
    by (auto simp: verify_def map_filter_Nil verify_one_None [symmetric] split: prod.splits)
  show "\<forall>v \<in> set (verify sha256 fs m). \<exists>h. (iv_path v, h) \<in> set (man_entries m) \<and>
        verify_one sha256 fs (iv_path v) h = Some (iv_kind v)"
    by (auto simp: verify_def List.map_filter_def split: prod.splits)
qed

theorem integrity_clean_iff_witness:
  "verify (\<lambda>s. ''ab'') (\<lambda>p. if p = ''/a'' then Some (Regular ''x'' True) else None) (integrity_from_entries [(''/a'', ''AB'')]) = []"
proof -
  have "man_entries (integrity_from_entries [(''/a'', ''AB'')]) = [(''/a'', ''ab'')]"
    by (simp add: integrity_from_entries_def to_ascii_lowercase_def ascii_lower_def char_of_def bit_0)
  then show ?thesis
    using integrity_clean_iff [of "\<lambda>s. ''ab''" "\<lambda>p. if p = ''/a'' then Some (Regular ''x'' True) else None"
        "integrity_from_entries [(''/a'', ''AB'')]"] by (simp add: MAX_VERIFY_BYTES_def)
qed

end
