(* ===== verification/Updater.thy ===== *)
theory Updater
  imports Display "HOL-Library.AList"
begin

text \<open>
  The verification half of \<open>crates/updater\<close>: hexadecimal encoding (\<open>hash.rs\<close>), safe paths
  and the two signed manifests (\<open>content.rs\<close>, \<open>manifest.rs\<close>), the ban list
  (\<open>banlist.rs\<close>). Bytes and strings are byte strings. The signature check of \<open>ring\<close> and
  the canonical JSON bytes of a manifest are parameters. A slice of a string that is not at a
  character boundary panics in the source; the panic is the result \<open>None\<close> of
  \<open>hex_decode\<close>.
\<close>

datatype updater_error =
    SchemaVersionUnsupported nat nat
  | SignatureInvalid
  | ReleaseNotNewer nat nat
  | RingMismatch string string
  | ReleaseBanned nat
  | UnsafeContentPath string
  | UnsafeReleasePath string
  | StagedFileMissing string
  | StagedFileMismatch string string string
  | Io_Error string
  | ManifestCorrupt string

subsection \<open>Hexadecimal\<close>

definition hex_byte :: "char \<Rightarrow> string" where
  "hex_byte c = (let n = (of_char c :: nat) in [hex_digit (n div 16), hex_digit (n mod 16)])"

definition hex_encode :: "string \<Rightarrow> string" where
  "hex_encode bytes = concat (map hex_byte bytes)"

definition hex_value :: "char \<Rightarrow> nat option" where
  "hex_value c =
     (let n = (of_char c :: nat) in
      if 48 \<le> n \<and> n \<le> 57 then Some (n - 48)
      else if 97 \<le> n \<and> n \<le> 102 then Some (n - 87)
      else if 65 \<le> n \<and> n \<le> 70 then Some (n - 55)
      else None)"

text \<open>\<open>u8::from_str_radix(s, 16)\<close> of a two-byte string: the sign is accepted.\<close>

definition parse_hex2 :: "char \<Rightarrow> char \<Rightarrow> char option" where
  "parse_hex2 a b =
     (if a = CHR ''+'' then map_option (\<lambda>y. char_of y) (hex_value b)
      else (case (hex_value a, hex_value b) of
              (Some x, Some y) \<Rightarrow> Some (char_of (16 * x + y))
            | _ \<Rightarrow> None))"

definition is_char_boundary :: "string \<Rightarrow> nat \<Rightarrow> bool" where
  "is_char_boundary s i \<longleftrightarrow> i = 0 \<or> i = length s \<or> (i < length s \<and> \<not> is_continuation (s ! i))"

text \<open>The loop over the pairs from index \<open>i\<close> of the whole string \<open>s\<close>.\<close>

fun hex_pairs :: "string \<Rightarrow> nat \<Rightarrow> string \<Rightarrow> string option option" where
  "hex_pairs s i (a # b # rest) =
     (if \<not> (is_char_boundary s i \<and> is_char_boundary s (i + 2)) then None
      else (case parse_hex2 a b of
              None \<Rightarrow> Some None
            | Some c \<Rightarrow> (case hex_pairs s (i + 2) rest of
                            None \<Rightarrow> None
                          | Some None \<Rightarrow> Some None
                          | Some (Some cs) \<Rightarrow> Some (Some (c # cs)))))"
| "hex_pairs s i _ = Some (Some [])"

definition hex_decode :: "string \<Rightarrow> string option option" where
  "hex_decode s = (if odd (length s) then Some None else hex_pairs s 0 s)"

subsection \<open>Safe paths\<close>

definition WINDOWS_RESERVED_NAMES :: "string list" where
  "WINDOWS_RESERVED_NAMES =
     [''CON'', ''PRN'', ''AUX'', ''NUL'', ''COM1'', ''COM2'', ''COM3'', ''COM4'', ''COM5'', ''COM6'', ''COM7'',
      ''COM8'', ''COM9'', ''LPT1'', ''LPT2'', ''LPT3'', ''LPT4'', ''LPT5'', ''LPT6'', ''LPT7'', ''LPT8'', ''LPT9'',
      ''COM'' @ [CHR 0xC2, CHR 0xB9], ''COM'' @ [CHR 0xC2, CHR 0xB2], ''COM'' @ [CHR 0xC2, CHR 0xB3],
      ''LPT'' @ [CHR 0xC2, CHR 0xB9], ''LPT'' @ [CHR 0xC2, CHR 0xB2], ''LPT'' @ [CHR 0xC2, CHR 0xB3],
      ''CONIN$'', ''CONOUT$'']"

definition is_safe_path_segment :: "string \<Rightarrow> bool" where
  "is_safe_path_segment segment =
     (if segment = [] \<or> segment = ''.'' \<or> segment = ''..'' \<or> CHR '':'' \<in> set segment then False
      else if ends_with segment ''.'' \<or> ends_with segment '' '' then False
      else (let stem = hd (split_on (CHR ''.'') segment)
            in \<not> list_ex (eq_ignore_ascii_case stem) WINDOWS_RESERVED_NAMES))"

definition is_safe_relative_path :: "string \<Rightarrow> bool" where
  "is_safe_relative_path path \<longleftrightarrow>
     path \<noteq> [] \<and> \<not> starts_with path ''/'' \<and> CHR 0x5C \<notin> set path \<and> CHR 0x00 \<notin> set path
     \<and> list_all is_safe_path_segment (split_on (CHR ''/'') path)"

subsection \<open>The release manifest\<close>

definition MANIFEST_SCHEMA_VERSION :: nat where
  "MANIFEST_SCHEMA_VERSION = 1"

record release_manifest =
  rm_entries :: "(string \<times> string) list"
  rm_release_version :: nat
  rm_schema_version :: nat
  rm_signature :: string

text \<open>
  The signature check: \<open>canonical\<close> gives the JSON bytes of a manifest, \<open>ed25519_verify\<close>
  checks a message and a signature against the embedded key. The outer \<open>None\<close> is the panic.
\<close>

definition rm_canonical_bytes :: "(release_manifest \<Rightarrow> string) \<Rightarrow> release_manifest \<Rightarrow> string" where
  "rm_canonical_bytes to_json m = to_json (m\<lparr>rm_signature := []\<rparr>)"

definition rm_verify_signature ::
    "(release_manifest \<Rightarrow> string) \<Rightarrow> (string \<Rightarrow> string \<Rightarrow> bool) \<Rightarrow> release_manifest
     \<Rightarrow> (updater_error + unit) option" where
  "rm_verify_signature to_json ed25519_verify m =
     (if rm_schema_version m \<noteq> MANIFEST_SCHEMA_VERSION
      then Some (Inl (SchemaVersionUnsupported (rm_schema_version m) MANIFEST_SCHEMA_VERSION))
      else (case hex_decode (rm_signature m) of
              None \<Rightarrow> None
            | Some None \<Rightarrow> Some (Inl SignatureInvalid)
            | Some (Some sig_bytes) \<Rightarrow>
                Some (if ed25519_verify (rm_canonical_bytes to_json m) sig_bytes then Inr ()
                      else Inl SignatureInvalid)))"

definition rm_sign :: "(release_manifest \<Rightarrow> string) \<Rightarrow> (string \<Rightarrow> string) \<Rightarrow> release_manifest \<Rightarrow> release_manifest" where
  "rm_sign to_json key_sign m = m\<lparr>rm_signature := hex_encode (key_sign (rm_canonical_bytes to_json m))\<rparr>"

fun first_unsafe :: "string list \<Rightarrow> string option" where
  "first_unsafe [] = None"
| "first_unsafe (p # ps) = (if is_safe_relative_path p then first_unsafe ps else Some p)"

definition rm_validate_entry_paths :: "release_manifest \<Rightarrow> updater_error + unit" where
  "rm_validate_entry_paths m =
     (case first_unsafe (map fst (rm_entries m)) of None \<Rightarrow> Inr () | Some p \<Rightarrow> Inl (UnsafeReleasePath p))"

definition check_release_version :: "nat \<Rightarrow> nat option \<Rightarrow> updater_error + unit" where
  "check_release_version release_version current =
     (case current of
        Some c \<Rightarrow> if release_version \<le> c then Inl (ReleaseNotNewer release_version c) else Inr ()
      | None \<Rightarrow> Inr ())"

subsection \<open>The content manifest\<close>

definition CONTENT_MANIFEST_SCHEMA_VERSION :: nat where
  "CONTENT_MANIFEST_SCHEMA_VERSION = 1"

record content_entry =
  ce_metadata :: "string option"
  ce_path :: string
  ce_sha256 :: string
  ce_size :: nat
  ce_content_type :: string

record content_manifest =
  cm_entries :: "content_entry list"
  cm_release_version :: nat
  cm_released_at :: string
  cm_ring :: string
  cm_schema_version :: nat
  cm_signature :: string

definition cm_canonical_bytes :: "(content_manifest \<Rightarrow> string) \<Rightarrow> content_manifest \<Rightarrow> string" where
  "cm_canonical_bytes to_json m = to_json (m\<lparr>cm_signature := []\<rparr>)"

definition cm_verify_signature ::
    "(content_manifest \<Rightarrow> string) \<Rightarrow> (string \<Rightarrow> string \<Rightarrow> bool) \<Rightarrow> content_manifest
     \<Rightarrow> (updater_error + unit) option" where
  "cm_verify_signature to_json ed25519_verify m =
     (if cm_schema_version m \<noteq> CONTENT_MANIFEST_SCHEMA_VERSION
      then Some (Inl (SchemaVersionUnsupported (cm_schema_version m) CONTENT_MANIFEST_SCHEMA_VERSION))
      else (case hex_decode (cm_signature m) of
              None \<Rightarrow> None
            | Some None \<Rightarrow> Some (Inl SignatureInvalid)
            | Some (Some sig_bytes) \<Rightarrow>
                Some (if ed25519_verify (cm_canonical_bytes to_json m) sig_bytes then Inr ()
                      else Inl SignatureInvalid)))"

definition cm_sign :: "(content_manifest \<Rightarrow> string) \<Rightarrow> (string \<Rightarrow> string) \<Rightarrow> content_manifest \<Rightarrow> content_manifest" where
  "cm_sign to_json key_sign m = m\<lparr>cm_signature := hex_encode (key_sign (cm_canonical_bytes to_json m))\<rparr>"

definition check_ring :: "content_manifest \<Rightarrow> string \<Rightarrow> updater_error + unit" where
  "check_ring m requested = (if cm_ring m \<noteq> requested then Inl (RingMismatch requested (cm_ring m)) else Inr ())"

definition entries_to_fetch :: "content_manifest \<Rightarrow> (string \<times> string) list \<Rightarrow> content_entry list" where
  "entries_to_fetch m have_map = filter (\<lambda>e. map_of have_map (ce_path e) \<noteq> Some (ce_sha256 e)) (cm_entries m)"

definition cm_validate_entry_paths :: "content_manifest \<Rightarrow> updater_error + unit" where
  "cm_validate_entry_paths m =
     (case first_unsafe (map ce_path (cm_entries m)) of None \<Rightarrow> Inr () | Some p \<Rightarrow> Inl (UnsafeContentPath p))"

subsection \<open>The ban list\<close>

text \<open>The file: absent, unreadable, not a JSON array of integers, or its numbers.\<close>

datatype ban_file = No_File | Unreadable_File | Corrupt_File | Ban_List "nat list"

type_synonym banned_versions = "nat list"

definition bans_load :: "ban_file \<Rightarrow> updater_error + banned_versions" where
  "bans_load f =
     (case f of
        No_File \<Rightarrow> Inr []
      | Unreadable_File \<Rightarrow> Inl (Io_Error ''banned_versions.json'')
      | Corrupt_File \<Rightarrow> Inl (Io_Error ''banned_versions.json'')
      | Ban_List vs \<Rightarrow> Inr (sorted_list_of_set (set vs)))"

definition ban :: "nat \<Rightarrow> banned_versions \<Rightarrow> banned_versions" where
  "ban v b = insort_insert v b"

definition is_banned :: "banned_versions \<Rightarrow> nat \<Rightarrow> bool" where
  "is_banned b v \<longleftrightarrow> v \<in> set b"

definition bans_check :: "banned_versions \<Rightarrow> nat \<Rightarrow> updater_error + unit" where
  "bans_check b v = (if is_banned b v then Inl (ReleaseBanned v) else Inr ())"

subsection \<open>Hexadecimal round trip\<close>

lemma of_hex_digit: "n < 16 \<Longrightarrow> (of_char (hex_digit n) :: nat) = (if n < 10 then 48 + n else 87 + n)"
  by (simp add: hex_digit_def)

lemma hex_value_digit: "n < 16 \<Longrightarrow> hex_value (hex_digit n) = Some n"
  by (simp add: hex_value_def Let_def of_hex_digit)

lemma hex_digit_plain:
  assumes "n < 16"
  shows "hex_digit n \<noteq> CHR ''+''" "\<not> is_continuation (hex_digit n)"
proof -
  have "(of_char (hex_digit n) :: nat) \<noteq> of_char (CHR ''+'')" using assms by (simp add: of_hex_digit)
  then show "hex_digit n \<noteq> CHR ''+''" by metis
  show "\<not> is_continuation (hex_digit n)" using assms by (simp add: is_continuation_def of_hex_digit)
qed

lemma of_char_less_256: "(of_char c :: nat) < 256"
  by (metis (no_types, lifting) of_char_mod_256 mod_less_divisor zero_less_numeral)

lemma hex_byte_digits:
  obtains x y where "hex_byte c = [hex_digit x, hex_digit y]" "x < 16" "y < 16" "char_of (16 * x + y) = c"
proof -
  have "(of_char c :: nat) div 16 < 16" using of_char_less_256 [of c] by (simp add: less_mult_imp_div_less)
  moreover have "16 * ((of_char c :: nat) div 16) + of_char c mod 16 = of_char c" by simp
  ultimately show ?thesis
    by (intro that [of "of_char c div 16" "of_char c mod 16"]) (simp_all add: hex_byte_def Let_def)
qed

lemma parse_hex2_byte: "x < 16 \<Longrightarrow> y < 16 \<Longrightarrow> parse_hex2 (hex_digit x) (hex_digit y) = Some (char_of (16 * x + y))"
  by (simp add: parse_hex2_def hex_digit_plain hex_value_digit)

lemma hex_pairs_encode:
  assumes "\<forall>c \<in> set s. \<not> is_continuation c" and "drop i s = hex_encode bs" and "i \<le> length s"
  shows "hex_pairs s i (hex_encode bs) = Some (Some bs)"
  using assms(2,3)
proof (induction bs arbitrary: i)
  case Nil
  then show ?case by (simp add: hex_encode_def)
next
  case (Cons b bs)
  obtain x y where xy: "hex_byte b = [hex_digit x, hex_digit y]" "x < 16" "y < 16" "char_of (16 * x + y) = b"
    by (rule hex_byte_digits)
  have e: "hex_encode (b # bs) = hex_digit x # hex_digit y # hex_encode bs" by (simp add: hex_encode_def xy(1))
  have d: "drop (i + 2) s = hex_encode bs"
    using Cons.prems(1) e by (metis add.commute drop_drop drop_Suc_Cons drop_0 numeral_2_eq_2)
  have len: "i + 2 \<le> length s"
    using arg_cong [OF Cons.prems(1), of length] e by simp
  have "is_char_boundary s j" if "j \<le> length s" for j
    using that assms(1) by (auto simp: is_char_boundary_def)
  then show ?case
    using Cons.IH [OF d len] Cons.prems(2) len xy(4) parse_hex2_byte [OF xy(2,3)] unfolding e by simp
qed

lemma hex_encode_plain: "c \<in> set (hex_encode bs) \<Longrightarrow> \<not> is_continuation c"
proof (induction bs)
  case (Cons b bs)
  obtain x y where "hex_byte b = [hex_digit x, hex_digit y]" "x < 16" "y < 16" by (rule hex_byte_digits)
  then show ?case using Cons hex_digit_plain by (auto simp: hex_encode_def)
qed (simp add: hex_encode_def)

lemma even_hex_encode: "length (hex_encode bs) = 2 * length bs"
  by (induction bs) (simp_all add: hex_encode_def hex_byte_def Let_def)

lemma hex_round_trip: "hex_decode (hex_encode bs) = Some (Some bs)"
  by (simp add: hex_decode_def even_hex_encode hex_pairs_encode hex_encode_plain)

subsection \<open>Properties\<close>

text \<open>
  C33: Signing and verifying agree. Hexadecimal encoding is inverted by the decoder, so for a key
  whose signatures its verifier accepts, a manifest of the supported schema verifies after it was
  signed, whatever its signature field held before.
\<close>

theorem signed_manifest_verifies:
  assumes "\<forall>msg. ed25519_verify msg (key_sign msg)" and "rm_schema_version m = MANIFEST_SCHEMA_VERSION"
  shows "hex_decode (hex_encode bs) = Some (Some bs) \<and>
    rm_verify_signature to_json ed25519_verify (rm_sign to_json key_sign m) = Some (Inr ())"
  using assms
  by (simp add: hex_round_trip rm_verify_signature_def rm_sign_def rm_canonical_bytes_def)

definition sample_manifest :: release_manifest where
  "sample_manifest =
     \<lparr>rm_entries = [(''agent'', ''ab'')], rm_release_version = 2, rm_schema_version = 1, rm_signature = []\<rparr>"

theorem signed_manifest_verifies_witness:
  "rm_verify_signature (\<lambda>m. show_nat (rm_release_version m)) (\<lambda>msg s. s = rev msg)
     (rm_sign (\<lambda>m. show_nat (rm_release_version m)) rev sample_manifest) = Some (Inr ())"
proof -
  have "\<forall>msg :: string. (\<lambda>msg s. s = rev msg) msg (rev msg)" by simp
  moreover have "rm_schema_version sample_manifest = MANIFEST_SCHEMA_VERSION"
    by (simp add: sample_manifest_def MANIFEST_SCHEMA_VERSION_def)
  ultimately show ?thesis
    by (rule signed_manifest_verifies [where bs = "[]", THEN conjunct2])
qed

text \<open>
  The pair of digits at position \<open>j\<close>, and a character that reaches across the end of a pair: the
  byte after the pair continues it.
\<close>

definition hex_pair_at :: "string \<Rightarrow> nat \<Rightarrow> char option" where
  "hex_pair_at s j = parse_hex2 (s ! (2 * j)) (s ! (2 * j + 1))"

definition splits_character :: "string \<Rightarrow> nat \<Rightarrow> bool" where
  "splits_character s k \<longleftrightarrow> 2 * k + 2 < length s \<and> is_continuation (s ! (2 * k + 2))"

lemma boundary_after_pair: "2 * i + 2 \<le> length s \<Longrightarrow> is_char_boundary s (2 * i + 2) \<longleftrightarrow> \<not> splits_character s i"
  by (auto simp: is_char_boundary_def splits_character_def)

lemma hex_value_plain: "hex_value a = Some x \<Longrightarrow> \<not> is_continuation a"
  by (auto simp: is_continuation_def hex_value_def Let_def split: if_splits)

lemma parsed_plain: "parse_hex2 a b = Some c \<Longrightarrow> \<not> is_continuation a"
proof (cases "a = CHR ''+''")
  case True
  then show ?thesis by (simp add: is_continuation_def)
qed (auto simp: parse_hex2_def hex_value_plain split: option.splits)

lemma drop_pair:
  assumes "drop (2 * i) s = a # b # rest"
  shows "2 * i + 2 \<le> length s" "hex_pair_at s i = parse_hex2 a b" "drop (2 * Suc i) s = rest"
proof -
  have len: "length s = 2 * i + length (a # b # rest)" "2 * i \<le> length s"
    using arg_cong [OF assms, of length] by auto
  then show "2 * i + 2 \<le> length s" by simp
  have "s ! (2 * i + n) = (a # b # rest) ! n" for n using nth_drop [OF len(2), of n] assms by simp
  from this [of 0] this [of 1] show "hex_pair_at s i = parse_hex2 a b" by (simp add: hex_pair_at_def)
  show "drop (2 * Suc i) s = rest" using arg_cong [OF assms, of "drop 2"] by (simp add: add.commute)
qed

lemma first_split_from:
  assumes "\<not> splits_character s i"
  shows "(\<exists>k \<ge> i. splits_character s k \<and> (\<forall>j. i \<le> j \<and> j < k \<longrightarrow> hex_pair_at s j \<noteq> None)) \<longleftrightarrow>
    hex_pair_at s i \<noteq> None \<and> (\<exists>k \<ge> Suc i. splits_character s k \<and> (\<forall>j. Suc i \<le> j \<and> j < k \<longrightarrow> hex_pair_at s j \<noteq> None))"
  (is "?here \<longleftrightarrow> ?pair \<and> ?later")
proof
  assume ?here
  then obtain k where k: "i \<le> k" "splits_character s k" "\<forall>j. i \<le> j \<and> j < k \<longrightarrow> hex_pair_at s j \<noteq> None" by blast
  then have "i < k" using assms by (cases "i = k") auto
  then show "?pair \<and> ?later" using k by (auto intro!: exI [of _ k])
next
  assume later: "?pair \<and> ?later"
  then obtain k where k: "Suc i \<le> k" "splits_character s k" "\<forall>j. Suc i \<le> j \<and> j < k \<longrightarrow> hex_pair_at s j \<noteq> None" by blast
  then have "hex_pair_at s j \<noteq> None" if "i \<le> j" "j < k" for j using later that by (cases "j = i") auto
  then show ?here using k by (intro exI [of _ k]) auto
qed

lemma hex_pairs_panics:
  assumes "is_char_boundary s n" and "n = 2 * i" and "drop n s = rest" and "even (length rest)"
  shows "hex_pairs s n rest = None \<longleftrightarrow>
    (\<exists>k \<ge> i. splits_character s k \<and> (\<forall>j. i \<le> j \<and> j < k \<longrightarrow> hex_pair_at s j \<noteq> None))"
  using assms
proof (induction s n rest arbitrary: i rule: hex_pairs.induct)
  case (1 s n a b rest)
  have d: "drop (2 * i) s = a # b # rest" using "1.prems"(2,3) by simp
  note p = drop_pair [OF d]
  note bound = boundary_after_pair [OF p(1)]
  show ?case
  proof (cases "splits_character s i")
    case True
    then have "\<exists>k \<ge> i. splits_character s k \<and> (\<forall>j. i \<le> j \<and> j < k \<longrightarrow> hex_pair_at s j \<noteq> None)" by (intro exI [of _ i]) auto
    then show ?thesis using True bound "1.prems"(2) by simp
  next
    case False
    have b: "is_char_boundary s n" "is_char_boundary s (n + 2)" using False bound "1.prems"(1,2) by simp_all
    have next_pair: "n + 2 = 2 * Suc i" "drop (n + 2) s = rest" "even (length rest)" using p(3) "1.prems"(2,4) by simp_all
    have ih: "hex_pairs s (n + 2) rest = None \<longleftrightarrow>
        (\<exists>k \<ge> Suc i. splits_character s k \<and> (\<forall>j. Suc i \<le> j \<and> j < k \<longrightarrow> hex_pair_at s j \<noteq> None))"
      if "parse_hex2 a b = Some c" for c
      using "1.IH" [OF _ that b(2) next_pair] b by blast
    have "hex_pairs s n (a # b # rest) = None \<longleftrightarrow> parse_hex2 a b \<noteq> None \<and> hex_pairs s (n + 2) rest = None"
      using b by (simp split: option.split)
    then show ?thesis unfolding first_split_from [OF False] p(2) using ih by blast
  qed
qed (auto simp: splits_character_def)

lemma hex_pairs_decodes:
  assumes "is_char_boundary s n" and "n = 2 * i" and "drop n s = rest" and "even (length rest)"
  shows "hex_pairs s n rest = Some (Some bs) \<longleftrightarrow>
    length rest = 2 * length bs \<and> (\<forall>j < length bs. hex_pair_at s (i + j) = Some (bs ! j))"
  using assms
proof (induction s n rest arbitrary: i bs rule: hex_pairs.induct)
  case (1 s n a b rest)
  have d: "drop (2 * i) s = a # b # rest" using "1.prems"(2,3) by simp
  note p = drop_pair [OF d]
  note bound = boundary_after_pair [OF p(1)]
  show ?case
  proof (cases bs)
    case Nil
    then show ?thesis by (simp split: option.splits)
  next
    case (Cons c cs)
    have pairs: "(\<forall>j < length bs. hex_pair_at s (i + j) = Some (bs ! j)) \<longleftrightarrow>
        parse_hex2 a b = Some c \<and> (\<forall>j < length cs. hex_pair_at s (Suc i + j) = Some (cs ! j))"
      using p(2) by (simp add: Cons All_less_Suc2)
    have "\<not> splits_character s i" if "length rest = 2 * length cs" "\<forall>j < length cs. hex_pair_at s (Suc i + j) = Some (cs ! j)"
    proof
      assume split: "splits_character s i"
      then have "rest \<noteq> []" using p(3) by (auto simp: splits_character_def)
      then have "0 < length cs" using that(1) by (cases cs) auto
      then have "hex_pair_at s (Suc i) = Some (cs ! 0)" using that(2) by fastforce
      then have "\<not> is_continuation (s ! (2 * i + 2))" using parsed_plain by (fastforce simp: hex_pair_at_def)
      then show False using split by (simp add: splits_character_def)
    qed
    moreover have "hex_pairs s n (a # b # rest) = Some (Some bs) \<longleftrightarrow>
        parse_hex2 a b = Some c \<and> length rest = 2 * length cs \<and> (\<forall>j < length cs. hex_pair_at s (Suc i + j) = Some (cs ! j))"
      if no_split: "\<not> splits_character s i"
    proof -
      have b: "is_char_boundary s n" "is_char_boundary s (n + 2)" using no_split bound "1.prems"(1,2) by simp_all
      have next_pair: "n + 2 = 2 * Suc i" "drop (n + 2) s = rest" "even (length rest)" using p(3) "1.prems"(2,4) by simp_all
      have ih: "hex_pairs s (n + 2) rest = Some (Some cs) \<longleftrightarrow>
          length rest = 2 * length cs \<and> (\<forall>j < length cs. hex_pair_at s (Suc i + j) = Some (cs ! j))"
        if "parse_hex2 a b = Some c'" for c'
        using "1.IH" [OF _ that b(2) next_pair] b by blast
      have "hex_pairs s n (a # b # rest) = Some (Some bs) \<longleftrightarrow> parse_hex2 a b = Some c \<and> hex_pairs s (n + 2) rest = Some (Some cs)"
        using b by (simp add: Cons split: option.split)
      then show ?thesis using ih by blast
    qed
    moreover have "hex_pairs s n (a # b # rest) = None" if "splits_character s i" using that bound "1.prems"(2) by simp
    ultimately show ?thesis unfolding pairs by (cases "splits_character s i") (auto simp: Cons)
  qed
qed auto

lemma hex_decode_outcomes:
  "hex_decode s = None \<longleftrightarrow> even (length s) \<and> (\<exists>k. splits_character s k \<and> (\<forall>j < k. hex_pair_at s j \<noteq> None))"
  "hex_decode s = Some (Some bs) \<longleftrightarrow> length s = 2 * length bs \<and> (\<forall>j < length bs. hex_pair_at s j = Some (bs ! j))"
  using hex_pairs_panics [of s 0 0 s] hex_pairs_decodes [of s 0 0 s bs]
  by (auto simp: hex_decode_def is_char_boundary_def)

text \<open>
  C34: The outcomes of the signature check, exactly. It accepts a manifest of the supported schema
  if and only if its signature field is a sequence of pairs of hexadecimal digits (a pair may also
  be a plus sign and a digit) whose bytes the key accepts for the canonical content. It panics if
  and only if the schema is supported, the field has an even number of bytes, and some byte at an
  even offset continues a multi-byte character while all the pairs that end before the slice that
  cuts this character are hexadecimal: a malformed signature does not always fail cleanly.
\<close>

theorem signature_check_outcomes:
  "(rm_verify_signature to_json ed25519_verify m = Some (Inr ()) \<longleftrightarrow>
      rm_schema_version m = MANIFEST_SCHEMA_VERSION \<and>
      (\<exists>bs. length (rm_signature m) = 2 * length bs \<and> (\<forall>j < length bs. hex_pair_at (rm_signature m) j = Some (bs ! j)) \<and>
         ed25519_verify (rm_canonical_bytes to_json m) bs)) \<and>
   (rm_verify_signature to_json ed25519_verify m = None \<longleftrightarrow>
      rm_schema_version m = MANIFEST_SCHEMA_VERSION \<and> even (length (rm_signature m)) \<and>
      (\<exists>k. splits_character (rm_signature m) k \<and> (\<forall>j < k. hex_pair_at (rm_signature m) j \<noteq> None)))"
proof -
  have "rm_verify_signature to_json ed25519_verify m = Some (Inr ()) \<longleftrightarrow> rm_schema_version m = MANIFEST_SCHEMA_VERSION \<and>
      (\<exists>bs. hex_decode (rm_signature m) = Some (Some bs) \<and> ed25519_verify (rm_canonical_bytes to_json m) bs)"
    "rm_verify_signature to_json ed25519_verify m = None \<longleftrightarrow>
      rm_schema_version m = MANIFEST_SCHEMA_VERSION \<and> hex_decode (rm_signature m) = None"
    by (auto simp: rm_verify_signature_def split: option.split)
  then show ?thesis unfolding hex_decode_outcomes by (simp only: conj_assoc)
qed

text \<open>A signature of four bytes whose middle two are one character, and one with a plus sign.\<close>

theorem signature_check_outcomes_witness:
  "rm_verify_signature (\<lambda>_. []) (\<lambda>_ _. True)
     (sample_manifest\<lparr>rm_signature := [CHR ''a'', CHR 0xC3, CHR 0xA9, CHR ''b'']\<rparr>) = None \<and>
   rm_verify_signature (\<lambda>_. []) (\<lambda>_ sig. sig = [CHR 0x0F]) (sample_manifest\<lparr>rm_signature := ''+f''\<rparr>) = Some (Inr ())"
proof
  let ?m = "sample_manifest\<lparr>rm_signature := [CHR ''a'', CHR 0xC3, CHR 0xA9, CHR ''b'']\<rparr>"
  have "splits_character (rm_signature ?m) 0 \<and> (\<forall>j < 0. hex_pair_at (rm_signature ?m) j \<noteq> None)"
    by (simp add: splits_character_def is_continuation_def)
  then show "rm_verify_signature (\<lambda>_. []) (\<lambda>_ _. True) ?m = None"
    using signature_check_outcomes [of "\<lambda>_. []" "\<lambda>_ _. True" ?m] by (auto simp: sample_manifest_def MANIFEST_SCHEMA_VERSION_def)
  let ?n = "sample_manifest\<lparr>rm_signature := ''+f''\<rparr>"
  have "parse_hex2 CHR ''+'' CHR ''f'' = Some (CHR 0x0F)" by code_simp
  then have "length (rm_signature ?n) = 2 * length [CHR 0x0F] \<and>
      (\<forall>j < length [CHR 0x0F]. hex_pair_at (rm_signature ?n) j = Some ([CHR 0x0F] ! j))"
    by (simp add: hex_pair_at_def)
  then show "rm_verify_signature (\<lambda>_. []) (\<lambda>_ sig. sig = [CHR 0x0F]) ?n = Some (Inr ())"
    using signature_check_outcomes [of "\<lambda>_. []" "\<lambda>_ sig. sig = [CHR 0x0F]" ?n]
    by (auto simp: sample_manifest_def MANIFEST_SCHEMA_VERSION_def)
qed

text \<open>What the operating system makes of a path: empty and dot components vanish, a double dot
  goes up.\<close>

definition resolve_step :: "string list \<Rightarrow> string \<Rightarrow> string list" where
  "resolve_step acc c = (if c = [] \<or> c = ''.'' then acc else if c = ''..'' then butlast acc else acc @ [c])"

definition resolve_path :: "string list \<Rightarrow> string list" where
  "resolve_path cs = foldl resolve_step [] cs"

lemma resolve_plain:
  assumes "\<forall>c \<in> set cs. c \<noteq> [] \<and> c \<noteq> ''.'' \<and> c \<noteq> ''..''"
  shows "foldl resolve_step acc cs = acc @ cs"
  using assms by (induction cs arbitrary: acc) (auto simp: resolve_step_def)

lemma safe_segment_plain: "is_safe_path_segment c \<Longrightarrow> c \<noteq> [] \<and> c \<noteq> ''.'' \<and> c \<noteq> ''..'' \<and> CHR '':'' \<notin> set c"
  by (auto simp: is_safe_path_segment_def split: if_splits)

lemma first_unsafe_None: "first_unsafe ps = None \<longleftrightarrow> (\<forall>p \<in> set ps. is_safe_relative_path p)"
  by (induction ps) auto

text \<open>
  C16: Validated paths cannot leave their root. When the path check of a release or content
  manifest passes, every entry resolves below any root to the root followed by the entry's own
  components: nothing goes up, nothing is absolute, and no component holds a colon (no drive
  prefix, no alternate stream).
\<close>

theorem validated_paths_stay_below_root:
  assumes "rm_validate_entry_paths m = Inr () \<and> p \<in> fst ` set (rm_entries m) \<or>
    cm_validate_entry_paths c = Inr () \<and> p \<in> ce_path ` set (cm_entries c)"
  shows "resolve_path (base @ split_on (CHR ''/'') p) = resolve_path base @ split_on (CHR ''/'') p \<and>
    split_on (CHR ''/'') p \<noteq> [] \<and> CHR 0x5C \<notin> set p \<and>
    (\<forall>s \<in> set (split_on (CHR ''/'') p). s \<noteq> [] \<and> s \<noteq> ''..'' \<and> CHR '':'' \<notin> set s \<and> CHR ''/'' \<notin> set s)"
proof -
  have safe: "is_safe_relative_path p"
    using assms by (auto simp: rm_validate_entry_paths_def cm_validate_entry_paths_def first_unsafe_None
        split: option.splits)
  then have seg: "is_safe_path_segment s" if "s \<in> set (split_on (CHR ''/'') p)" for s
    using that by (simp add: is_safe_relative_path_def list_all_iff)
  have "resolve_path (base @ split_on (CHR ''/'') p) = resolve_path base @ split_on (CHR ''/'') p"
    unfolding resolve_path_def foldl_append
    by (rule resolve_plain) (use seg safe_segment_plain in blast)
  then show ?thesis
    using safe seg safe_segment_plain split_on_no_sep by (auto simp: is_safe_relative_path_def)
qed

theorem validated_paths_stay_below_root_witness:
  "resolve_path ([''var'', ''v2''] @ split_on (CHR ''/'') ''bin/agent'') = [''var'', ''v2'', ''bin'', ''agent'']"
proof -
  let ?m = "sample_manifest\<lparr>rm_entries := [(''bin/agent'', ''ab'')]\<rparr>"
  have "is_safe_relative_path ''bin/agent''" by code_simp
  then have "rm_validate_entry_paths ?m = Inr () \<and> ''bin/agent'' \<in> fst ` set (rm_entries ?m)"
    by (simp add: rm_validate_entry_paths_def)
  then have "resolve_path ([''var'', ''v2''] @ split_on (CHR ''/'') ''bin/agent'') =
      resolve_path [''var'', ''v2''] @ split_on (CHR ''/'') ''bin/agent''"
    using validated_paths_stay_below_root [of ?m "''bin/agent''" _ "[''var'', ''v2'']"] by blast
  then show ?thesis by (simp add: resolve_path_def resolve_step_def)
qed

end
