(* ===== verification/FileSys.thy ===== *)
theory FileSys
  imports Decimal "HOL-Library.AList" "HOL-Library.Sublist"
begin

text \<open>
  The file system calls of the standard library that the updater, the release command and the
  watchdog use. A disk maps absolute paths (component lists) to directories, files and symbolic
  links; a path is walked component by component, through links, and the kernel gives up after
  forty of them. The state of the operating system is the disk and the number of calls made; the
  argument \<open>fl\<close> says which calls fail and what a failed call leaves behind. Metadata queries
  (\<open>is_file\<close>, \<open>is_dir\<close>, \<open>lstat\<close>, \<open>read_link\<close>) only fail when the walk does.
\<close>

type_synonym path = "string list"

datatype link_target = Absolute path | Relative path

datatype node = Dir | File string | Symlink link_target

type_synonym disk = "(path \<times> node) list"

datatype io_error = NotFound | AlreadyExists | OtherKind

definition node_at :: "disk \<Rightarrow> path \<Rightarrow> node option" where
  "node_at d p = (if p = [] then Some Dir else map_of d p)"

definition plain_name :: "string \<Rightarrow> bool" where
  "plain_name c \<longleftrightarrow> c \<noteq> [] \<and> c \<noteq> ''.'' \<and> c \<noteq> ''..''"

subsection \<open>Walking a path\<close>

fun link_start :: "path \<Rightarrow> link_target \<Rightarrow> path" where
  "link_start cur (Absolute _) = []"
| "link_start cur (Relative _) = cur"

fun link_components :: "link_target \<Rightarrow> path" where
  "link_components (Absolute cs) = cs"
| "link_components (Relative cs) = cs"

text \<open>The physical place of the components \<open>cs\<close> below the directory \<open>cur\<close>; the last component
  need not exist, and is followed when it is a link if \<open>follow\<close> is set.\<close>

function walk :: "disk \<Rightarrow> nat \<Rightarrow> bool \<Rightarrow> path \<Rightarrow> path \<Rightarrow> io_error + path" where
  "walk d n follow cur [] = Inr cur"
| "walk d n follow cur (c # cs) =
     (if c = [] \<or> c = ''.'' then walk d n follow cur cs
      else if c = ''..'' then walk d n follow (butlast cur) cs
      else (case node_at d (cur @ [c]) of
              None \<Rightarrow> if cs = [] then Inr (cur @ [c]) else Inl NotFound
            | Some Dir \<Rightarrow> walk d n follow (cur @ [c]) cs
            | Some (File _) \<Rightarrow> if cs = [] then Inr (cur @ [c]) else Inl OtherKind
            | Some (Symlink t) \<Rightarrow>
                if cs = [] \<and> \<not> follow then Inr (cur @ [c])
                else if n = 0 then Inl OtherKind
                else walk d (n - 1) follow (link_start cur t) (link_components t @ cs)))"
  by pat_completeness auto

termination
  by (relation "measures [\<lambda>(d, n, f, cur, cs). n, \<lambda>(d, n, f, cur, cs). length cs]") auto

definition MAX_LINKS :: nat where
  "MAX_LINKS = 40"

definition follow_path :: "disk \<Rightarrow> path \<Rightarrow> io_error + path" where
  "follow_path d p = walk d MAX_LINKS True [] p"

definition locate :: "disk \<Rightarrow> path \<Rightarrow> io_error + path" where
  "locate d p = walk d MAX_LINKS False [] p"

definition node_of :: "disk \<Rightarrow> io_error + path \<Rightarrow> node option" where
  "node_of d w = (case w of Inl _ \<Rightarrow> None | Inr p \<Rightarrow> node_at d p)"

subsection \<open>Effects on the disk\<close>

definition put :: "path \<Rightarrow> node \<Rightarrow> disk \<Rightarrow> disk" where
  "put p n d = AList.update p n d"

definition drop_node :: "path \<Rightarrow> disk \<Rightarrow> disk" where
  "drop_node p d = filter (\<lambda>(q, _). q \<noteq> p) d"

definition drop_tree :: "path \<Rightarrow> disk \<Rightarrow> disk" where
  "drop_tree p d = filter (\<lambda>(q, _). \<not> prefix p q) d"

definition has_children :: "disk \<Rightarrow> path \<Rightarrow> bool" where
  "has_children d p = list_ex (\<lambda>(q, _). strict_prefix p q) d"

definition move_tree :: "path \<Rightarrow> path \<Rightarrow> disk \<Rightarrow> disk" where
  "move_tree p q d =
     map (\<lambda>(r, n). if prefix p r then (q @ drop (length p) r, n) else (r, n)) (drop_tree q d)"

definition move_node :: "path \<Rightarrow> path \<Rightarrow> disk \<Rightarrow> disk" where
  "move_node p q d =
     (case node_at d p of
        Some (File b) \<Rightarrow> put q (File b) (drop_node p d)
      | Some (Symlink t) \<Rightarrow> put q (Symlink t) (drop_node p d)
      | _ \<Rightarrow> move_tree p q d)"

type_synonym 'a effect = "disk \<Rightarrow> disk \<times> (io_error + 'a)"

definition d_write :: "path \<Rightarrow> string \<Rightarrow> unit effect" where
  "d_write p bytes d =
     (case follow_path d p of
        Inl e \<Rightarrow> (d, Inl e)
      | Inr q \<Rightarrow> (case node_at d q of
                    None \<Rightarrow> (put q (File bytes) d, Inr ())
                  | Some (File _) \<Rightarrow> (put q (File bytes) d, Inr ())
                  | Some _ \<Rightarrow> (d, Inl OtherKind)))"

text \<open>Opening with \<open>create_new\<close>: any entry at the name, a link included, is an error.\<close>

definition d_create_new :: "path \<Rightarrow> unit effect" where
  "d_create_new p d =
     (case locate d p of
        Inl e \<Rightarrow> (d, Inl e)
      | Inr q \<Rightarrow> if node_at d q = None then (put q (File []) d, Inr ()) else (d, Inl AlreadyExists))"

definition d_read :: "path \<Rightarrow> string effect" where
  "d_read p d =
     (d, case node_of d (follow_path d p) of
           Some (File b) \<Rightarrow> Inr b
         | Some _ \<Rightarrow> Inl OtherKind
         | None \<Rightarrow> (case follow_path d p of Inl e \<Rightarrow> Inl e | Inr _ \<Rightarrow> Inl NotFound))"

definition read_link :: "disk \<Rightarrow> path \<Rightarrow> link_target option" where
  "read_link d p = (case node_of d (locate d p) of Some (Symlink t) \<Rightarrow> Some t | _ \<Rightarrow> None)"

definition d_symlink :: "link_target \<Rightarrow> path \<Rightarrow> unit effect" where
  "d_symlink t p d =
     (case locate d p of
        Inl e \<Rightarrow> (d, Inl e)
      | Inr q \<Rightarrow> if node_at d q = None then (put q (Symlink t) d, Inr ()) else (d, Inl AlreadyExists))"

definition d_remove_file :: "path \<Rightarrow> unit effect" where
  "d_remove_file p d =
     (case locate d p of
        Inl e \<Rightarrow> (d, Inl e)
      | Inr q \<Rightarrow> (case node_at d q of
                    None \<Rightarrow> (d, Inl NotFound)
                  | Some Dir \<Rightarrow> (d, Inl OtherKind)
                  | Some _ \<Rightarrow> (drop_node q d, Inr ())))"

definition d_remove_dir_all :: "path \<Rightarrow> unit effect" where
  "d_remove_dir_all p d =
     (case locate d p of
        Inl e \<Rightarrow> (d, Inl e)
      | Inr q \<Rightarrow> (case node_at d q of
                    None \<Rightarrow> (d, Inl NotFound)
                  | Some Dir \<Rightarrow> if q = [] then (d, Inl OtherKind) else (drop_tree q d, Inr ())
                  | Some (File _) \<Rightarrow> (d, Inl OtherKind)
                  | Some (Symlink _) \<Rightarrow> (drop_node q d, Inr ())))"

text \<open>\<open>rename(2)\<close>: links are moved and replaced, never followed; a directory replaces only an
  empty directory, and cannot move below itself.\<close>

definition d_rename :: "path \<Rightarrow> path \<Rightarrow> unit effect" where
  "d_rename p p' d =
     (case (locate d p, locate d p') of
        (Inl e, _) \<Rightarrow> (d, Inl e)
      | (_, Inl e) \<Rightarrow> (d, Inl e)
      | (Inr q, Inr q') \<Rightarrow>
          if node_at d q = None then (d, Inl NotFound)
          else if q = q' then (d, Inr ())
          else if q = [] \<or> q' = [] \<or> prefix q q' then (d, Inl OtherKind)
          else (case node_at d q' of
                  None \<Rightarrow> (move_node q q' d, Inr ())
                | Some Dir \<Rightarrow>
                    if node_at d q = Some Dir \<and> \<not> has_children d q' then (move_node q q' d, Inr ())
                    else (d, Inl OtherKind)
                | Some _ \<Rightarrow>
                    if node_at d q = Some Dir then (d, Inl OtherKind) else (move_node q q' d, Inr ())))"

definition d_mkdir :: "path \<Rightarrow> unit effect" where
  "d_mkdir p d =
     (case locate d p of
        Inl e \<Rightarrow> (d, Inl e)
      | Inr q \<Rightarrow> if node_at d q = None then (put q Dir d, Inr ()) else (d, Inl AlreadyExists))"

definition dir_exists :: "disk \<Rightarrow> path \<Rightarrow> bool" where
  "dir_exists d p \<longleftrightarrow> node_of d (follow_path d p) = Some Dir"

definition file_exists :: "disk \<Rightarrow> path \<Rightarrow> bool" where
  "file_exists d p \<longleftrightarrow> (case node_of d (follow_path d p) of Some (File _) \<Rightarrow> True | _ \<Rightarrow> False)"

text \<open>\<open>create_dir_all\<close>, over the path read backwards: the parents are made when they are
  missing, an existing directory is fine.\<close>

fun d_create_dirs :: "string list \<Rightarrow> unit effect" where
  "d_create_dirs [] d = (d, Inr ())"
| "d_create_dirs (c # rs) d =
     (case d_mkdir (rev (c # rs)) d of
        (d1, Inr ()) \<Rightarrow> (d1, Inr ())
      | (d1, Inl NotFound) \<Rightarrow>
          (case d_create_dirs rs d1 of
             (d2, Inl e) \<Rightarrow> (d2, Inl e)
           | (d2, Inr ()) \<Rightarrow>
               (case d_mkdir (rev (c # rs)) d2 of
                  (d3, Inr ()) \<Rightarrow> (d3, Inr ())
                | (d3, Inl e) \<Rightarrow> (d3, if dir_exists d3 (rev (c # rs)) then Inr () else Inl e)))
      | (d1, Inl e) \<Rightarrow> (d1, if dir_exists d1 (rev (c # rs)) then Inr () else Inl e))"

definition d_create_dir_all :: "path \<Rightarrow> unit effect" where
  "d_create_dir_all p d = d_create_dirs (rev p) d"

definition d_read_dir :: "path \<Rightarrow> string list effect" where
  "d_read_dir p d =
     (d, case follow_path d p of
           Inl e \<Rightarrow> Inl e
         | Inr q \<Rightarrow> (case node_at d q of
                       None \<Rightarrow> Inl NotFound
                     | Some Dir \<Rightarrow> Inr (remdups (map last (filter (\<lambda>r. r \<noteq> [] \<and> butlast r = q) (map fst d))))
                     | Some _ \<Rightarrow> Inl OtherKind))"

subsection \<open>Calls that may fail\<close>

record fault =
  left_bytes :: "nat option"
  left_removed :: "path list"
  left_made :: nat

type_synonym faults = "nat \<Rightarrow> fault option"

record os =
  os_disk :: disk
  os_calls :: nat

type_synonym ('e, 'a) io = "os \<Rightarrow> ('e + 'a) \<times> os"

definition io_return :: "'a \<Rightarrow> ('e, 'a) io" where
  "io_return x s = (Inr x, s)"

definition io_fail :: "'e \<Rightarrow> ('e, 'a) io" where
  "io_fail e s = (Inl e, s)"

text \<open>Run a step and go on with its result, the error included; run a step and return its error
  at once (the question mark operator); translate the error; look at the disk.\<close>

definition io_try :: "('e, 'a) io \<Rightarrow> ('e + 'a \<Rightarrow> ('f, 'b) io) \<Rightarrow> ('f, 'b) io" where
  "io_try m k s = (let (r, s1) = m s in k r s1)"

definition io_bind :: "('e, 'a) io \<Rightarrow> ('a \<Rightarrow> ('e, 'b) io) \<Rightarrow> ('e, 'b) io" where
  "io_bind m k = io_try m (\<lambda>r. case r of Inl e \<Rightarrow> io_fail e | Inr x \<Rightarrow> k x)"

definition io_map_err :: "('e \<Rightarrow> 'f) \<Rightarrow> ('e, 'a) io \<Rightarrow> ('f, 'a) io" where
  "io_map_err f m = io_try m (\<lambda>r. case r of Inl e \<Rightarrow> io_fail (f e) | Inr x \<Rightarrow> io_return x)"

definition io_query :: "(disk \<Rightarrow> 'a) \<Rightarrow> ('e, 'a) io" where
  "io_query f s = (Inr (f (os_disk s)), s)"

definition io_of :: "'e + 'a \<Rightarrow> ('e, 'a) io" where
  "io_of r s = (r, s)"

definition os_call :: "faults \<Rightarrow> (fault \<Rightarrow> disk \<Rightarrow> disk) \<Rightarrow> 'a effect \<Rightarrow> (io_error, 'a) io" where
  "os_call fl damage effect s =
     (let s1 = s\<lparr>os_calls := Suc (os_calls s)\<rparr> in
      case fl (os_calls s) of
        None \<Rightarrow> (let (d, r) = effect (os_disk s) in (r, s1\<lparr>os_disk := d\<rparr>))
      | Some f \<Rightarrow> (Inl OtherKind, s1\<lparr>os_disk := damage f (os_disk s)\<rparr>))"

definition unharmed :: "fault \<Rightarrow> disk \<Rightarrow> disk" where
  "unharmed f d = d"

definition remove_leaf :: "path \<Rightarrow> disk \<Rightarrow> disk" where
  "remove_leaf p d = (if p = [] \<or> has_children d p then d else drop_node p d)"

definition partly_written :: "path \<Rightarrow> string \<Rightarrow> fault \<Rightarrow> disk \<Rightarrow> disk" where
  "partly_written p bytes f d =
     (case left_bytes f of None \<Rightarrow> d | Some n \<Rightarrow> fst (d_write p (take n bytes) d))"

definition partly_removed :: "path \<Rightarrow> fault \<Rightarrow> disk \<Rightarrow> disk" where
  "partly_removed p f d =
     (case locate d p of Inl _ \<Rightarrow> d | Inr q \<Rightarrow> fold remove_leaf (filter (prefix q) (left_removed f)) d)"

definition partly_made :: "path \<Rightarrow> fault \<Rightarrow> disk \<Rightarrow> disk" where
  "partly_made p f d = fst (d_create_dir_all (take (left_made f) p) d)"

definition sys_write where "sys_write fl p bytes = os_call fl (partly_written p bytes) (d_write p bytes)"

definition sys_create_new where "sys_create_new fl p = os_call fl unharmed (d_create_new p)"

definition sys_read where "sys_read fl p = os_call fl unharmed (d_read p)"

definition sys_symlink where "sys_symlink fl t p = os_call fl unharmed (d_symlink t p)"

definition sys_remove_file where "sys_remove_file fl p = os_call fl unharmed (d_remove_file p)"

definition sys_remove_dir_all where "sys_remove_dir_all fl p = os_call fl (partly_removed p) (d_remove_dir_all p)"

definition sys_rename where "sys_rename fl p q = os_call fl unharmed (d_rename p q)"

definition sys_create_dir_all where "sys_create_dir_all fl p = os_call fl (partly_made p) (d_create_dir_all p)"

definition sys_read_dir where "sys_read_dir fl p = os_call fl unharmed (d_read_dir p)"

lemmas sys_defs = sys_write_def sys_create_new_def sys_read_def sys_symlink_def
  sys_remove_file_def sys_remove_dir_all_def sys_rename_def sys_create_dir_all_def sys_read_dir_def

lemmas io_defs = io_return_def io_fail_def io_try_def io_bind_def io_map_err_def io_query_def io_of_def

subsection \<open>Paths without links\<close>

lemma node_at_put: "p \<noteq> [] \<Longrightarrow> node_at (put p n d) q = (if q = p then Some n else node_at d q)"
  by (simp add: node_at_def put_def update_conv)

lemma prefix_drop: "prefix p q \<Longrightarrow> p @ drop (length p) q = q"
  by (auto simp: prefix_def)

lemma map_of_filter_keys: "map_of (filter (\<lambda>(k, _). P k) al) k = (if P k then map_of al k else None)"
  by (induction al) auto

lemma node_at_drop_node: "p \<noteq> [] \<Longrightarrow> node_at (drop_node p d) q = (if q = p then None else node_at d q)"
  by (simp add: node_at_def drop_node_def map_of_filter_keys)

lemma node_at_drop_tree: "p \<noteq> [] \<Longrightarrow> node_at (drop_tree p d) q = (if prefix p q then None else node_at d q)"
  by (auto simp: node_at_def drop_tree_def map_of_filter_keys)

lemma map_of_move:
  assumes "\<And>r n. (r, n) \<in> set al \<Longrightarrow> \<not> prefix q r"
  shows "map_of (map (\<lambda>(r, n). if prefix p r then (q @ drop (length p) r, n) else (r, n)) al) r =
    (if prefix q r then map_of al (p @ drop (length q) r) else if prefix p r then None else map_of al r)"
  using assms
proof (induction al)
  case (Cons x al)
  obtain t n where x: "x = (t, n)" by (cases x)
  have qt: "\<not> prefix q t" using Cons.prems [of t n] x by simp
  have ih: "map_of (map (\<lambda>(r, n). if prefix p r then (q @ drop (length p) r, n) else (r, n)) al) r =
    (if prefix q r then map_of al (p @ drop (length q) r) else if prefix p r then None else map_of al r)"
    by (rule Cons.IH) (use Cons.prems in auto)
  show ?case
  proof (cases "prefix p t")
    case True
    then have "q @ drop (length p) t = r \<longleftrightarrow> prefix q r \<and> t = p @ drop (length q) r"
      by (auto simp: prefix_def)
    then show ?thesis using True ih x by (cases "prefix q r") auto
  next
    case False
    then have "t \<noteq> p @ drop (length q) r" by auto
    then show ?thesis using False ih x qt by auto
  qed
qed simp

lemma node_at_move_tree:
  assumes "p \<noteq> []" "q \<noteq> []" "\<not> prefix p q"
  shows "node_at (move_tree p q d) r =
    (if prefix q r then (if prefix q (p @ drop (length q) r) then None else node_at d (p @ drop (length q) r))
     else if prefix p r then None else node_at d r)"
proof -
  have "\<not> prefix q r" if "(r, n) \<in> set (drop_tree q d)" for r n
    using that by (auto simp: drop_tree_def)
  then have "map_of (move_tree p q d) r =
    (if prefix q r then map_of (drop_tree q d) (p @ drop (length q) r)
     else if prefix p r then None else map_of (drop_tree q d) r)"
    unfolding move_tree_def by (rule map_of_move)
  then show ?thesis
    using assms by (auto simp: node_at_def drop_tree_def map_of_filter_keys prefix_def)
qed

end
