(* ===== verification/FileArea.thy ===== *)
theory FileArea
  imports FileSys
begin

text \<open>
  Calls confined to a directory. An area is a directory \<open>V\<close> whose parents are real directories
  and a set \<open>L\<close> of paths; no path of \<open>L\<close> below \<open>V\<close> is a symbolic link. Every call on a
  path whose components below \<open>V\<close> are in \<open>L\<close>, failed calls included, leaves everything outside
  \<open>V\<close> alone and introduces no link in \<open>L\<close>. The rules compose along the program, so that a
  client proves its confinement by applying them.
\<close>

named_theorems area_rules

definition area_ok :: "path \<Rightarrow> path set \<Rightarrow> disk \<Rightarrow> bool" where
  "area_ok V L d \<longleftrightarrow> V \<noteq> [] \<and> list_all plain_name V
     \<and> (\<forall>q. strict_prefix q V \<longrightarrow> node_at d q = Some Dir)
     \<and> (\<forall>q t. prefix V q \<and> q \<in> L \<longrightarrow> node_at d q \<noteq> Some (Symlink t))"

definition area_step :: "path \<Rightarrow> path set \<Rightarrow> disk \<Rightarrow> disk \<Rightarrow> bool" where
  "area_step V L d d' \<longleftrightarrow> (\<forall>q. \<not> prefix V q \<longrightarrow> node_at d' q = node_at d q) \<and> area_ok V L d'"

definition in_area :: "path \<Rightarrow> path set \<Rightarrow> path \<Rightarrow> bool" where
  "in_area V L p \<longleftrightarrow> prefix V p \<and> list_all plain_name p \<and> (\<forall>q. prefix V q \<and> prefix q p \<longrightarrow> q \<in> L)"

definition keeps :: "path \<Rightarrow> path set \<Rightarrow> ('e, 'a) io \<Rightarrow> bool" where
  "keeps V L m \<longleftrightarrow> (\<forall>s. area_ok V L (os_disk s) \<longrightarrow> area_step V L (os_disk s) (os_disk (snd (m s))))"

subsection \<open>Walking in an area\<close>

lemma walk_no_links:
  assumes "list_all plain_name cs"
    and "\<And>q t. strict_prefix cur q \<Longrightarrow> prefix q (cur @ cs) \<Longrightarrow> follow \<or> q \<noteq> cur @ cs \<Longrightarrow>
      node_at d q \<noteq> Some (Symlink t)"
  shows "walk d n follow cur cs = Inr (cur @ cs) \<or> (\<exists>e. walk d n follow cur cs = Inl e)"
  using assms
proof (induction cs arbitrary: cur)
  case (Cons c cs)
  have "walk d n follow (cur @ [c]) cs = Inr ((cur @ [c]) @ cs) \<or> (\<exists>e. walk d n follow (cur @ [c]) cs = Inl e)"
    by (rule Cons.IH) (use Cons.prems in \<open>auto simp: strict_prefix_def prefix_def\<close>)
  moreover have "node_at d (cur @ [c]) \<noteq> Some (Symlink t)" if "follow \<or> cs \<noteq> []" for t
    using Cons.prems(2) [of "cur @ [c]"] that by (auto simp: strict_prefix_def)
  ultimately show ?case
    using Cons.prems(1) by (auto simp: plain_name_def split: option.splits node.splits)
qed simp

lemma walk_through_dirs:
  assumes "list_all plain_name cs"
    and "\<And>q. strict_prefix cur q \<Longrightarrow> strict_prefix q (cur @ cs) \<Longrightarrow> node_at d q = Some Dir"
    and "\<And>t. follow \<Longrightarrow> cs \<noteq> [] \<Longrightarrow> node_at d (cur @ cs) \<noteq> Some (Symlink t)"
  shows "walk d n follow cur cs = Inr (cur @ cs)"
  using assms
proof (induction cs arbitrary: cur)
  case (Cons c cs)
  have plain: "plain_name c" using Cons.prems(1) by simp
  show ?case
  proof (cases "cs = []")
    case True
    then show ?thesis using plain Cons.prems(3)
      by (auto simp: plain_name_def split: option.splits node.splits)
  next
    case False
    have "walk d n follow (cur @ [c]) cs = Inr ((cur @ [c]) @ cs)"
      by (rule Cons.IH) (use Cons.prems False in \<open>auto simp: strict_prefix_def prefix_def\<close>)
    moreover have "node_at d (cur @ [c]) = Some Dir"
      using Cons.prems(2) [of "cur @ [c]"] False by (simp add: strict_prefix_def)
    ultimately show ?thesis using plain by (simp add: plain_name_def)
  qed
qed simp

lemma area_no_link:
  assumes "area_ok V L d" and "in_area V L p" and "prefix q p"
  shows "node_at d q \<noteq> Some (Symlink t)"
proof (cases "prefix V q")
  case True
  then show ?thesis using assms by (auto simp: area_ok_def in_area_def)
next
  case False
  then have "strict_prefix q V"
    using assms(2,3) by (metis in_area_def prefix_same_cases strict_prefix_def)
  then show ?thesis using assms(1) by (auto simp: area_ok_def)
qed

lemma area_walk:
  assumes "area_ok V L d" and "in_area V L p"
  shows "walk d n follow [] p = Inr p \<or> (\<exists>e. walk d n follow [] p = Inl e)"
  using walk_no_links [of p "[]" follow d n] area_no_link [OF assms] assms(2)
  by (auto simp: in_area_def)

lemma area_located: "area_ok V L d \<Longrightarrow> in_area V L p \<Longrightarrow> locate d p = Inr p \<or> (\<exists>e. locate d p = Inl e)"
  unfolding locate_def by (rule area_walk)

lemma area_followed: "area_ok V L d \<Longrightarrow> in_area V L p \<Longrightarrow> follow_path d p = Inr p \<or> (\<exists>e. follow_path d p = Inl e)"
  unfolding follow_path_def by (rule area_walk)

lemma in_area_prefix: "in_area V L p \<Longrightarrow> prefix V p"
  by (simp add: in_area_def)

lemma in_area_plain: "in_area V L p \<Longrightarrow> list_all plain_name p"
  by (simp add: in_area_def)

lemma locate_parent_of_area:
  assumes "area_ok V L d" and "strict_prefix p V"
  shows "locate d p = Inr p" "follow_path d p = Inr p" "node_at d p = Some Dir"
proof -
  have plain: "list_all plain_name p"
    using assms by (auto simp: area_ok_def strict_prefix_def prefix_def)
  have dir: "node_at d q = Some Dir" if "prefix q p" for q
    using that assms by (auto simp: area_ok_def intro: prefix_order.le_less_trans)
  show "locate d p = Inr p" "follow_path d p = Inr p"
    unfolding locate_def follow_path_def
    using walk_through_dirs [OF plain, of "[]" d False] walk_through_dirs [OF plain, of "[]" d True] dir
    by (auto simp: strict_prefix_def)
  show "node_at d p = Some Dir" by (rule dir) simp
qed

subsection \<open>Steps\<close>

lemma area_step_refl [simp]: "area_ok V L d \<Longrightarrow> area_step V L d d"
  by (simp add: area_step_def)

lemma area_step_trans: "area_step V L d d' \<Longrightarrow> area_step V L d' d'' \<Longrightarrow> area_step V L d d''"
  by (simp add: area_step_def)

lemma area_step_ok: "area_step V L d d' \<Longrightarrow> area_ok V L d'"
  by (simp add: area_step_def)

lemma area_step_put:
  assumes "area_ok V L d" and "prefix V q" and "\<And>t. n \<noteq> Symlink t"
  shows "area_step V L d (put q n d)"
proof -
  have "q \<noteq> []" using assms by (auto simp: area_ok_def)
  then have "node_at (put q n d) r = (if r = q then Some n else node_at d r)" for r by (rule node_at_put)
  then show ?thesis using assms by (auto simp: area_step_def area_ok_def strict_prefix_def)
qed

lemma area_step_shrink:
  assumes "area_ok V L d" and "\<And>q. node_at d' q = node_at d q \<or> prefix V q \<and> node_at d' q = None"
  shows "area_step V L d d'"
  unfolding area_step_def area_ok_def
proof (intro conjI allI impI)
  show "V \<noteq> []" "list_all plain_name V" using assms(1) by (simp_all add: area_ok_def)
  show "node_at d' q = node_at d q" if "\<not> prefix V q" for q using that assms(2) [of q] by simp
  show "node_at d' q = Some Dir" if "strict_prefix q V" for q
    using that assms(1) assms(2) [of q] by (auto simp: area_ok_def strict_prefix_def)
  show "node_at d' q \<noteq> Some (Symlink t)" if "prefix V q \<and> q \<in> L" for q t
    using that assms(1) assms(2) [of q] by (auto simp: area_ok_def)
qed

lemma node_at_root [simp]: "node_at d [] = Some Dir"
  by (simp add: node_at_def)

lemma area_nonroot: "area_ok V L d \<Longrightarrow> prefix V q \<Longrightarrow> q \<noteq> []"
  by (auto simp: area_ok_def)

lemma area_step_drop_node:
  assumes "area_ok V L d" and "prefix V q"
  shows "area_step V L d (drop_node q d)"
  using node_at_drop_node [OF area_nonroot [OF assms]] assms by (intro area_step_shrink) auto

lemma area_step_drop_tree:
  assumes "area_ok V L d" and "prefix V q"
  shows "area_step V L d (drop_tree q d)"
  using node_at_drop_tree [OF area_nonroot [OF assms]] assms
  by (intro area_step_shrink) (auto intro: prefix_order.trans)

definition closed_under_move :: "path set \<Rightarrow> path \<Rightarrow> path \<Rightarrow> bool" where
  "closed_under_move L p q \<longleftrightarrow> (\<forall>r \<in> L. prefix q r \<longrightarrow> p @ drop (length q) r \<in> L)"

lemma area_step_move_tree:
  assumes "area_ok V L d" and "prefix V p" and "prefix V q" and "\<not> prefix p q" and "closed_under_move L p q"
  shows "area_step V L d (move_tree p q d)"
proof -
  note move = node_at_move_tree [OF area_nonroot [OF assms(1,2)] area_nonroot [OF assms(1,3)] assms(4)]
  have out: "node_at (move_tree p q d) r = node_at d r" if "\<not> prefix V r" for r
    using that assms(2,3) by (auto simp: move intro: prefix_order.trans)
  have "node_at (move_tree p q d) r \<noteq> Some (Symlink t)" if "prefix V r" "r \<in> L" for r t
  proof -
    have "prefix V (p @ drop (length q) r)" using assms(2) by (auto simp: prefix_def)
    moreover have "prefix q r \<Longrightarrow> p @ drop (length q) r \<in> L" using assms(5) that by (simp add: closed_under_move_def)
    ultimately show ?thesis using assms(1) that by (auto simp: move area_ok_def)
  qed
  then show ?thesis using out assms(1) by (auto simp: area_step_def area_ok_def strict_prefix_def)
qed

lemma area_step_move_node:
  assumes "area_ok V L d" and "in_area V L p" and "in_area V L q" and "\<not> prefix p q" and "closed_under_move L p q"
  shows "area_step V L d (move_node p q d)"
proof (cases "\<exists>b. node_at d p = Some (File b)")
  case True
  then obtain b where b: "node_at d p = Some (File b)" by blast
  have one: "area_step V L d (drop_node p d)" using assms by (simp add: area_step_drop_node in_area_prefix)
  have "area_step V L (drop_node p d) (put q (File b) (drop_node p d))"
    by (rule area_step_put) (use assms area_step_ok [OF one] in_area_prefix in auto)
  with one show ?thesis by (simp add: move_node_def b area_step_trans)
next
  case False
  have "node_at d p \<noteq> Some (Symlink t)" for t using area_no_link [OF assms(1,2)] by simp
  then have "move_node p q d = move_tree p q d"
    using False by (auto simp: move_node_def split: option.splits node.splits)
  then show ?thesis using assms by (simp add: area_step_move_tree in_area_prefix)
qed

subsection \<open>Effects\<close>

definition effect_keeps :: "path \<Rightarrow> path set \<Rightarrow> 'a effect \<Rightarrow> bool" where
  "effect_keeps V L e \<longleftrightarrow> (\<forall>d. area_ok V L d \<longrightarrow> area_step V L d (fst (e d)))"

lemma effect_keepsI: "(\<And>d. area_ok V L d \<Longrightarrow> area_step V L d (fst (e d))) \<Longrightarrow> effect_keeps V L e"
  by (simp add: effect_keeps_def)

lemma d_write_keeps: "in_area V L p \<Longrightarrow> effect_keeps V L (d_write p bytes)"
  by (rule effect_keepsI, frule (1) area_followed)
    (auto simp: d_write_def area_step_put in_area_prefix split: option.splits node.splits)

lemma d_create_new_keeps: "in_area V L p \<Longrightarrow> effect_keeps V L (d_create_new p)"
  by (rule effect_keepsI, frule (1) area_located) (auto simp: d_create_new_def area_step_put in_area_prefix)

lemma d_remove_file_keeps: "in_area V L p \<Longrightarrow> effect_keeps V L (d_remove_file p)"
  by (rule effect_keepsI, frule (1) area_located)
    (auto simp: d_remove_file_def area_step_drop_node in_area_prefix split: option.splits node.splits)

lemma d_remove_dir_all_keeps: "in_area V L p \<Longrightarrow> effect_keeps V L (d_remove_dir_all p)"
  by (rule effect_keepsI, frule (1) area_located)
    (auto simp: d_remove_dir_all_def area_step_drop_node area_step_drop_tree in_area_prefix split: option.splits node.splits)

lemma d_rename_keeps:
  "in_area V L p \<Longrightarrow> in_area V L q \<Longrightarrow> closed_under_move L p q \<Longrightarrow> effect_keeps V L (d_rename p q)"
  by (rule effect_keepsI, frule (1) area_located [of V L _ p], frule (1) area_located [of V L _ q])
    (auto simp: d_rename_def area_step_move_node split: option.splits node.splits)

lemma d_mkdir_keeps:
  assumes "in_area V L p \<or> strict_prefix p V"
  shows "effect_keeps V L (d_mkdir p)"
proof (rule effect_keepsI)
  fix d assume ok: "area_ok V L d"
  show "area_step V L d (fst (d_mkdir p d))"
  proof (cases "strict_prefix p V")
    case True
    then show ?thesis using ok locate_parent_of_area [OF ok True] by (simp add: d_mkdir_def)
  next
    case False
    then have "in_area V L p" using assms by simp
    with area_located [OF ok this] ok show ?thesis by (auto simp: d_mkdir_def area_step_put in_area_prefix)
  qed
qed

lemma in_area_butlast:
  assumes "in_area V L p \<or> strict_prefix p V" and "p \<noteq> []"
  shows "in_area V L (butlast p) \<or> strict_prefix (butlast p) V"
proof -
  have below: "strict_prefix (butlast p) p" using assms(2) by (metis append_butlast_last_id strict_prefixI')
  show ?thesis
  proof (cases "strict_prefix p V \<or> p = V")
    case True
    then show ?thesis using below by (auto intro: prefix_order.less_trans)
  next
    case False
    then have in_p: "in_area V L p" using assms(1) by simp
    obtain q x where p: "p = q @ [x]" using assms(2) by (metis append_butlast_last_id)
    have V: "prefix V q" using in_area_prefix [OF in_p] False unfolding p prefix_snoc by blast
    have "r \<in> L" if "prefix V r" "prefix r q" for r
      using in_p that unfolding in_area_def p by (meson prefix_prefix)
    then have "in_area V L q" using in_p V unfolding in_area_def p by simp
    then show ?thesis by (simp add: p)
  qed
qed

lemma d_create_dirs_keeps:
  assumes "in_area V L (rev rs) \<or> strict_prefix (rev rs) V" and "area_ok V L d"
  shows "area_step V L d (fst (d_create_dirs rs d))"
  using assms
proof (induction rs d rule: d_create_dirs.induct)
  case (2 c rs d)
  have up: "in_area V L (rev rs) \<or> strict_prefix (rev rs) V"
    using in_area_butlast [OF "2.prems"(1)] by simp
  have mk: "area_step V L d' (fst (d_mkdir (rev (c # rs)) d'))" if "area_ok V L d'" for d'
    using d_mkdir_keeps [OF "2.prems"(1)] that by (simp add: effect_keeps_def)
  obtain d1 r1 where one: "d_mkdir (rev (c # rs)) d = (d1, r1)" by fastforce
  have s1: "area_step V L d d1" using mk [OF "2.prems"(2)] one by simp
  obtain d2 r2 where two: "d_create_dirs rs d1 = (d2, r2)" by fastforce
  obtain d3 r3 where three: "d_mkdir (rev (c # rs)) d2 = (d3, r3)" by fastforce
  have s2: "area_step V L d1 d2" if "r1 = Inl NotFound"
    using "2.IH" [OF one [symmetric] that refl up area_step_ok [OF s1]] two by simp
  have s3: "area_step V L d2 d3" if "r1 = Inl NotFound"
    using mk [OF area_step_ok [OF s2 [OF that]]] three by simp
  show ?case
    using one two three s1 s2 s3 by (auto split: sum.splits io_error.splits unit.splits intro: area_step_trans)
qed simp

lemma d_create_dir_all_keeps:
  "in_area V L p \<or> strict_prefix p V \<Longrightarrow> effect_keeps V L (d_create_dir_all p)"
  by (rule effect_keepsI) (simp add: d_create_dir_all_def d_create_dirs_keeps)

subsection \<open>Programs\<close>

lemma keepsI: "(\<And>s. area_ok V L (os_disk s) \<Longrightarrow> area_step V L (os_disk s) (os_disk (snd (m s)))) \<Longrightarrow> keeps V L m"
  by (simp add: keeps_def)

lemma keeps_return [area_rules]: "keeps V L (io_return x)"
  and keeps_fail [area_rules]: "keeps V L (io_fail e)"
  and keeps_query [area_rules]: "keeps V L (io_query f)"
  and keeps_of [area_rules]: "keeps V L (io_of r)"
  by (simp_all add: keeps_def io_return_def io_fail_def io_query_def io_of_def)

lemma keeps_try [area_rules]:
  assumes "keeps V L m" and "\<And>r. keeps V L (k r)"
  shows "keeps V L (io_try m k)"
proof (rule keepsI)
  fix s :: os assume ok: "area_ok V L (os_disk s)"
  obtain r s1 where m: "m s = (r, s1)" by fastforce
  then have one: "area_step V L (os_disk s) (os_disk s1)" using assms(1) ok by (auto simp: keeps_def)
  then have "area_step V L (os_disk s1) (os_disk (snd (k r s1)))"
    using assms(2) by (auto simp: keeps_def dest: area_step_ok)
  with one show "area_step V L (os_disk s) (os_disk (snd (io_try m k s)))"
    by (simp add: io_try_def m area_step_trans)
qed

lemma keeps_bind [area_rules]: "keeps V L m \<Longrightarrow> (\<And>x. keeps V L (k x)) \<Longrightarrow> keeps V L (io_bind m k)"
  unfolding io_bind_def by (auto intro!: keeps_try keeps_fail split: sum.splits)

lemma keeps_map_err [area_rules]: "keeps V L m \<Longrightarrow> keeps V L (io_map_err f m)"
  unfolding io_map_err_def by (auto intro!: keeps_try keeps_fail keeps_return split: sum.splits)

lemma keeps_call:
  assumes "effect_keeps V L e" and "\<And>f d. area_ok V L d \<Longrightarrow> area_step V L d (damage f d)"
  shows "keeps V L (os_call fl damage e)"
proof (rule keepsI)
  fix s :: os assume ok: "area_ok V L (os_disk s)"
  obtain d r where "e (os_disk s) = (d, r)" by fastforce
  then show "area_step V L (os_disk s) (os_disk (snd (os_call fl damage e s)))"
    using assms ok by (cases "fl (os_calls s)") (force simp: os_call_def effect_keeps_def Let_def)+
qed

lemma keeps_unharmed: "effect_keeps V L e \<Longrightarrow> keeps V L (os_call fl unharmed e)"
  by (rule keeps_call) (simp_all add: unharmed_def)

lemma reading_keeps: "(\<And>d. fst (e d) = d) \<Longrightarrow> keeps V L (os_call fl unharmed e)"
  by (rule keeps_unharmed) (simp add: effect_keeps_def)

lemma keeps_sys_read [area_rules]: "keeps V L (sys_read fl p)"
  and keeps_sys_read_dir [area_rules]: "keeps V L (sys_read_dir fl p)"
  unfolding sys_defs by (rule reading_keeps; simp add: d_read_def d_read_dir_def)+

lemma keeps_sys_create_new [area_rules]: "in_area V L p \<Longrightarrow> keeps V L (sys_create_new fl p)"
  and keeps_sys_remove_file [area_rules]: "in_area V L p \<Longrightarrow> keeps V L (sys_remove_file fl p)"
  and keeps_sys_rename [area_rules]:
    "in_area V L p \<Longrightarrow> in_area V L q \<Longrightarrow> closed_under_move L p q \<Longrightarrow> keeps V L (sys_rename fl p q)"
  unfolding sys_defs by (auto intro!: keeps_unharmed d_create_new_keeps d_remove_file_keeps d_rename_keeps)

lemma keeps_sys_write [area_rules]:
  assumes "in_area V L p"
  shows "keeps V L (sys_write fl p bytes)"
  unfolding sys_defs
proof (rule keeps_call [OF d_write_keeps [OF assms]])
  fix f d assume "area_ok V L d"
  then show "area_step V L d (partly_written p bytes f d)"
    using d_write_keeps [OF assms] by (auto simp: partly_written_def effect_keeps_def split: option.splits)
qed

lemma area_step_remove_leaves:
  assumes "area_ok V L d" and "\<forall>q \<in> set qs. prefix V q"
  shows "area_step V L d (fold remove_leaf qs d)"
  using assms
proof (induction qs arbitrary: d)
  case (Cons q qs)
  then have one: "area_step V L d (remove_leaf q d)" by (simp add: remove_leaf_def area_step_drop_node)
  then show ?case using Cons.IH [OF area_step_ok [OF one]] Cons.prems by (auto intro: area_step_trans)
qed simp

lemma keeps_sys_remove_dir_all [area_rules]:
  assumes "in_area V L p"
  shows "keeps V L (sys_remove_dir_all fl p)"
  unfolding sys_defs
proof (rule keeps_call [OF d_remove_dir_all_keeps [OF assms]])
  fix f d assume ok: "area_ok V L d"
  have "prefix V q" if "prefix p q" for q using prefix_order.trans [OF in_area_prefix [OF assms] that] .
  then show "area_step V L d (partly_removed p f d)"
    using area_located [OF ok assms] ok by (auto simp: partly_removed_def intro!: area_step_remove_leaves)
qed

lemma in_area_take:
  assumes "in_area V L p"
  shows "in_area V L (take n p) \<or> strict_prefix (take n p) V"
proof (cases "prefix V (take n p)")
  case True
  have "r \<in> L" if "prefix V r" "prefix r (take n p)" for r
    using assms that prefix_order.trans [OF that(2) take_is_prefix] unfolding in_area_def by blast
  moreover have "list_all plain_name (take n p)"
    using in_area_plain [OF assms] by (auto simp: list_all_iff dest: in_set_takeD)
  ultimately show ?thesis using True unfolding in_area_def by blast
next
  case False
  then have "strict_prefix (take n p) V"
    using prefix_same_cases [OF take_is_prefix in_area_prefix [OF assms]] unfolding strict_prefix_def by blast
  then show ?thesis ..
qed

lemma keeps_sys_create_dir_all [area_rules]:
  assumes "in_area V L p"
  shows "keeps V L (sys_create_dir_all fl p)"
  unfolding sys_defs
proof (rule keeps_call)
  show "effect_keeps V L (d_create_dir_all p)" using assms by (simp add: d_create_dir_all_keeps)
  fix f d assume "area_ok V L d"
  then show "area_step V L d (partly_made p f d)"
    using d_create_dir_all_keeps [OF in_area_take [OF assms]] by (simp add: partly_made_def effect_keeps_def)
qed

subsection \<open>Triples\<close>

text \<open>A triple relates the disk before a program to its result and the disk after it, whatever
  calls fail.\<close>

definition triple :: "(disk \<Rightarrow> bool) \<Rightarrow> ('e, 'a) io \<Rightarrow> ('e + 'a \<Rightarrow> disk \<Rightarrow> bool) \<Rightarrow> bool" where
  "triple P m Q \<longleftrightarrow> (\<forall>s. P (os_disk s) \<longrightarrow> Q (fst (m s)) (os_disk (snd (m s))))"

lemma triple_use: "triple P m Q \<Longrightarrow> P (os_disk s) \<Longrightarrow> m s = (r, s') \<Longrightarrow> Q r (os_disk s')"
  by (auto simp: triple_def dest: spec [of _ s])

lemma triple_conseq:
  "triple P m Q \<Longrightarrow> (\<And>d. P' d \<Longrightarrow> P d) \<Longrightarrow> (\<And>r d. Q r d \<Longrightarrow> Q' r d) \<Longrightarrow> triple P' m Q'"
  by (simp add: triple_def)

lemma triple_return: "(\<And>d. P d \<Longrightarrow> Q (Inr x) d) \<Longrightarrow> triple P (io_return x) Q"
  by (simp add: triple_def io_return_def)

lemma triple_fail: "(\<And>d. P d \<Longrightarrow> Q (Inl e) d) \<Longrightarrow> triple P (io_fail e) Q"
  by (simp add: triple_def io_fail_def)

lemma triple_of: "(\<And>d. P d \<Longrightarrow> Q r d) \<Longrightarrow> triple P (io_of r) Q"
  by (simp add: triple_def io_of_def)

lemma triple_query: "(\<And>d. P d \<Longrightarrow> Q (Inr (f d)) d) \<Longrightarrow> triple P (io_query f) Q"
  by (simp add: triple_def io_query_def)

lemma triple_try:
  assumes "triple P m R" and "\<And>r. triple (R r) (k r) Q"
  shows "triple P (io_try m k) Q"
  unfolding triple_def
proof (intro allI impI)
  fix s :: os assume "P (os_disk s)"
  obtain r s1 where m: "m s = (r, s1)" by fastforce
  then have "R r (os_disk s1)" using assms(1) \<open>P (os_disk s)\<close> by (auto simp: triple_def dest: spec [of _ s])
  then show "Q (fst (io_try m k s)) (os_disk (snd (io_try m k s)))"
    using assms(2) by (simp add: triple_def io_try_def m)
qed

lemma triple_bind:
  assumes "triple P m R" and "\<And>x. triple (R (Inr x)) (k x) Q" and "\<And>e d. R (Inl e) d \<Longrightarrow> Q (Inl e) d"
  shows "triple P (io_bind m k) Q"
  unfolding io_bind_def
proof (rule triple_try [OF assms(1)])
  fix r show "triple (R r) (case r of Inl e \<Rightarrow> io_fail e | Inr x \<Rightarrow> k x) Q"
    using assms(2,3) by (cases r) (auto intro: triple_fail)
qed

lemma triple_map_err:
  assumes "triple P m R" and "\<And>x d. R (Inr x) d \<Longrightarrow> Q (Inr x) d" and "\<And>e d. R (Inl e) d \<Longrightarrow> Q (Inl (f e)) d"
  shows "triple P (io_map_err f m) Q"
  unfolding io_map_err_def
proof (rule triple_try [OF assms(1)])
  fix r show "triple (R r) (case r of Inl e \<Rightarrow> io_fail (f e) | Inr x \<Rightarrow> io_return x) Q"
    using assms(2,3) by (cases r) (auto intro: triple_fail triple_return)
qed

lemma triple_call:
  assumes "\<And>d. P d \<Longrightarrow> Q (snd (e d)) (fst (e d))" and "\<And>d f. P d \<Longrightarrow> Q (Inl OtherKind) (damage f d)"
  shows "triple P (os_call fl damage e) Q"
  unfolding triple_def
proof (intro allI impI)
  fix s :: os assume p: "P (os_disk s)"
  obtain d r where e: "e (os_disk s) = (d, r)" by fastforce
  then show "Q (fst (os_call fl damage e s)) (os_disk (snd (os_call fl damage e s)))"
    using assms(1) [OF p] assms(2) [OF p] by (cases "fl (os_calls s)") (simp_all add: os_call_def Let_def)
qed

lemma keeps_triple:
  "keeps V L m \<Longrightarrow> triple (\<lambda>d. area_ok V L d \<and> area_step V L d0 d) m (\<lambda>_ d. area_ok V L d \<and> area_step V L d0 d)"
  by (auto simp: keeps_def triple_def dest: area_step_trans area_step_ok)

lemma triple_conj: "triple P m Q \<Longrightarrow> triple P' m Q' \<Longrightarrow> triple (\<lambda>d. P d \<and> P' d) m (\<lambda>r d. Q r d \<and> Q' r d)"
  by (simp add: triple_def)

lemma triple_from_start:
  assumes "\<And>d0. P d0 \<Longrightarrow> triple (\<lambda>d. d = d0) m (Q d0)"
  shows "triple P m (\<lambda>r d. \<exists>d0. P d0 \<and> Q d0 r d)"
  using assms by (simp add: triple_def) blast

lemma triple_query_eq: "triple (\<lambda>d. d = d0) (io_query f) (\<lambda>r d. d = d0 \<and> r = Inr (f d0))"
  by (rule triple_query) simp

lemma triple_weaken: "triple P m Q \<Longrightarrow> triple (\<lambda>d. P d \<and> B d) m Q"
  by (simp add: triple_def)

end
