(* ===== verification/FsUtil.thy ===== *)
theory FsUtil
  imports FileArea
begin

text \<open>
  The atomic, symlink-safe file writes of \<open>crates/updater/src/fsutil.rs\<close>. Permission bits are not
  part of the disk; the unpredictable suffix of the temporary file is the argument \<open>sfx\<close>.
  The theorem at the end is the contract its clients rely on: whatever calls fail, and wherever
  links are planted, nothing outside the root changes and the destination holds its old or its new
  content.
\<close>

definition lstat_is_symlink :: "disk \<Rightarrow> path \<Rightarrow> bool" where
  "lstat_is_symlink d p \<longleftrightarrow> (case node_of d (locate d p) of Some (Symlink _) \<Rightarrow> True | _ \<Rightarrow> False)"

fun any_symlink :: "disk \<Rightarrow> path \<Rightarrow> string list \<Rightarrow> bool" where
  "any_symlink d probe [] = False"
| "any_symlink d probe (c # cs) \<longleftrightarrow> lstat_is_symlink d (probe @ [c]) \<or> any_symlink d (probe @ [c]) cs"

text \<open>A destination that is not below the root is probed from the top.\<close>

definition symlink_component :: "path \<Rightarrow> path \<Rightarrow> disk \<Rightarrow> bool" where
  "symlink_component root_dir dest d =
     (if prefix root_dir dest then any_symlink d root_dir (drop (length root_dir) dest) else any_symlink d [] dest)"

definition reject_symlink_components :: "path \<Rightarrow> path \<Rightarrow> (io_error, unit) io" where
  "reject_symlink_components root_dir dest =
     io_bind (io_query (symlink_component root_dir dest))
       (\<lambda>found. if found then io_fail OtherKind else io_return ())"

definition sys_sync_all :: "faults \<Rightarrow> (io_error, unit) io" where
  "sys_sync_all fl = os_call fl unharmed (\<lambda>d. (d, Inr ()))"

definition tmp_name :: "string \<Rightarrow> path \<Rightarrow> path" where
  "tmp_name sfx dest = butlast dest @ [last dest @ ''.tmp-'' @ sfx]"

text \<open>Write, sync and rename the opened temporary file; on a failure it is removed, at best.\<close>

definition fill_and_rename :: "faults \<Rightarrow> path \<Rightarrow> path \<Rightarrow> string \<Rightarrow> (io_error, unit) io" where
  "fill_and_rename fl tmp dest bytes =
     io_try (io_bind (sys_write fl tmp bytes) (\<lambda>_. io_bind (sys_sync_all fl) (\<lambda>_. sys_rename fl tmp dest)))
       (\<lambda>written. case written of
          Inr _ \<Rightarrow> io_return ()
        | Inl e \<Rightarrow> io_try (sys_remove_file fl tmp) (\<lambda>_. io_fail e))"

definition write_with_mode :: "faults \<Rightarrow> string \<Rightarrow> path \<Rightarrow> path \<Rightarrow> string \<Rightarrow> (io_error, unit) io" where
  "write_with_mode fl sfx root_dir dest bytes =
     io_bind (reject_symlink_components root_dir dest) (\<lambda>_.
     io_bind (if dest = [] then io_return () else sys_create_dir_all fl (butlast dest)) (\<lambda>_.
     io_bind (reject_symlink_components root_dir dest) (\<lambda>_.
     if dest = [] \<or> last dest = ''..'' then io_fail OtherKind
     else io_bind (sys_create_new fl (tmp_name sfx dest)) (\<lambda>_.
       fill_and_rename fl (tmp_name sfx dest) dest bytes))))"

definition write_atomically :: "faults \<Rightarrow> string \<Rightarrow> path \<Rightarrow> path \<Rightarrow> string \<Rightarrow> (io_error, unit) io" where
  "write_atomically fl sfx root_dir dest bytes = write_with_mode fl sfx root_dir dest bytes"

definition write_executable_atomically :: "faults \<Rightarrow> string \<Rightarrow> path \<Rightarrow> path \<Rightarrow> string \<Rightarrow> (io_error, unit) io" where
  "write_executable_atomically fl sfx root_dir dest bytes = write_with_mode fl sfx root_dir dest bytes"

subsection \<open>What the check for links establishes\<close>

definition wf_disk :: "disk \<Rightarrow> bool" where
  "wf_disk d \<longleftrightarrow> (\<forall>p n. node_at d p = Some n \<longrightarrow> p \<noteq> [] \<longrightarrow> node_at d (butlast p) = Some Dir)"

definition real_dir :: "disk \<Rightarrow> path \<Rightarrow> bool" where
  "real_dir d p \<longleftrightarrow> p \<noteq> [] \<and> list_all plain_name p \<and> (\<forall>q. prefix q p \<longrightarrow> node_at d q = Some Dir)"

lemma wf_disk_parents:
  assumes "wf_disk d" and "node_at d p \<noteq> None" and "strict_prefix q p"
  shows "node_at d q = Some Dir"
  using assms(2,3)
proof (induction p rule: rev_induct)
  case (snoc x p)
  have dir: "node_at d p = Some Dir" using assms(1) snoc.prems(1) unfolding wf_disk_def by fastforce
  show ?case
  proof (cases "q = p")
    case False
    then have "strict_prefix q p" using snoc.prems(2) by (auto simp: strict_prefix_def)
    then show ?thesis using snoc.IH dir by simp
  qed (simp add: dir)
qed (simp add: strict_prefix_def)

lemma locate_existing:
  assumes "wf_disk d" and "list_all plain_name q" and "node_at d q \<noteq> None"
  shows "locate d q = Inr q"
proof -
  have "walk d MAX_LINKS False [] q = Inr ([] @ q)"
    by (rule walk_through_dirs [OF assms(2)]) (use wf_disk_parents [OF assms(1,3)] in simp_all)
  then show ?thesis by (simp add: locate_def)
qed

lemma any_symlink_None:
  assumes "\<not> any_symlink d probe cs" and "strict_prefix probe q" and "prefix q (probe @ cs)"
  shows "\<not> lstat_is_symlink d q"
  using assms
proof (induction cs arbitrary: probe)
  case (Cons c cs)
  show ?case
  proof (cases "q = probe @ [c]")
    case False
    then have "strict_prefix (probe @ [c]) q"
      using Cons.prems(2,3) by (auto simp: strict_prefix_def prefix_def Cons_eq_append_conv append_eq_Cons_conv)
    then show ?thesis using Cons.IH [of "probe @ [c]"] Cons.prems by simp
  qed (use Cons.prems(1) in simp)
qed (auto simp: strict_prefix_def)

lemma no_symlink_component:
  assumes "wf_disk d" and "real_dir d root_dir" and "prefix root_dir dest" and "list_all plain_name dest"
    and "\<not> symlink_component root_dir dest d" and "prefix q dest"
  shows "node_at d q \<noteq> Some (Symlink t)"
proof
  assume link: "node_at d q = Some (Symlink t)"
  have below: "strict_prefix root_dir q"
    using link assms(2,3,6) unfolding real_dir_def
    by (metis node.distinct(3) option.inject prefix_same_cases strict_prefix_def)
  have plain: "list_all plain_name q" using assms(4,6) by (auto simp: prefix_def)
  have "locate d q = Inr q" using locate_existing [OF assms(1) plain] link by simp
  then have "lstat_is_symlink d q" using link by (simp add: lstat_is_symlink_def node_of_def)
  moreover have "\<not> any_symlink d root_dir (drop (length root_dir) dest)"
    using assms(3,5) by (simp add: symlink_component_def)
  moreover have "prefix q (root_dir @ drop (length root_dir) dest)" using assms(3,6) by (simp add: prefix_drop)
  ultimately show False using any_symlink_None below by blast
qed

lemma symlink_component_complete:
  assumes "wf_disk d" and "strict_prefix root_dir q" and "prefix q dest" and "list_all plain_name dest"
    and "node_at d q = Some (Symlink t)"
  shows "symlink_component root_dir dest d"
proof -
  have plain: "list_all plain_name q" using assms(3,4) by (auto simp: prefix_def)
  have "locate d q = Inr q" using locate_existing [OF assms(1) plain] assms(5) by simp
  then have is_link: "lstat_is_symlink d q" using assms(5) by (simp add: lstat_is_symlink_def node_of_def)
  have "prefix root_dir dest" using assms(2,3) by (auto simp: strict_prefix_def intro: prefix_order.trans)
  moreover from this have "prefix q (root_dir @ drop (length root_dir) dest)" using assms(3) by (simp add: prefix_drop)
  ultimately show ?thesis
    using any_symlink_None [OF _ assms(2)] is_link by (auto simp: symlink_component_def)
qed

subsection \<open>Making the parents\<close>

definition grown :: "path \<Rightarrow> disk \<Rightarrow> disk \<Rightarrow> bool" where
  "grown p d d' \<longleftrightarrow> (\<forall>q. node_at d' q = node_at d q \<or> node_at d q = None \<and> prefix q p \<and> node_at d' q = Some Dir)"

lemma grown_refl [simp]: "grown p d d"
  by (simp add: grown_def)

lemma grown_trans: "grown p d d' \<Longrightarrow> grown p d' d'' \<Longrightarrow> grown p d d''"
  unfolding grown_def by metis

lemma grown_mono: "grown p d d' \<Longrightarrow> prefix p p' \<Longrightarrow> grown p' d d'"
  unfolding grown_def by (meson prefix_order.trans)

lemma d_mkdir_grown:
  assumes "area_ok V L d" and "in_area V L p \<or> strict_prefix p V"
  shows "grown p d (fst (d_mkdir p d))"
proof (cases "strict_prefix p V")
  case True
  then show ?thesis using locate_parent_of_area [OF assms(1) True] by (simp add: d_mkdir_def)
next
  case False
  then have p: "in_area V L p" using assms(2) by simp
  moreover have "p \<noteq> []" using area_nonroot [OF assms(1) in_area_prefix [OF p]] .
  ultimately show ?thesis
    using area_located [OF assms(1) p] by (cases "node_at d p = None") (auto simp: d_mkdir_def grown_def node_at_put split: if_split_asm)
qed

lemma d_create_dirs_grown:
  assumes "area_ok V L d" and "in_area V L (rev rs) \<or> strict_prefix (rev rs) V"
  shows "grown (rev rs) d (fst (d_create_dirs rs d))"
  using assms
proof (induction rs d rule: d_create_dirs.induct)
  case (2 c rs d)
  let ?p = "rev (c # rs)"
  have up: "in_area V L (rev rs) \<or> strict_prefix (rev rs) V" using in_area_butlast [OF "2.prems"(2)] by simp
  have mk: "grown ?p d' (fst (d_mkdir ?p d'))" "area_step V L d' (fst (d_mkdir ?p d'))" if "area_ok V L d'" for d'
    using d_mkdir_grown [OF that "2.prems"(2)] d_mkdir_keeps [OF "2.prems"(2)] that by (simp_all add: effect_keeps_def)
  obtain d1 r1 where one: "d_mkdir ?p d = (d1, r1)" by fastforce
  have s1: "grown ?p d d1" "area_ok V L d1" using mk [OF "2.prems"(1)] one area_step_ok by auto
  obtain d2 r2 where two: "d_create_dirs rs d1 = (d2, r2)" by fastforce
  obtain d3 r3 where three: "d_mkdir ?p d2 = (d3, r3)" by fastforce
  have s2: "grown ?p d1 d2" if "r1 = Inl NotFound"
    using grown_mono [OF "2.IH" [OF one [symmetric] that refl s1(2) up], of ?p] two by simp
  have s3: "grown ?p d2 d3"
    using mk(1) [OF area_step_ok [OF d_create_dirs_keeps [OF up s1(2)]]] two three by simp
  have "grown ?p d d2" "grown ?p d d3" if "r1 = Inl NotFound"
    using grown_trans [OF s1(1) s2 [OF that]] grown_trans [OF _ s3] by blast+
  then show ?case
    using one two three s1(1) by (simp split: sum.split io_error.split unit.split)
qed simp

lemma sys_create_dir_all_grown:
  assumes "in_area V L p"
  shows "triple (\<lambda>d. area_ok V L d \<and> grown p d0 d) (sys_create_dir_all fl p) (\<lambda>_ d. area_ok V L d \<and> grown p d0 d)"
  unfolding sys_create_dir_all_def
proof (rule triple_call)
  fix d f assume d: "area_ok V L d \<and> grown p d0 d"
  have all: "area_ok V L (fst (d_create_dir_all q d)) \<and> grown p d0 (fst (d_create_dir_all q d))"
    if "in_area V L q \<or> strict_prefix q V" "prefix q p" for q
  proof
    show "area_ok V L (fst (d_create_dir_all q d))"
      using d_create_dir_all_keeps [OF that(1)] d by (auto simp: effect_keeps_def dest: area_step_ok)
    have "grown q d (fst (d_create_dir_all q d))"
      using d_create_dirs_grown [of V L d "rev q"] that(1) d by (simp add: d_create_dir_all_def)
    then show "grown p d0 (fst (d_create_dir_all q d))"
      using d grown_mono [OF _ that(2)] grown_trans by blast
  qed
  show "area_ok V L (fst (d_create_dir_all p d)) \<and> grown p d0 (fst (d_create_dir_all p d))"
    using all [of p] assms by simp
  show "area_ok V L (partly_made p f d) \<and> grown p d0 (partly_made p f d)"
    unfolding partly_made_def using all [OF in_area_take [OF assms] take_is_prefix] by simp
qed

subsection \<open>The temporary file\<close>

lemma tmp_name_props:
  assumes "strict_prefix V dest" and "list_all plain_name dest"
  shows "tmp_name sfx dest \<noteq> dest" "prefix V (tmp_name sfx dest)" "list_all plain_name (tmp_name sfx dest)"
    "\<not> prefix (tmp_name sfx dest) dest" "\<And>q. strict_prefix q (tmp_name sfx dest) \<Longrightarrow> strict_prefix q dest"
proof -
  have "dest \<noteq> []" using assms(1) by (auto simp: strict_prefix_def)
  then obtain p x where dest: "dest = p @ [x]" by (metis append_butlast_last_id)
  have tmp: "tmp_name sfx (p @ [x]) = p @ [x @ ''.tmp-'' @ sfx]" by (simp add: tmp_name_def)
  have V: "prefix V p" using assms(1) by (auto simp: dest strict_prefix_def)
  show "tmp_name sfx dest \<noteq> dest" "\<not> prefix (tmp_name sfx dest) dest" by (auto simp: tmp dest)
  show "prefix V (tmp_name sfx dest)" using V by (simp add: tmp dest)
  show "list_all plain_name (tmp_name sfx dest)" using assms(2) by (auto simp: tmp dest plain_name_def)
  show "strict_prefix q dest" if "strict_prefix q (tmp_name sfx dest)" for q
    using that by (auto simp: tmp dest strict_prefix_def)
qed

text \<open>What holds of the disk while the write is under way: \<open>d0\<close> is the disk at its start.\<close>

definition writing :: "path \<Rightarrow> path \<Rightarrow> path \<Rightarrow> disk \<Rightarrow> disk \<Rightarrow> bool" where
  "writing V dest tmp d0 d \<longleftrightarrow> area_ok V (insert tmp {q. prefix q dest}) d \<and> node_at d dest = node_at d0 dest
     \<and> (\<forall>q. q \<noteq> dest \<longrightarrow> q \<noteq> tmp \<longrightarrow> node_at d q = node_at d0 q \<or>
           node_at d0 q = None \<and> prefix q dest \<and> node_at d q = Some Dir)
     \<and> node_at d0 tmp = None \<and> (\<exists>b. node_at d tmp = Some (File b))"

definition written :: "path \<Rightarrow> path \<Rightarrow> disk \<Rightarrow> string \<Rightarrow> io_error + unit \<Rightarrow> disk \<Rightarrow> bool" where
  "written dest tmp d0 bytes r d \<longleftrightarrow>
     node_at d dest = (case r of Inr _ \<Rightarrow> Some (File bytes) | Inl _ \<Rightarrow> node_at d0 dest)
     \<and> (\<forall>q. q \<noteq> dest \<longrightarrow> q \<noteq> tmp \<longrightarrow> node_at d q = node_at d0 q \<or>
           node_at d0 q = None \<and> prefix q dest \<and> node_at d q = Some Dir)
     \<and> (node_at d tmp = node_at d0 tmp \<or> (\<exists>e. r = Inl e) \<and> node_at d0 tmp = None \<and> (\<exists>b. node_at d tmp = Some (File b)))"

lemma in_area_tmp:
  assumes "strict_prefix V dest" and "list_all plain_name dest"
  shows "in_area V (insert (tmp_name sfx dest) {q. prefix q dest}) (tmp_name sfx dest)"
    "in_area V (insert (tmp_name sfx dest) {q. prefix q dest}) dest"
proof -
  note tmp = tmp_name_props [OF assms, where sfx = sfx]
  have "q = tmp_name sfx dest \<or> prefix q dest" if "prefix q (tmp_name sfx dest)" for q
    using tmp(5) [of q] that by (auto simp: strict_prefix_def)
  then show "in_area V (insert (tmp_name sfx dest) {q. prefix q dest}) (tmp_name sfx dest)"
    using tmp(2,3) by (simp add: in_area_def)
  show "in_area V (insert (tmp_name sfx dest) {q. prefix q dest}) dest"
    using assms by (simp add: in_area_def strict_prefix_def)
qed

lemma writing_put_tmp:
  assumes "writing V dest tmp d0 d" and "tmp \<noteq> dest" and "prefix V tmp"
  shows "writing V dest tmp d0 (put tmp (File b) d)" "node_at (put tmp (File b) d) tmp = Some (File b)"
proof -
  have ok: "area_ok V (insert tmp {q. prefix q dest}) d" using assms(1) by (simp add: writing_def)
  have look: "node_at (put tmp (File b) d) q = (if q = tmp then Some (File b) else node_at d q)" for q
    by (rule node_at_put [OF area_nonroot [OF ok assms(3)]])
  have "area_ok V (insert tmp {q. prefix q dest}) (put tmp (File b) d)"
    using area_step_ok [OF area_step_put [OF ok assms(3)]] by simp
  then show "writing V dest tmp d0 (put tmp (File b) d)" using assms(1,2) by (auto simp: writing_def look)
  show "node_at (put tmp (File b) d) tmp = Some (File b)" by (simp add: look)
qed

lemma d_write_tmp:
  assumes "writing V dest tmp d0 d" and "in_area V (insert tmp {q. prefix q dest}) tmp" and "tmp \<noteq> dest"
  shows "writing V dest tmp d0 (fst (d_write tmp b d))"
    "snd (d_write tmp b d) = Inr () \<Longrightarrow> node_at (fst (d_write tmp b d)) tmp = Some (File b)"
proof -
  have ok: "area_ok V (insert tmp {q. prefix q dest}) d" using assms(1) by (simp add: writing_def)
  obtain c where c: "node_at d tmp = Some (File c)" using assms(1) by (auto simp: writing_def)
  note put = writing_put_tmp [OF assms(1,3) in_area_prefix [OF assms(2)], of b]
  show "writing V dest tmp d0 (fst (d_write tmp b d))"
    "snd (d_write tmp b d) = Inr () \<Longrightarrow> node_at (fst (d_write tmp b d)) tmp = Some (File b)"
    using area_followed [OF ok assms(2)] put c assms(1) by (auto simp: d_write_def)
qed

lemma sys_write_tmp:
  assumes "in_area V (insert tmp {q. prefix q dest}) tmp" and "tmp \<noteq> dest"
  shows "triple (writing V dest tmp d0) (sys_write fl tmp b)
    (\<lambda>r d. writing V dest tmp d0 d \<and> (r = Inr () \<longrightarrow> node_at d tmp = Some (File b)))"
  unfolding sys_write_def
proof (rule triple_call)
  fix d f assume d: "writing V dest tmp d0 d"
  show "writing V dest tmp d0 (fst (d_write tmp b d)) \<and>
      (snd (d_write tmp b d) = Inr () \<longrightarrow> node_at (fst (d_write tmp b d)) tmp = Some (File b))"
    using d_write_tmp [OF d assms] by simp
  show "writing V dest tmp d0 (partly_written tmp b f d) \<and>
      ((Inl OtherKind :: io_error + unit) = Inr () \<longrightarrow> node_at (partly_written tmp b f d) tmp = Some (File b))"
    using d_write_tmp [OF d assms] d by (simp add: partly_written_def split: option.split)
qed

lemma sys_rename_tmp:
  assumes "in_area V (insert tmp {q. prefix q dest}) tmp" and "in_area V (insert tmp {q. prefix q dest}) dest"
    and "tmp \<noteq> dest" and "\<not> prefix tmp dest"
  shows "triple (\<lambda>d. writing V dest tmp d0 d \<and> node_at d tmp = Some (File b)) (sys_rename fl tmp dest)
    (\<lambda>r d. case r of Inr _ \<Rightarrow> written dest tmp d0 b r d | Inl _ \<Rightarrow> writing V dest tmp d0 d)"
  unfolding sys_rename_def
proof (rule triple_call)
  fix d f assume d: "writing V dest tmp d0 d \<and> node_at d tmp = Some (File b)"
  then have ok: "area_ok V (insert tmp {q. prefix q dest}) d" by (simp add: writing_def)
  note root = area_nonroot [OF ok in_area_prefix [OF assms(1)]] area_nonroot [OF ok in_area_prefix [OF assms(2)]]
  have moved: "node_at (move_node tmp dest d) q = (if q = dest then Some (File b) else if q = tmp then None else node_at d q)" for q
    using d root by (simp add: move_node_def node_at_put node_at_drop_node)
  have "written dest tmp d0 b (Inr ()) (move_node tmp dest d)"
    using d assms(3) by (auto simp: written_def writing_def moved)
  then show "case snd (d_rename tmp dest d) of
      Inl _ \<Rightarrow> writing V dest tmp d0 (fst (d_rename tmp dest d))
    | Inr _ \<Rightarrow> written dest tmp d0 b (snd (d_rename tmp dest d)) (fst (d_rename tmp dest d))"
    using d area_located [OF ok assms(1)] area_located [OF ok assms(2)] root assms(3,4)
    by (auto simp: d_rename_def split: option.split node.split)
qed (simp add: unharmed_def)

lemma sys_remove_tmp:
  assumes "in_area V (insert tmp {q. prefix q dest}) tmp" and "tmp \<noteq> dest"
  shows "triple (writing V dest tmp d0) (sys_remove_file fl tmp) (\<lambda>_ d. written dest tmp d0 b (Inl e) d)"
  unfolding sys_remove_file_def
proof (rule triple_call)
  fix d f assume d: "writing V dest tmp d0 d"
  then have ok: "area_ok V (insert tmp {q. prefix q dest}) d" by (simp add: writing_def)
  have "written dest tmp d0 b (Inl e) d" using d by (simp add: written_def writing_def)
  moreover have "written dest tmp d0 b (Inl e) (drop_node tmp d)"
    using d assms(2) node_at_drop_node [OF area_nonroot [OF ok in_area_prefix [OF assms(1)]]]
    by (auto simp: written_def writing_def)
  ultimately show "written dest tmp d0 b (Inl e) (fst (d_remove_file tmp d))"
    using area_located [OF ok assms(1)] by (auto simp: d_remove_file_def split: option.split node.split)
qed (simp add: unharmed_def written_def writing_def)

lemma fill_and_rename_spec:
  assumes "in_area V (insert tmp {q. prefix q dest}) tmp" and "in_area V (insert tmp {q. prefix q dest}) dest"
    and "tmp \<noteq> dest" and "\<not> prefix tmp dest"
  shows "triple (writing V dest tmp d0) (fill_and_rename fl tmp dest b) (written dest tmp d0 b)"
  unfolding fill_and_rename_def
proof (rule triple_try)
  let ?mid = "\<lambda>r d. case r of Inr _ \<Rightarrow> written dest tmp d0 b (Inr ()) d | Inl (_ :: io_error) \<Rightarrow> writing V dest tmp d0 d"
  have sync: "triple (\<lambda>d. writing V dest tmp d0 d \<and> node_at d tmp = Some (File b)) (sys_sync_all fl)
      (\<lambda>r d. writing V dest tmp d0 d \<and> node_at d tmp = Some (File b))"
    unfolding sys_sync_all_def by (rule triple_call) (simp_all add: unharmed_def)
  have rename: "triple (\<lambda>d. writing V dest tmp d0 d \<and> node_at d tmp = Some (File b)) (sys_rename fl tmp dest) ?mid"
    by (rule triple_conseq [OF sys_rename_tmp [OF assms]]) (auto split: sum.splits)
  have tail: "triple (\<lambda>d. writing V dest tmp d0 d \<and> node_at d tmp = Some (File b))
      (io_bind (sys_sync_all fl) (\<lambda>_. sys_rename fl tmp dest)) ?mid"
    by (rule triple_bind [OF sync rename]) simp
  show "triple (writing V dest tmp d0)
      (io_bind (sys_write fl tmp b) (\<lambda>_. io_bind (sys_sync_all fl) (\<lambda>_. sys_rename fl tmp dest))) ?mid"
    by (rule triple_bind [OF sys_write_tmp [OF assms(1,3)]], rule triple_conseq [OF tail]) auto
  fix r show "triple (?mid r) (case r of Inr _ \<Rightarrow> io_return () | Inl e \<Rightarrow> io_try (sys_remove_file fl tmp) (\<lambda>_. io_fail e))
      (written dest tmp d0 b)"
    by (cases r) (auto intro!: triple_return triple_try [OF sys_remove_tmp [OF assms(1,3), where b = b]] triple_fail)
qed

lemma sys_create_new_tmp:
  assumes "strict_prefix V dest" and "list_all plain_name dest"
  shows "triple (\<lambda>d. area_ok V {q. prefix q dest} d \<and> grown (butlast dest) d0 d)
    (sys_create_new fl (tmp_name sfx dest))
    (\<lambda>r d. case r of Inr _ \<Rightarrow> writing V dest (tmp_name sfx dest) d0 d
           | Inl _ \<Rightarrow> area_ok V {q. prefix q dest} d \<and> grown (butlast dest) d0 d)"
  unfolding sys_create_new_def
proof (rule triple_call)
  let ?tmp = "tmp_name sfx dest"
  note tmp = tmp_name_props [OF assms, where sfx = sfx]
  fix d f assume d: "area_ok V {q. prefix q dest} d \<and> grown (butlast dest) d0 d"
  have root: "?tmp \<noteq> []" "dest \<noteq> []" using assms(1) by (auto simp: tmp_name_def strict_prefix_def)
  have "locate d ?tmp = Inr ?tmp \<or> (\<exists>e. locate d ?tmp = Inl e)"
    unfolding locate_def using walk_no_links [OF tmp(3), of "[]" False d MAX_LINKS] tmp(5) d
      area_no_link [of V "{q. prefix q dest}" d dest] assms
    by (auto simp: in_area_def strict_prefix_def)
  moreover have "writing V dest ?tmp d0 (put ?tmp (File []) d)" if free: "node_at d ?tmp = None"
  proof -
    have look: "node_at (put ?tmp (File []) d) q = (if q = ?tmp then Some (File []) else node_at d q)" for q
      by (rule node_at_put [OF root(1)])
    have "area_ok V {q. prefix q dest} (put ?tmp (File []) d)"
      using area_step_ok [OF area_step_put] d tmp(2) by blast
    then have ok: "area_ok V (insert ?tmp {q. prefix q dest}) (put ?tmp (File []) d)"
      by (auto simp: area_ok_def look)
    have "\<not> prefix dest (butlast dest)" using root(2) by (metis length_butlast prefix_length_le diff_less length_greater_0_conv not_le zero_less_one)
    moreover have "prefix q dest" if "prefix q (butlast dest)" for q
      using that by (metis append_butlast_last_id prefix_prefix root(2))
    moreover have "node_at d0 ?tmp = None" using d free unfolding grown_def by metis
    ultimately show ?thesis using ok d tmp(1) unfolding writing_def look grown_def by metis
  qed
  ultimately show "case snd (d_create_new ?tmp d) of
      Inl _ \<Rightarrow> area_ok V {q. prefix q dest} (fst (d_create_new ?tmp d)) \<and> grown (butlast dest) d0 (fst (d_create_new ?tmp d))
    | Inr _ \<Rightarrow> writing V dest ?tmp d0 (fst (d_create_new ?tmp d))"
    using d by (auto simp: d_create_new_def)
qed (simp add: unharmed_def)

subsection \<open>The whole write\<close>

lemma reject_spec:
  "reject_symlink_components root_dir dest s =
     (if symlink_component root_dir dest (os_disk s) then Inl OtherKind else Inr (), s)"
  by (simp add: reject_symlink_components_def io_bind_def io_try_def io_query_def io_fail_def io_return_def)

lemma area_of_real_dir:
  assumes "wf_disk d" and "real_dir d root_dir" and "strict_prefix root_dir dest" and "list_all plain_name dest"
    and "\<not> symlink_component root_dir dest d"
  shows "area_ok root_dir {q. prefix q dest} d"
  using assms no_symlink_component [OF assms(1,2) _ assms(4,5)]
  by (auto simp: area_ok_def real_dir_def strict_prefix_def)

lemma write_after_check:
  assumes "strict_prefix V dest" and "list_all plain_name dest"
  shows "triple (\<lambda>d. area_ok V {q. prefix q dest} d \<and> grown (butlast dest) d0 d)
    (io_bind (sys_create_dir_all fl (butlast dest)) (\<lambda>_.
     io_bind (reject_symlink_components V dest) (\<lambda>_.
       io_bind (sys_create_new fl (tmp_name sfx dest)) (\<lambda>_. fill_and_rename fl (tmp_name sfx dest) dest bytes))))
    (written dest (tmp_name sfx dest) d0 bytes)"
proof -
  let ?pre = "\<lambda>d. area_ok V {q. prefix q dest} d \<and> grown (butlast dest) d0 d"
  have nonempty: "dest \<noteq> []" using assms(1) by (auto simp: strict_prefix_def)
  have failed: "written dest (tmp_name sfx dest) d0 bytes (Inl e) d" if "?pre d" for e d
  proof -
    have "\<not> prefix dest (butlast dest)" using nonempty by (metis length_butlast prefix_length_le diff_less length_greater_0_conv not_le zero_less_one)
    moreover have "prefix q dest" if "prefix q (butlast dest)" for q
      using that by (metis append_butlast_last_id prefix_prefix nonempty)
    moreover have "\<not> prefix (tmp_name sfx dest) dest" using tmp_name_props(4) [OF assms] .
    ultimately show ?thesis using that unfolding written_def grown_def by (simp, metis)
  qed
  have dirs: "in_area V {q. prefix q dest} (butlast dest)"
  proof -
    obtain p x where dest: "dest = p @ [x]" using nonempty by (metis append_butlast_last_id)
    have "prefix V p" using assms(1) by (auto simp: dest strict_prefix_def)
    then show ?thesis using assms(2) by (auto simp: in_area_def dest)
  qed
  have create: "triple ?pre (io_bind (sys_create_new fl (tmp_name sfx dest))
      (\<lambda>_. fill_and_rename fl (tmp_name sfx dest) dest bytes)) (written dest (tmp_name sfx dest) d0 bytes)"
    by (rule triple_bind [OF sys_create_new_tmp [OF assms]])
      (use fill_and_rename_spec [OF in_area_tmp [OF assms]] tmp_name_props [OF assms] failed in auto)
  have check: "triple ?pre (reject_symlink_components V dest) (\<lambda>_. ?pre)"
    by (simp add: triple_def reject_spec)
  show ?thesis
    by (rule triple_bind [OF sys_create_dir_all_grown [OF dirs]], rule triple_bind [OF check create])
      (use failed in auto)
qed

text \<open>
  C19: Writes stay below their root and are atomic. For a root that is a real directory and a
  destination strictly below it, whatever links are planted below the root and whatever system
  calls fail: nothing outside the root changes; the destination holds the new content exactly when
  the write succeeds and its old node otherwise; of every other path but the temporary name, file,
  link, directory or absent, the node is unchanged, or it is a missing parent of the destination
  that is now a directory; the temporary name is as it was, or, after a failure, a new file; and
  when a component of the destination is a link, the write is refused and the disk is untouched.
\<close>

theorem atomic_write_is_confined:
  assumes "wf_disk (os_disk s)" and "real_dir (os_disk s) root_dir"
    and "strict_prefix root_dir dest" and "list_all plain_name dest"
    and "write_with_mode fl sfx root_dir dest bytes s = (r, s')"
  shows "(\<forall>q. \<not> prefix root_dir q \<longrightarrow> node_at (os_disk s') q = node_at (os_disk s) q) \<and>
    node_at (os_disk s') dest = (case r of Inr _ \<Rightarrow> Some (File bytes) | Inl _ \<Rightarrow> node_at (os_disk s) dest) \<and>
    (\<forall>q. q \<noteq> dest \<and> q \<noteq> tmp_name sfx dest \<longrightarrow> node_at (os_disk s') q = node_at (os_disk s) q \<or>
      node_at (os_disk s) q = None \<and> strict_prefix q dest \<and> node_at (os_disk s') q = Some Dir) \<and>
    (node_at (os_disk s') (tmp_name sfx dest) = node_at (os_disk s) (tmp_name sfx dest) \<or>
      (\<exists>e b. r = Inl e \<and> node_at (os_disk s) (tmp_name sfx dest) = None \<and>
        node_at (os_disk s') (tmp_name sfx dest) = Some (File b))) \<and>
    ((\<exists>q t. strict_prefix root_dir q \<and> prefix q dest \<and> node_at (os_disk s) q = Some (Symlink t)) \<longrightarrow>
      r = Inl OtherKind \<and> s' = s)"
proof (cases "symlink_component root_dir dest (os_disk s)")
  case True
  then have "r = Inl OtherKind \<and> s' = s"
    using assms(5) by (simp add: write_with_mode_def io_bind_def io_try_def reject_spec io_fail_def)
  then show ?thesis by auto
next
  case False
  have nonempty: "dest \<noteq> []" using assms(3) by (auto simp: strict_prefix_def)
  have plain_last: "last dest \<noteq> ''..''" using assms(4) nonempty by (auto simp: list_all_iff plain_name_def dest: last_in_set)
  have run: "write_with_mode fl sfx root_dir dest bytes s =
     io_bind (sys_create_dir_all fl (butlast dest)) (\<lambda>_.
     io_bind (reject_symlink_components root_dir dest) (\<lambda>_.
       io_bind (sys_create_new fl (tmp_name sfx dest)) (\<lambda>_. fill_and_rename fl (tmp_name sfx dest) dest bytes))) s"
    using False nonempty plain_last
    by (simp add: write_with_mode_def io_bind_def [of "reject_symlink_components root_dir dest" "\<lambda>_. io_bind _ _"] io_try_def reject_spec)
  have w: "written dest (tmp_name sfx dest) (os_disk s) bytes r (os_disk s')"
    using triple_use [OF write_after_check [OF assms(3,4)], of s "os_disk s"] area_of_real_dir [OF assms(1-4) False]
      run assms(5) by simp
  have frame: "node_at (os_disk s') q = node_at (os_disk s) q \<or>
      node_at (os_disk s) q = None \<and> prefix q dest \<and> node_at (os_disk s') q = Some Dir"
    if "q \<noteq> dest" "q \<noteq> tmp_name sfx dest" for q
    using w that by (simp add: written_def)
  have dir: "node_at (os_disk s) q \<noteq> None" if "\<not> prefix root_dir q" "prefix q dest" for q
    using that assms(2,3) by (metis option.distinct(1) prefix_same_cases real_dir_def strict_prefix_def)
  have out: "node_at (os_disk s') q = node_at (os_disk s) q" if "\<not> prefix root_dir q" for q
  proof -
    have "q \<noteq> dest" "q \<noteq> tmp_name sfx dest"
      using that assms(3) tmp_name_props(2) [OF assms(3,4), of sfx] by (auto simp: strict_prefix_def)
    then show ?thesis using frame [of q] dir [OF that] by auto
  qed
  have "\<not> (\<exists>q t. strict_prefix root_dir q \<and> prefix q dest \<and> node_at (os_disk s) q = Some (Symlink t))"
    using symlink_component_complete [OF assms(1) _ _ assms(4)] False by blast
  moreover have "node_at (os_disk s') dest = (case r of Inr _ \<Rightarrow> Some (File bytes) | Inl _ \<Rightarrow> node_at (os_disk s) dest)"
    "node_at (os_disk s') (tmp_name sfx dest) = node_at (os_disk s) (tmp_name sfx dest) \<or>
      (\<exists>e b. r = Inl e \<and> node_at (os_disk s) (tmp_name sfx dest) = None \<and>
        node_at (os_disk s') (tmp_name sfx dest) = Some (File b))"
    using w by (auto simp: written_def)
  ultimately show ?thesis using out frame by (auto simp: strict_prefix_def)
qed

text \<open>
  A write below a missing directory, beside a planted link: the new file is there, the directory was
  made, the link and what it points to are as before. The same write through the link is refused.
\<close>

definition linked_os :: os where
  "linked_os = \<lparr>os_disk = [([''a''], Dir), ([''a'', ''l''], Symlink (Absolute [''etc''])), ([''etc''], Dir)], os_calls = 0\<rparr>"

lemma linked_os_ok: "wf_disk (os_disk linked_os)" "real_dir (os_disk linked_os) [''a'']"
  by (auto simp: linked_os_def wf_disk_def real_dir_def plain_name_def node_at_def prefix_Cons split: if_splits)

theorem atomic_write_is_confined_witness:
  "(\<exists>s'. write_with_mode (\<lambda>_. None) ''1'' [''a''] [''a'', ''s'', ''f''] ''new'' linked_os = (Inr (), s') \<and>
      node_at (os_disk s') [''a'', ''s'', ''f''] = Some (File ''new'') \<and>
      node_at (os_disk s') [''a'', ''s'', ''f.tmp-1''] = None \<and>
      node_at (os_disk s') [''a'', ''l''] = Some (Symlink (Absolute [''etc''])) \<and>
      node_at (os_disk s') [''etc'', ''f''] = None) \<and>
   write_with_mode (\<lambda>_. None) ''1'' [''a''] [''a'', ''l'', ''f''] ''new'' linked_os = (Inl OtherKind, linked_os)"
proof
  let ?w = "\<lambda>x. write_with_mode (\<lambda>_. None) ''1'' [''a''] [''a'', x, ''f''] ''new'' linked_os"
  have below: "strict_prefix [''a''] [''a'', x, ''f'']" for x :: string by (simp add: strict_prefix_def)
  have plain: "list_all plain_name [''a'', ''s'', ''f'']" "list_all plain_name [''a'', ''l'', ''f'']" by (simp_all add: plain_name_def)
  obtain r s' where run: "?w ''s'' = (r, s')" by fastforce
  have "fst (?w ''s'') = Inr ()" by code_simp
  then have r: "r = Inr ()" using run by simp
  note all = atomic_write_is_confined [OF linked_os_ok below plain(1) run]
  have "node_at (os_disk s') [''a'', ''s'', ''f''] = Some (File ''new'')" using all r by simp
  moreover have "node_at (os_disk s') [''a'', ''s'', ''f.tmp-1''] = None"
    using all r by (simp add: tmp_name_def linked_os_def node_at_def)
  moreover have "node_at (os_disk s') [''a'', ''l''] = Some (Symlink (Absolute [''etc'']))" "node_at (os_disk s') [''etc'', ''f''] = None"
    using all [THEN conjunct2, THEN conjunct2, THEN conjunct1, rule_format, of "[''a'', ''l'']"]
      all [THEN conjunct1, rule_format, of "[''etc'', ''f'']"]
    by (auto simp: tmp_name_def linked_os_def node_at_def)
  ultimately show "\<exists>s'. ?w ''s'' = (Inr (), s') \<and> node_at (os_disk s') [''a'', ''s'', ''f''] = Some (File ''new'') \<and>
      node_at (os_disk s') [''a'', ''s'', ''f.tmp-1''] = None \<and>
      node_at (os_disk s') [''a'', ''l''] = Some (Symlink (Absolute [''etc''])) \<and> node_at (os_disk s') [''etc'', ''f''] = None"
    using run r by blast
  obtain r2 s2 where run2: "?w ''l'' = (r2, s2)" by fastforce
  have "strict_prefix [''a''] [''a'', ''l''] \<and> prefix [''a'', ''l''] [''a'', ''l'', ''f''] \<and>
      node_at (os_disk linked_os) [''a'', ''l''] = Some (Symlink (Absolute [''etc'']))"
    by (simp add: strict_prefix_def node_at_def linked_os_def)
  then show "?w ''l'' = (Inl OtherKind, linked_os)"
    using atomic_write_is_confined [OF linked_os_ok below plain(2) run2] run2 by blast
qed

end
