(* ===== verification/Layout.thy ===== *)
theory Layout
  imports Updater FsUtil
begin

text \<open>
  The on-disk layout of \<open>crates/updater/src/layout.rs\<close> (\<open>bootstrap\<close>, \<open>current\<close>,
  \<open>versions\<close>), the ban list on disk (\<open>banlist.rs\<close>) and \<open>rollback\<close> (\<open>lib.rs\<close>). The base
  directory is an absolute path; a path is the list of its components, as Rust compares paths. The
  JSON of a manifest and of the ban list and the SHA-256 are parameters.
\<close>

type_synonym 'a updater_io = "(updater_error, 'a) io"

record layout =
  base_dir :: path

definition CURRENT_LINK :: string where
  "CURRENT_LINK = ''current''"

definition BOOTSTRAP_DIR :: string where
  "BOOTSTRAP_DIR = ''bootstrap''"

definition VERSIONS_DIR :: string where
  "VERSIONS_DIR = ''versions''"

definition HEALTHY_MARKER :: string where
  "HEALTHY_MARKER = ''.healthy''"

definition MANIFEST_FILE :: string where
  "MANIFEST_FILE = ''manifest.json''"

definition bootstrap_dir :: "layout \<Rightarrow> path" where
  "bootstrap_dir l = base_dir l @ [BOOTSTRAP_DIR]"

definition versions_dir :: "layout \<Rightarrow> path" where
  "versions_dir l = base_dir l @ [VERSIONS_DIR]"

definition current_link :: "layout \<Rightarrow> path" where
  "current_link l = base_dir l @ [CURRENT_LINK]"

definition version_dir :: "layout \<Rightarrow> nat \<Rightarrow> path" where
  "version_dir l v = versions_dir l @ [''v'' @ show_nat v]"

text \<open>\<open>Path::components\<close> drops empty and dot components; joining an absolute path replaces.\<close>

definition components :: "string \<Rightarrow> path" where
  "components p = filter (\<lambda>c. c \<noteq> [] \<and> c \<noteq> ''.'') (split_on (CHR ''/'') p)"

definition join_path :: "path \<Rightarrow> string \<Rightarrow> path" where
  "join_path dir p = (if starts_with p ''/'' then components p else dir @ components p)"

definition file_name :: "path \<Rightarrow> string option" where
  "file_name p = (if p = [] \<or> last p = ''..'' then None else Some (last p))"

definition io_err :: "path \<Rightarrow> io_error \<Rightarrow> updater_error" where
  "io_err p e = Io_Error (concat (map (\<lambda>c. CHR ''/'' # c) p))"

subsection \<open>The active release\<close>

definition resolve_target :: "layout \<Rightarrow> link_target \<Rightarrow> path" where
  "resolve_target l t =
     (let resolved = (case t of Absolute p \<Rightarrow> p | Relative p \<Rightarrow> base_dir l @ p)
      in if resolved = bootstrap_dir l \<or> prefix (versions_dir l) resolved then resolved else bootstrap_dir l)"

definition resolve_active_dir :: "layout \<Rightarrow> disk \<Rightarrow> path" where
  "resolve_active_dir l d =
     (case read_link d (current_link l) of None \<Rightarrow> bootstrap_dir l | Some t \<Rightarrow> resolve_target l t)"

definition parse_version :: "string \<Rightarrow> nat option" where
  "parse_version name = Option.bind (strip_prefix name ''v'') parse_u64"

definition version_of_dir :: "path \<Rightarrow> nat option" where
  "version_of_dir p = Option.bind (file_name p) parse_version"

definition current_release_version :: "layout \<Rightarrow> disk \<Rightarrow> nat option" where
  "current_release_version l d = version_of_dir (resolve_active_dir l d)"

subsection \<open>Staged files and the manifest on disk\<close>

text \<open>Hashing a file: a failed read is the error of the path.\<close>

definition hash_staged :: "faults \<Rightarrow> (string \<Rightarrow> string) \<Rightarrow> path \<Rightarrow> string updater_io" where
  "hash_staged fl sha256 p =
     io_bind (io_map_err (io_err p) (sys_read fl p)) (\<lambda>bytes. io_return (sha256 bytes))"

fun verify_entries :: "faults \<Rightarrow> (string \<Rightarrow> string) \<Rightarrow> path \<Rightarrow> (string \<times> string) list \<Rightarrow> unit updater_io" where
  "verify_entries fl sha256 dir [] = io_return ()"
| "verify_entries fl sha256 dir ((rel_path, expected) # es) =
     io_bind (io_query (\<lambda>d. file_exists d (join_path dir rel_path))) (\<lambda>is_file.
     if \<not> is_file then io_fail (StagedFileMissing rel_path)
     else io_bind (hash_staged fl sha256 (join_path dir rel_path)) (\<lambda>actual.
       if actual \<noteq> expected then io_fail (StagedFileMismatch rel_path expected actual)
       else verify_entries fl sha256 dir es))"

definition verify_staged :: "faults \<Rightarrow> (string \<Rightarrow> string) \<Rightarrow> layout \<Rightarrow> release_manifest \<Rightarrow> unit updater_io" where
  "verify_staged fl sha256 l m = verify_entries fl sha256 (version_dir l (rm_release_version m)) (rm_entries m)"

definition manifest_path :: "layout \<Rightarrow> nat \<Rightarrow> path" where
  "manifest_path l v = version_dir l v @ [MANIFEST_FILE]"

definition persist_manifest :: "faults \<Rightarrow> (release_manifest \<Rightarrow> string) \<Rightarrow> layout \<Rightarrow> release_manifest \<Rightarrow> unit updater_io" where
  "persist_manifest fl to_json l m =
     (let path = manifest_path l (rm_release_version m)
      in io_map_err (io_err path) (sys_write fl path (to_json m)))"

definition read_manifest :: "faults \<Rightarrow> (string \<Rightarrow> release_manifest option) \<Rightarrow> layout \<Rightarrow> nat \<Rightarrow> release_manifest updater_io" where
  "read_manifest fl from_json l v =
     (let path = manifest_path l v
      in io_bind (io_map_err (io_err path) (sys_read fl path)) (\<lambda>bytes.
           case from_json bytes of
             None \<Rightarrow> io_fail (ManifestCorrupt (concat (map (\<lambda>c. CHR ''/'' # c) path)))
           | Some m \<Rightarrow> io_return m))"

subsection \<open>Moving the link\<close>

definition tmp_link :: "layout \<Rightarrow> path" where
  "tmp_link l = base_dir l @ [''.'' @ CURRENT_LINK @ ''.tmp'']"

definition swap_current_to :: "faults \<Rightarrow> layout \<Rightarrow> path \<Rightarrow> unit updater_io" where
  "swap_current_to fl l target =
     io_try (sys_remove_file fl (tmp_link l)) (\<lambda>removed.
     case removed of
       Inl OtherKind \<Rightarrow> io_fail (io_err (tmp_link l) OtherKind)
     | Inl AlreadyExists \<Rightarrow> io_fail (io_err (tmp_link l) AlreadyExists)
     | _ \<Rightarrow>
         io_bind (io_map_err (io_err (tmp_link l)) (sys_symlink fl (Absolute target) (tmp_link l))) (\<lambda>_.
         io_map_err (io_err (current_link l)) (sys_rename fl (tmp_link l) (current_link l))))"

definition promote :: "faults \<Rightarrow> layout \<Rightarrow> nat \<Rightarrow> unit updater_io" where
  "promote fl l v = swap_current_to fl l (version_dir l v)"

definition reset_to_bootstrap :: "faults \<Rightarrow> layout \<Rightarrow> unit updater_io" where
  "reset_to_bootstrap fl l = swap_current_to fl l (bootstrap_dir l)"

subsection \<open>Installed releases\<close>

text \<open>An entry of \<open>versions\<close> counts when it is a directory (links are followed) and its name is
  \<open>v\<close> and a number.\<close>

definition installed_of :: "layout \<Rightarrow> disk \<Rightarrow> string list \<Rightarrow> nat list" where
  "installed_of l d names =
     sort (List.map_filter parse_version (filter (\<lambda>n. dir_exists d (versions_dir l @ [n])) names))"

definition installed_versions :: "faults \<Rightarrow> layout \<Rightarrow> ('e, nat list) io" where
  "installed_versions fl l =
     io_try (sys_read_dir fl (versions_dir l)) (\<lambda>r.
       case r of
         Inl _ \<Rightarrow> io_return []
       | Inr names \<Rightarrow> io_query (\<lambda>d. installed_of l d names))"

definition healthy_at :: "layout \<Rightarrow> nat \<Rightarrow> disk \<Rightarrow> bool" where
  "healthy_at l v d = file_exists d (version_dir l v @ [HEALTHY_MARKER])"

definition is_healthy :: "layout \<Rightarrow> nat \<Rightarrow> ('e, bool) io" where
  "is_healthy l v = io_query (healthy_at l v)"

definition pick_target :: "layout \<Rightarrow> nat \<Rightarrow> banned_versions \<Rightarrow> nat list \<Rightarrow> disk \<Rightarrow> nat option" where
  "pick_target l v banned installed d =
     find (\<lambda>w. w < v \<and> \<not> is_banned banned w \<and> healthy_at l w d) (rev installed)"

definition rollback_target :: "faults \<Rightarrow> layout \<Rightarrow> nat \<Rightarrow> banned_versions \<Rightarrow> ('e, nat option) io" where
  "rollback_target fl l v banned =
     io_bind (installed_versions fl l) (\<lambda>installed. io_query (pick_target l v banned installed))"

definition mark_healthy :: "faults \<Rightarrow> layout \<Rightarrow> nat \<Rightarrow> unit updater_io" where
  "mark_healthy fl l v =
     (let marker = version_dir l v @ [HEALTHY_MARKER];
          tmp = version_dir l v @ [HEALTHY_MARKER @ ''.tmp'']
      in io_bind (io_map_err (io_err tmp) (sys_write fl tmp [])) (\<lambda>_.
         io_map_err (io_err marker) (sys_rename fl tmp marker)))"

definition prune :: "faults \<Rightarrow> layout \<Rightarrow> nat \<Rightarrow> unit updater_io" where
  "prune fl l v =
     (let dir = version_dir l v
      in io_try (sys_remove_dir_all fl dir) (\<lambda>r.
           case r of
             Inr _ \<Rightarrow> io_return ()
           | Inl NotFound \<Rightarrow> io_return ()
           | Inl e \<Rightarrow> io_fail (io_err dir e)))"

subsection \<open>The ban list on disk and rolling back\<close>

definition load_bans :: "faults \<Rightarrow> (string \<Rightarrow> nat list option) \<Rightarrow> path \<Rightarrow> banned_versions updater_io" where
  "load_bans fl from_json p =
     io_try (sys_read fl p) (\<lambda>r.
       io_of (bans_load (case r of
           Inl NotFound \<Rightarrow> No_File
         | Inl _ \<Rightarrow> Unreadable_File
         | Inr text \<Rightarrow> (case from_json text of None \<Rightarrow> Corrupt_File | Some vs \<Rightarrow> Ban_List vs))))"

definition save_bans :: "faults \<Rightarrow> (nat list \<Rightarrow> string) \<Rightarrow> path \<Rightarrow> banned_versions \<Rightarrow> unit updater_io" where
  "save_bans fl to_json p b = io_map_err (io_err p) (sys_write fl p (to_json b))"

definition rollback ::
    "faults \<Rightarrow> (string \<Rightarrow> nat list option) \<Rightarrow> (nat list \<Rightarrow> string) \<Rightarrow> layout \<Rightarrow> path \<Rightarrow> nat option \<Rightarrow> nat \<Rightarrow> unit updater_io" where
  "rollback fl from_json to_json l ban_list previous failed =
     io_bind (case previous of Some v \<Rightarrow> promote fl l v | None \<Rightarrow> reset_to_bootstrap fl l) (\<lambda>_.
     io_bind (load_bans fl from_json ban_list) (\<lambda>banned.
     io_bind (save_bans fl to_json ban_list (ban failed banned)) (\<lambda>_.
     io_try (prune fl l failed) (\<lambda>_. io_return ()))))"

subsection \<open>The swap\<close>

lemma locate_in_base:
  assumes "real_dir d b" and "plain_name x"
  shows "locate d (b @ [x]) = Inr (b @ [x])"
proof -
  have plain: "list_all plain_name (b @ [x])" using assms by (simp add: real_dir_def)
  have "walk d MAX_LINKS False [] (b @ [x]) = Inr ([] @ b @ [x])"
    by (rule walk_through_dirs [OF plain]) (use assms(1) in \<open>auto simp: real_dir_def strict_prefix_def\<close>)
  then show ?thesis by (simp add: locate_def)
qed

lemma link_names:
  "plain_name CURRENT_LINK" "plain_name (''.'' @ CURRENT_LINK @ ''.tmp'')" "plain_name BOOTSTRAP_DIR"
  "plain_name VERSIONS_DIR" "tmp_link l \<noteq> current_link l" "\<not> prefix (tmp_link l) (current_link l)"
  by (simp_all add: plain_name_def CURRENT_LINK_def BOOTSTRAP_DIR_def VERSIONS_DIR_def tmp_link_def current_link_def)

lemma real_dir_frame:
  assumes "real_dir d b" and "\<And>q. prefix q b \<Longrightarrow> node_at d' q = node_at d q"
  shows "real_dir d' b"
  using assms by (simp add: real_dir_def)

definition swapped :: "layout \<Rightarrow> disk \<Rightarrow> disk \<Rightarrow> bool" where
  "swapped l d0 d \<longleftrightarrow> real_dir d (base_dir l) \<and> node_at d (current_link l) = node_at d0 (current_link l)
     \<and> (\<forall>q. q \<noteq> current_link l \<longrightarrow> q \<noteq> tmp_link l \<longrightarrow> node_at d q = node_at d0 q)"

lemma not_prefix_base: "\<not> prefix (tmp_link l) (base_dir l)" "\<not> prefix (current_link l) (base_dir l)"
  by (auto simp: tmp_link_def current_link_def dest: prefix_length_le)

lemma swapped_tmp:
  assumes "swapped l d0 d" and "\<And>q. q \<noteq> tmp_link l \<Longrightarrow> node_at d' q = node_at d q"
  shows "swapped l d0 d'"
proof -
  have "node_at d' q = node_at d q" if "prefix q (base_dir l)" for q
    using that not_prefix_base(1) [of l] by (intro assms(2)) auto
  then have "real_dir d' (base_dir l)"
    using assms(1) by (simp add: real_dir_frame [of d] swapped_def)
  then show ?thesis using assms link_names(5) [of l] by (simp add: swapped_def)
qed

lemma swap_remove: "triple (swapped l d0) (sys_remove_file fl (tmp_link l)) (\<lambda>r d. swapped l d0 d)"
  unfolding sys_remove_file_def
proof (rule triple_call)
  fix d f assume d: "swapped l d0 d"
  then have "locate d (tmp_link l) = Inr (tmp_link l)"
    using locate_in_base link_names(2) by (simp add: swapped_def tmp_link_def)
  moreover have "swapped l d0 (drop_node (tmp_link l) d)"
    by (rule swapped_tmp [OF d]) (simp add: node_at_drop_node tmp_link_def)
  ultimately show "swapped l d0 (fst (d_remove_file (tmp_link l) d))"
    using d by (simp add: d_remove_file_def split: option.split node.split)
qed (simp add: unharmed_def)

lemma swap_symlink:
  "triple (swapped l d0) (sys_symlink fl t (tmp_link l))
     (\<lambda>r d. swapped l d0 d \<and> (\<forall>u. r = Inr u \<longrightarrow> node_at d (tmp_link l) = Some (Symlink t)))"
  unfolding sys_symlink_def
proof (rule triple_call)
  fix d f assume d: "swapped l d0 d"
  then have "locate d (tmp_link l) = Inr (tmp_link l)"
    using locate_in_base link_names(2) by (simp add: swapped_def tmp_link_def)
  moreover have "swapped l d0 (put (tmp_link l) (Symlink t) d)"
    by (rule swapped_tmp [OF d]) (simp add: node_at_put tmp_link_def)
  moreover have "node_at (put (tmp_link l) (Symlink t) d) (tmp_link l) = Some (Symlink t)"
    by (simp add: node_at_put tmp_link_def)
  ultimately show "swapped l d0 (fst (d_symlink t (tmp_link l) d)) \<and>
      (\<forall>u. snd (d_symlink t (tmp_link l) d) = Inr u \<longrightarrow> node_at (fst (d_symlink t (tmp_link l) d)) (tmp_link l) = Some (Symlink t))"
    using d by (simp add: d_symlink_def)
qed (simp add: unharmed_def)

lemma swap_rename:
  "triple (\<lambda>d. swapped l d0 d \<and> node_at d (tmp_link l) = Some (Symlink t)) (sys_rename fl (tmp_link l) (current_link l))
     (\<lambda>r d. (\<forall>q. q \<noteq> current_link l \<longrightarrow> q \<noteq> tmp_link l \<longrightarrow> node_at d q = node_at d0 q) \<and>
        node_at d (current_link l) = (case r of Inr _ \<Rightarrow> Some (Symlink t) | Inl _ \<Rightarrow> node_at d0 (current_link l)))"
  unfolding sys_rename_def
proof (rule triple_call)
  fix d f assume d: "swapped l d0 d \<and> node_at d (tmp_link l) = Some (Symlink t)"
  then have "locate d (tmp_link l) = Inr (tmp_link l)" "locate d (current_link l) = Inr (current_link l)"
    using locate_in_base link_names(1,2) by (simp_all add: swapped_def tmp_link_def current_link_def)
  moreover have "node_at (move_node (tmp_link l) (current_link l) d) q =
      (if q = current_link l then Some (Symlink t) else if q = tmp_link l then None else node_at d q)" for q
    using d by (simp add: move_node_def node_at_put node_at_drop_node tmp_link_def current_link_def)
  ultimately show "(\<forall>q. q \<noteq> current_link l \<longrightarrow> q \<noteq> tmp_link l \<longrightarrow>
        node_at (fst (d_rename (tmp_link l) (current_link l) d)) q = node_at d0 q) \<and>
      node_at (fst (d_rename (tmp_link l) (current_link l) d)) (current_link l) =
        (case snd (d_rename (tmp_link l) (current_link l) d) of Inr _ \<Rightarrow> Some (Symlink t) | Inl _ \<Rightarrow> node_at d0 (current_link l))"
    using d link_names(5,6) [of l]
    by (auto simp: d_rename_def swapped_def tmp_link_def current_link_def split: option.split node.split)
qed (simp add: unharmed_def swapped_def)

definition swap_result :: "layout \<Rightarrow> path \<Rightarrow> disk \<Rightarrow> 'e + unit \<Rightarrow> disk \<Rightarrow> bool" where
  "swap_result l target d0 r d \<longleftrightarrow>
     (\<forall>q. q \<noteq> current_link l \<longrightarrow> q \<noteq> tmp_link l \<longrightarrow> node_at d q = node_at d0 q) \<and>
     node_at d (current_link l) = (case r of Inr _ \<Rightarrow> Some (Symlink (Absolute target)) | Inl _ \<Rightarrow> node_at d0 (current_link l))"

lemma swap_spec: "triple (swapped l d0) (swap_current_to fl l target) (swap_result l target d0)"
  unfolding swap_current_to_def
proof (rule triple_try [OF swap_remove])
  fix removed :: "io_error + unit"
  have fail: "triple (swapped l d0) (io_fail e) (swap_result l target d0)" for e :: updater_error
    by (rule triple_fail) (simp add: swapped_def swap_result_def)
  have sym: "triple (swapped l d0) (io_map_err (io_err (tmp_link l)) (sys_symlink fl (Absolute target) (tmp_link l)))
      (\<lambda>r d. swapped l d0 d \<and> (\<forall>u. r = Inr u \<longrightarrow> node_at d (tmp_link l) = Some (Symlink (Absolute target))))"
    by (rule triple_map_err [OF swap_symlink]) auto
  have ren: "triple (\<lambda>d. swapped l d0 d \<and> node_at d (tmp_link l) = Some (Symlink (Absolute target)))
      (io_map_err (io_err (current_link l)) (sys_rename fl (tmp_link l) (current_link l))) (swap_result l target d0)"
    by (rule triple_map_err [OF swap_rename]) (auto simp: swap_result_def)
  have "triple (swapped l d0)
      (io_bind (io_map_err (io_err (tmp_link l)) (sys_symlink fl (Absolute target) (tmp_link l))) (\<lambda>_.
         io_map_err (io_err (current_link l)) (sys_rename fl (tmp_link l) (current_link l))))
      (swap_result l target d0)"
    by (rule triple_bind [OF sym], rule triple_conseq [OF ren]) (auto simp: swap_result_def swapped_def)
  with fail show "triple (swapped l d0) (case removed of
       Inl OtherKind \<Rightarrow> io_fail (io_err (tmp_link l) OtherKind)
     | Inl AlreadyExists \<Rightarrow> io_fail (io_err (tmp_link l) AlreadyExists)
     | _ \<Rightarrow> io_bind (io_map_err (io_err (tmp_link l)) (sys_symlink fl (Absolute target) (tmp_link l))) (\<lambda>_.
         io_map_err (io_err (current_link l)) (sys_rename fl (tmp_link l) (current_link l))))
     (swap_result l target d0)"
    by (auto split: sum.split io_error.split)
qed

subsection \<open>A clean installation\<close>

text \<open>The base directory is real and there is no link at or below \<open>versions\<close>.\<close>

definition installed_ok :: "layout \<Rightarrow> disk \<Rightarrow> bool" where
  "installed_ok l d \<longleftrightarrow> base_dir l \<noteq> [] \<and> area_ok (versions_dir l) UNIV d"

lemma installed_real: "installed_ok l d \<Longrightarrow> real_dir d (base_dir l)"
  by (auto simp: installed_ok_def area_ok_def real_dir_def versions_dir_def strict_prefix_def)

lemma beside_versions:
  "\<not> prefix (versions_dir l) (current_link l)" "\<not> prefix (versions_dir l) (tmp_link l)" "\<not> prefix (versions_dir l) (base_dir l)"
  by (auto simp: versions_dir_def current_link_def tmp_link_def VERSIONS_DIR_def CURRENT_LINK_def dest: prefix_length_le)

lemma above_versions: "strict_prefix q (versions_dir l) \<longleftrightarrow> prefix q (base_dir l)"
  by (auto simp: versions_dir_def strict_prefix_def dest: prefix_length_le)

lemma installed_frame:
  assumes "installed_ok l d" and "\<And>q. prefix q (base_dir l) \<or> prefix (versions_dir l) q \<Longrightarrow> node_at d' q = node_at d q"
  shows "installed_ok l d'"
  using assms by (auto simp: installed_ok_def area_ok_def above_versions)

lemma swap_installed:
  assumes "installed_ok l d0" and "swap_result l target d0 r d"
  shows "installed_ok l d"
proof (rule installed_frame [OF assms(1)])
  fix q assume "prefix q (base_dir l) \<or> prefix (versions_dir l) q"
  then have "q \<noteq> current_link l" "q \<noteq> tmp_link l"
    using beside_versions [of l] not_prefix_base [of l] by auto
  then show "node_at d q = node_at d0 q" using assms(2) by (simp add: swap_result_def)
qed

lemma swapped_start: "real_dir d (base_dir l) \<Longrightarrow> swapped l d d"
  by (simp add: swapped_def)

lemma follow_in_base:
  assumes "real_dir d b" and "plain_name x" and "\<And>t. node_at d (b @ [x]) \<noteq> Some (Symlink t)"
  shows "follow_path d (b @ [x]) = Inr (b @ [x])"
proof -
  have plain: "list_all plain_name (b @ [x])" using assms by (simp add: real_dir_def)
  have "walk d MAX_LINKS True [] (b @ [x]) = Inr ([] @ b @ [x])"
    by (rule walk_through_dirs [OF plain]) (use assms in \<open>auto simp: real_dir_def strict_prefix_def\<close>)
  then show ?thesis by (simp add: follow_path_def)
qed

text \<open>
  C20: The link moves atomically. Whatever call of a promotion or reset fails, a crash included,
  \<open>current\<close> is afterwards the new link exactly when the call succeeded and untouched otherwise,
  and nothing else but the temporary link changes; a successful promotion is what the next start
  resolves.
\<close>

theorem current_moves_atomically:
  assumes "real_dir (os_disk s) (base_dir l)" and "swap_current_to fl l target s = (r, s')"
  shows "node_at (os_disk s') (current_link l) =
      (case r of Inr _ \<Rightarrow> Some (Symlink (Absolute target)) | Inl _ \<Rightarrow> node_at (os_disk s) (current_link l)) \<and>
    (\<forall>q. q \<noteq> current_link l \<longrightarrow> q \<noteq> tmp_link l \<longrightarrow> node_at (os_disk s') q = node_at (os_disk s) q) \<and>
    (r = Inr () \<and> (target = bootstrap_dir l \<or> prefix (versions_dir l) target) \<longrightarrow>
      resolve_active_dir l (os_disk s') = target)"
proof -
  have w: "swap_result l target (os_disk s) r (os_disk s')"
    using triple_use [OF swap_spec swapped_start [OF assms(1)] assms(2)] .
  have "resolve_active_dir l (os_disk s') = target"
    if "r = Inr ()" and t: "target = bootstrap_dir l \<or> prefix (versions_dir l) target"
  proof -
    have "real_dir (os_disk s') (base_dir l)"
      using assms(1) w not_prefix_base [of l] by (intro real_dir_frame [OF assms(1)]) (auto simp: swap_result_def)
    then have "locate (os_disk s') (current_link l) = Inr (current_link l)"
      unfolding current_link_def by (rule locate_in_base [OF _ link_names(1)])
    then show ?thesis
      using w that
      by (auto simp: resolve_active_dir_def read_link_def node_of_def swap_result_def resolve_target_def)
  qed
  then show ?thesis using w by (simp add: swap_result_def)
qed

definition sample_layout :: layout where
  "sample_layout = \<lparr>base_dir = [''var'']\<rparr>"

definition sample_disk :: disk where
  "sample_disk =
     [([''var''], Dir), ([''var'', ''bootstrap''], Dir), ([''var'', ''versions''], Dir),
      ([''var'', ''versions'', ''v1''], Dir), ([''var'', ''versions'', ''v1'', ''.healthy''], File []),
      ([''var'', ''versions'', ''v2''], Dir),
      ([''var'', ''current''], Symlink (Absolute [''var'', ''versions'', ''v2'']))]"

definition sample_os :: os where
  "sample_os = \<lparr>os_disk = sample_disk, os_calls = 0\<rparr>"

lemma sample_real: "real_dir (os_disk sample_os) (base_dir sample_layout)"
  by (auto simp: real_dir_def sample_os_def sample_disk_def sample_layout_def plain_name_def node_at_def prefix_Cons)

theorem current_moves_atomically_witness:
  "resolve_active_dir sample_layout
     (os_disk (snd (swap_current_to (\<lambda>_. None) sample_layout [''var'', ''bootstrap''] sample_os))) = [''var'', ''bootstrap'']"
proof -
  obtain r s' where run: "swap_current_to (\<lambda>_. None) sample_layout [''var'', ''bootstrap''] sample_os = (r, s')"
    by fastforce
  have "fst (swap_current_to (\<lambda>_. None) sample_layout [''var'', ''bootstrap''] sample_os) = Inr ()" by code_simp
  then have "r = Inr () \<and> ([''var'', ''bootstrap''] = bootstrap_dir sample_layout \<or>
      prefix (versions_dir sample_layout) [''var'', ''bootstrap''])"
    using run by (simp add: bootstrap_dir_def BOOTSTRAP_DIR_def sample_layout_def)
  then show ?thesis
    using mp [OF conjunct2 [OF conjunct2 [OF current_moves_atomically [OF sample_real run]]]] run by simp
qed

end
