(* ===== verification/Rollback.thy ===== *)
theory Rollback
  imports Layout
begin

text \<open>
  Rolling back: what \<open>rollback\<close> of \<open>crates/updater/src/lib.rs\<close> leaves behind on every outcome,
  and which release \<open>rollback_target\<close> picks.
\<close>

subsection \<open>The ban list file\<close>

definition bans_on_disk :: "(string \<Rightarrow> nat list option) \<Rightarrow> path \<Rightarrow> disk \<Rightarrow> nat set option" where
  "bans_on_disk from_json p d =
     (case node_at d p of
        None \<Rightarrow> Some {}
      | Some (File t) \<Rightarrow> map_option set (from_json t)
      | Some _ \<Rightarrow> None)"

text \<open>A plain name beside \<open>current\<close> whose entry is not a link.\<close>

definition beside_current :: "layout \<Rightarrow> path \<Rightarrow> disk \<Rightarrow> bool" where
  "beside_current l p d \<longleftrightarrow> (\<exists>x. p = base_dir l @ [x] \<and> plain_name x) \<and> p \<noteq> current_link l \<and> p \<noteq> tmp_link l
     \<and> p \<noteq> versions_dir l \<and> (\<forall>t. node_at d p \<noteq> Some (Symlink t))"

lemma beside_follow: "installed_ok l d \<Longrightarrow> beside_current l p d \<Longrightarrow> follow_path d p = Inr p"
  by (auto simp: beside_current_def intro!: follow_in_base dest: installed_real)

lemma beside_not_versions: "beside_current l p d \<Longrightarrow> \<not> prefix (versions_dir l) p \<and> \<not> prefix p (base_dir l) \<and> p \<noteq> []"
  by (auto simp: beside_current_def versions_dir_def dest: prefix_length_le)

lemma sys_read_beside:
  "triple (\<lambda>d. installed_ok l d \<and> beside_current l p d \<and> P d) (sys_read fl p)
     (\<lambda>r d. installed_ok l d \<and> beside_current l p d \<and> P d \<and>
       (case r of Inr t \<Rightarrow> node_at d p = Some (File t) | Inl NotFound \<Rightarrow> node_at d p = None | Inl _ \<Rightarrow> True))"
  unfolding sys_read_def
  by (rule triple_call)
    (auto simp: d_read_def node_of_def beside_follow unharmed_def split: option.splits node.splits)

lemma load_bans_spec:
  "triple (\<lambda>d. installed_ok l d \<and> beside_current l p d \<and> P d) (load_bans fl from_json p)
     (\<lambda>r d. installed_ok l d \<and> beside_current l p d \<and> P d \<and>
       (\<forall>b. r = Inr b \<longrightarrow> bans_on_disk from_json p d = Some (set b)))"
  unfolding load_bans_def
  by (rule triple_try [OF sys_read_beside], rule triple_of)
    (auto simp: bans_load_def bans_on_disk_def split: sum.splits io_error.splits option.splits)

lemma set_ban: "set (ban v b) = insert v (set b)"
  by (simp add: ban_def set_insort_insert)

text \<open>A write to the ban list, complete or not, leaves everything else alone.\<close>

definition only_bans :: "layout \<Rightarrow> path \<Rightarrow> disk \<Rightarrow> disk \<Rightarrow> bool" where
  "only_bans l p d0 d \<longleftrightarrow> installed_ok l d \<and> (\<forall>q. q \<noteq> p \<longrightarrow> node_at d q = node_at d0 q)"

lemma d_write_beside:
  assumes "installed_ok l d" and "beside_current l p d"
  shows "only_bans l p d (fst (d_write p t d)) \<and> (snd (d_write p t d) = Inr () \<longrightarrow> node_at (fst (d_write p t d)) p = Some (File t))"
proof -
  have look: "node_at (put p (File t) d) q = (if q = p then Some (File t) else node_at d q)" for q
    using beside_not_versions [OF assms(2)] by (simp add: node_at_put)
  have "installed_ok l (put p (File t) d)"
    by (rule installed_frame [OF assms(1)]) (use beside_not_versions [OF assms(2)] in \<open>auto simp: look\<close>)
  then show ?thesis
    using assms by (auto simp: d_write_def beside_follow only_bans_def look split: option.split node.split)
qed

lemma save_bans_spec:
  "triple (\<lambda>d. installed_ok l d \<and> beside_current l p d \<and> P d) (save_bans fl to_json p b)
     (\<lambda>r d. (\<exists>d1. P d1 \<and> only_bans l p d1 d) \<and> (r = Inr () \<longrightarrow> node_at d p = Some (File (to_json b))))"
  unfolding save_bans_def sys_write_def
proof (rule triple_map_err [OF triple_call])
  fix d f assume d: "installed_ok l d \<and> beside_current l p d \<and> P d"
  show "(\<exists>d1. P d1 \<and> only_bans l p d1 (fst (d_write p (to_json b) d))) \<and>
      (snd (d_write p (to_json b) d) = Inr () \<longrightarrow> node_at (fst (d_write p (to_json b) d)) p = Some (File (to_json b)))"
    using d_write_beside d by blast
  show "(\<exists>d1. P d1 \<and> only_bans l p d1 (partly_written p (to_json b) f d)) \<and>
      ((Inl OtherKind :: io_error + unit) = Inr () \<longrightarrow> node_at (partly_written p (to_json b) f d) p = Some (File (to_json b)))"
    using d_write_beside d by (auto simp: partly_written_def only_bans_def split: option.split)
qed auto

subsection \<open>Pruning\<close>

lemma version_in_area: "installed_ok l d \<Longrightarrow> in_area (versions_dir l) UNIV (version_dir l v)"
  by (auto simp: in_area_def version_dir_def installed_ok_def area_ok_def plain_name_def)

lemma prune_keeps:
  assumes "in_area (versions_dir l) UNIV (version_dir l v)"
  shows "keeps (versions_dir l) UNIV (prune fl l v)"
  unfolding prune_def Let_def
  by (rule keeps_try [OF keeps_sys_remove_dir_all [OF assms]])
    (auto intro!: area_rules split: sum.split io_error.split)

subsection \<open>The whole roll back\<close>

definition rollback_dir :: "layout \<Rightarrow> nat option \<Rightarrow> path" where
  "rollback_dir l previous = (case previous of Some v \<Rightarrow> version_dir l v | None \<Rightarrow> bootstrap_dir l)"

definition moved :: "layout \<Rightarrow> path \<Rightarrow> path \<Rightarrow> disk \<Rightarrow> disk \<Rightarrow> bool" where
  "moved l p target d0 d \<longleftrightarrow> node_at d (current_link l) = Some (Symlink (Absolute target))
     \<and> (\<forall>q. \<not> prefix (versions_dir l) q \<longrightarrow> q \<noteq> current_link l \<longrightarrow> q \<noteq> tmp_link l \<longrightarrow> q \<noteq> p \<longrightarrow> node_at d q = node_at d0 q)"

definition rolled_back ::
    "(string \<Rightarrow> nat list option) \<Rightarrow> layout \<Rightarrow> path \<Rightarrow> path \<Rightarrow> nat \<Rightarrow> disk \<Rightarrow> updater_error + unit \<Rightarrow> disk \<Rightarrow> bool" where
  "rolled_back from_json l p target failed d0 r d \<longleftrightarrow>
     installed_ok l d \<and>
     (r = Inr () \<longrightarrow> moved l p target d0 d \<and>
        (\<exists>old. bans_on_disk from_json p d0 = Some old \<and> bans_on_disk from_json p d = Some (insert failed old))) \<and>
     (r \<noteq> Inr () \<longrightarrow> moved l p target d0 d \<or> (\<forall>q. q \<noteq> tmp_link l \<longrightarrow> node_at d q = node_at d0 q))"

lemma only_bans_moved:
  assumes "only_bans l p d1 d" and "moved l p target d0 d1" and "p \<noteq> current_link l"
  shows "installed_ok l d \<and> moved l p target d0 d"
  using assms by (auto simp: only_bans_def moved_def)

lemma prune_moved:
  assumes "in_area (versions_dir l) UNIV (version_dir l v)" and "\<not> prefix (versions_dir l) p"
  shows "triple (\<lambda>d. installed_ok l d \<and> moved l p target d0 d \<and> node_at d p = n) (prune fl l v)
    (\<lambda>_ d. installed_ok l d \<and> moved l p target d0 d \<and> node_at d p = n)"
  unfolding triple_def
proof (intro allI impI)
  fix s :: os assume s: "installed_ok l (os_disk s) \<and> moved l p target d0 (os_disk s) \<and> node_at (os_disk s) p = n"
  then have "area_step (versions_dir l) UNIV (os_disk s) (os_disk (snd (prune fl l v s)))"
    using prune_keeps [OF assms(1), of fl] by (simp add: keeps_def installed_ok_def)
  then show "installed_ok l (os_disk (snd (prune fl l v s))) \<and> moved l p target d0 (os_disk (snd (prune fl l v s))) \<and>
      node_at (os_disk (snd (prune fl l v s))) p = n"
    using s assms(2) beside_versions(1) [of l] by (simp add: installed_ok_def moved_def area_step_def)
qed

lemma rollback_spec:
  assumes "installed_ok l d0" and "beside_current l p d0" and "\<forall>b. from_json (to_json b) = Some b"
  shows "triple (\<lambda>d. d = d0) (rollback fl from_json to_json l p previous failed)
    (rolled_back from_json l p (rollback_dir l previous) failed d0)"
proof -
  let ?t = "rollback_dir l previous"
  let ?post = "rolled_back from_json l p ?t failed d0"
  let ?St = "\<lambda>d. moved l p ?t d0 d \<and> node_at d p = node_at d0 p"
  have p: "p \<noteq> current_link l" "p \<noteq> tmp_link l" "\<not> prefix (versions_dir l) p"
    using assms(2) beside_not_versions by (auto simp: beside_current_def)
  have step: "(case previous of Some v \<Rightarrow> promote fl l v | None \<Rightarrow> reset_to_bootstrap fl l) = swap_current_to fl l ?t"
    by (simp add: promote_def reset_to_bootstrap_def rollback_dir_def split: option.split)
  have swap: "triple (\<lambda>d. d = d0) (case previous of Some v \<Rightarrow> promote fl l v | None \<Rightarrow> reset_to_bootstrap fl l)
      (swap_result l ?t d0)"
    unfolding step by (rule triple_conseq [OF swap_spec]) (use swapped_start [OF installed_real [OF assms(1)]] in simp_all)
  have after: "installed_ok l d \<and> beside_current l p d \<and> ?St d" if "swap_result l ?t d0 (Inr u) d" for u :: unit and d
    using swap_installed [OF assms(1) that] that p assms(2) by (auto simp: swap_result_def moved_def beside_current_def)
  have area: "in_area (versions_dir l) UNIV (version_dir l failed)" by (rule version_in_area [OF assms(1)])
  have last: "triple (\<lambda>d. installed_ok l d \<and> moved l p ?t d0 d \<and> node_at d p = Some (File (to_json (ban failed b))))
      (io_try (prune fl l failed) (\<lambda>_. io_return ())) ?post" if "bans_on_disk from_json p d0 = Some (set b)" for b
    by (rule triple_try, rule prune_moved [OF area p(3)], rule triple_return)
      (use that assms(3) in \<open>simp add: rolled_back_def bans_on_disk_def set_ban\<close>)
  have save: "triple (\<lambda>d. installed_ok l d \<and> beside_current l p d \<and> ?St d)
      (io_bind (save_bans fl to_json p (ban failed b)) (\<lambda>_. io_try (prune fl l failed) (\<lambda>_. io_return ()))) ?post"
    if "bans_on_disk from_json p d0 = Some (set b)" for b
    by (rule triple_bind [OF save_bans_spec], rule triple_conseq [OF last [OF that]])
      (use only_bans_moved p(1) in \<open>auto simp: rolled_back_def\<close>)
  have load: "triple (\<lambda>d. installed_ok l d \<and> beside_current l p d \<and> ?St d)
      (io_bind (load_bans fl from_json p) (\<lambda>banned. io_bind (save_bans fl to_json p (ban failed banned))
        (\<lambda>_. io_try (prune fl l failed) (\<lambda>_. io_return ())))) ?post"
  proof (rule triple_bind [OF load_bans_spec])
    fix b
    show "triple (\<lambda>d. installed_ok l d \<and> beside_current l p d \<and> ?St d \<and>
        (\<forall>b'. Inr b = Inr b' \<longrightarrow> bans_on_disk from_json p d = Some (set b')))
      (io_bind (save_bans fl to_json p (ban failed b)) (\<lambda>_. io_try (prune fl l failed) (\<lambda>_. io_return ()))) ?post"
    proof (cases "bans_on_disk from_json p d0 = Some (set b)")
      case True
      show ?thesis by (rule triple_conseq [OF save [OF True]]) auto
    next
      case False
      then show ?thesis by (auto simp: triple_def bans_on_disk_def)
    qed
  qed (auto simp: rolled_back_def)
  have failed_swap: "?post (Inl e) d" if "swap_result l ?t d0 (Inl e) d" for e :: updater_error and d
  proof -
    have "node_at d q = node_at d0 q" if "q \<noteq> tmp_link l" for q
      using \<open>swap_result l ?t d0 (Inl e) d\<close> that by (cases "q = current_link l") (simp_all add: swap_result_def)
    then show ?thesis using swap_installed [OF assms(1) that] by (simp add: rolled_back_def)
  qed
  show ?thesis
    unfolding rollback_def by (rule triple_bind [OF swap], rule triple_conseq [OF load]) (use after failed_swap in auto)
qed

text \<open>
  C18: A roll back moves first and bans second. When it succeeds, \<open>current\<close> points at the release
  to return to (\<open>bootstrap\<close> when there is none), the failed release is on the ban list and every
  earlier ban is kept. When it fails, \<open>current\<close> has either moved all the same or nothing but the
  temporary link has changed. Beside \<open>current\<close>, its temporary link, the ban list and
  \<open>versions\<close> nothing changes.
\<close>

theorem rollback_moves_then_bans:
  assumes "installed_ok l (os_disk s)" and "beside_current l p (os_disk s)" and "\<forall>b. from_json (to_json b) = Some b"
    and "rollback fl from_json to_json l p previous failed s = (r, s')"
  shows "(r = Inr () \<longrightarrow> moved l p (rollback_dir l previous) (os_disk s) (os_disk s') \<and>
      (\<exists>old. bans_on_disk from_json p (os_disk s) = Some old \<and>
        bans_on_disk from_json p (os_disk s') = Some (insert failed old))) \<and>
    (r \<noteq> Inr () \<longrightarrow> moved l p (rollback_dir l previous) (os_disk s) (os_disk s') \<or>
      (\<forall>q. q \<noteq> tmp_link l \<longrightarrow> node_at (os_disk s') q = node_at (os_disk s) q))"
  using triple_use [OF rollback_spec [OF assms(1-3)] refl assms(4)] by (simp add: rolled_back_def)

subsection \<open>The release to return to\<close>

lemma find_rev_sorted:
  assumes "sorted xs"
  shows "find P (rev xs) = Some x \<longleftrightarrow> x \<in> set xs \<and> P x \<and> (\<forall>y \<in> set xs. P y \<longrightarrow> y \<le> x)"
  using assms
proof (induction xs rule: rev_induct)
  case (snoc y ys)
  then show ?case by (cases "P y") (auto simp: sorted_append)
qed simp

text \<open>The names in \<open>versions\<close> that are release directories, as numbers.\<close>

definition releases_on_disk :: "layout \<Rightarrow> disk \<Rightarrow> nat set" where
  "releases_on_disk l d =
     {v. \<exists>name. node_at d (versions_dir l @ [name]) = Some Dir \<and> parse_version name = Some v \<and> plain_name name}"

definition good_target :: "layout \<Rightarrow> nat \<Rightarrow> banned_versions \<Rightarrow> disk \<Rightarrow> nat \<Rightarrow> bool" where
  "good_target l v banned d w \<longleftrightarrow> w \<in> releases_on_disk l d \<and> w < v \<and> \<not> is_banned banned w \<and> healthy_at l w d"

lemma read_dir_versions:
  assumes "installed_ok l d" and "node_at d (versions_dir l) = Some Dir"
  obtains names where "d_read_dir (versions_dir l) d = (d, Inr names)"
    "\<And>name. name \<in> set names \<longleftrightarrow> node_at d (versions_dir l @ [name]) \<noteq> None"
proof -
  let ?V = "versions_dir l"
  have "walk d MAX_LINKS True [] ?V = Inr ([] @ ?V)"
    by (rule walk_through_dirs) (use assms in \<open>auto simp: installed_ok_def area_ok_def\<close>)
  then have "d_read_dir ?V d = (d, Inr (remdups (map last (filter (\<lambda>r. r \<noteq> [] \<and> butlast r = ?V) (map fst d)))))"
    by (simp add: d_read_dir_def follow_path_def assms(2))
  moreover have "name \<in> set (remdups (map last (filter (\<lambda>r. r \<noteq> [] \<and> butlast r = ?V) (map fst d)))) \<longleftrightarrow>
      node_at d (?V @ [name]) \<noteq> None" for name
  proof -
    have "name \<in> set (remdups (map last (filter (\<lambda>r. r \<noteq> [] \<and> butlast r = ?V) (map fst d)))) \<longleftrightarrow>
        (\<exists>r \<in> fst ` set d. r \<noteq> [] \<and> butlast r = ?V \<and> last r = name)"
      by auto
    also have "\<dots> \<longleftrightarrow> ?V @ [name] \<in> fst ` set d"
      by (metis append_butlast_last_id butlast_snoc last_snoc snoc_eq_iff_butlast)
    also have "\<dots> \<longleftrightarrow> node_at d (?V @ [name]) \<noteq> None"
      by (simp add: node_at_def map_of_eq_None_iff)
    finally show ?thesis .
  qed
  ultimately show ?thesis using that by blast
qed

lemma dir_exists_in_versions:
  assumes "installed_ok l d" and "node_at d (versions_dir l) = Some Dir" and "plain_name name"
  shows "dir_exists d (versions_dir l @ [name]) \<longleftrightarrow> node_at d (versions_dir l @ [name]) = Some Dir"
proof -
  let ?p = "versions_dir l @ [name]"
  have "walk d MAX_LINKS True [] ?p = Inr ([] @ ?p)"
  proof (rule walk_through_dirs)
    show "list_all plain_name ?p" using assms by (simp add: installed_ok_def area_ok_def)
    show "node_at d q = Some Dir" if "strict_prefix q ([] @ ?p)" for q
      using that assms(1,2) by (cases "q = versions_dir l") (auto simp: installed_ok_def area_ok_def strict_prefix_def)
    show "node_at d ([] @ ?p) \<noteq> Some (Symlink t)" for t
      using assms(1) by (auto simp: installed_ok_def area_ok_def)
  qed
  then show ?thesis by (simp add: dir_exists_def follow_path_def node_of_def)
qed

lemma parse_version_plain: "parse_version name = Some v \<Longrightarrow> plain_name name"
  by (cases name) (auto simp: parse_version_def plain_name_def split: if_splits)

lemma parse_version_show: "v \<le> u64_max \<Longrightarrow> parse_version (''v'' @ show_nat v) = Some v"
  by (simp add: parse_version_def parse_show_nat)

lemma installed_of_set:
  assumes "installed_ok l d" and "node_at d (versions_dir l) = Some Dir"
    and "\<And>name. name \<in> set names \<longleftrightarrow> node_at d (versions_dir l @ [name]) \<noteq> None"
  shows "set (installed_of l d names) = releases_on_disk l d"
proof (rule set_eqI)
  fix v
  have "v \<in> set (installed_of l d names) \<longleftrightarrow>
      (\<exists>name \<in> set names. dir_exists d (versions_dir l @ [name]) \<and> parse_version name = Some v)"
    by (force simp: installed_of_def List.map_filter_def)
  also have "\<dots> \<longleftrightarrow> (\<exists>name. node_at d (versions_dir l @ [name]) = Some Dir \<and> parse_version name = Some v \<and> plain_name name)"
    unfolding Bex_def assms(3)
    by (rule ex_cong1) (use dir_exists_in_versions [OF assms(1,2)] parse_version_plain in \<open>metis option.distinct(1)\<close>)
  finally show "v \<in> set (installed_of l d names) \<longleftrightarrow> v \<in> releases_on_disk l d"
    by (simp add: releases_on_disk_def)
qed

text \<open>
  The roll back target is the newest known-good release: installed, strictly older than the
  failed one, past its own health check and not banned; there is none, and \<open>bootstrap\<close> it is,
  exactly when no release qualifies. A listing that fails also means \<open>bootstrap\<close>.
\<close>

theorem rollback_target_is_newest_good:
  assumes "installed_ok l (os_disk s)" and "node_at (os_disk s) (versions_dir l) = Some Dir"
    and "rollback_target fl l v banned s = (r, s')"
  shows "\<exists>t. r = Inr t \<and> os_disk s' = os_disk s \<and>
    (if fl (os_calls s) \<noteq> None then t = None
     else (\<forall>w. t = Some w \<longleftrightarrow> good_target l v banned (os_disk s) w \<and>
             (\<forall>u. good_target l v banned (os_disk s) u \<longrightarrow> u \<le> w)))"
proof -
  let ?d = "os_disk s"
  obtain names where names: "d_read_dir (versions_dir l) ?d = (?d, Inr names)"
      "\<And>name. name \<in> set names \<longleftrightarrow> node_at ?d (versions_dir l @ [name]) \<noteq> None"
    using read_dir_versions [OF assms(1,2)] by blast
  have set: "set (installed_of l ?d names) = releases_on_disk l ?d" by (rule installed_of_set [OF assms(1,2) names(2)])
  have sorted: "sorted (installed_of l ?d names)" by (simp add: installed_of_def)
  have "pick_target l v banned (installed_of l ?d names) ?d = Some w \<longleftrightarrow> good_target l v banned ?d w \<and>
      (\<forall>u. good_target l v banned ?d u \<longrightarrow> u \<le> w)" for w
    unfolding pick_target_def find_rev_sorted [OF sorted] set good_target_def by blast
  moreover have "pick_target l v banned [] ?d = None" by (simp add: pick_target_def)
  ultimately show ?thesis
    using assms(3) names(1)
    by (auto simp: rollback_target_def installed_versions_def io_bind_def io_try_def io_query_def io_return_def io_fail_def
        sys_read_dir_def os_call_def unharmed_def Let_def split: option.splits)
qed

subsection \<open>A sample installation\<close>

definition sample_to_json :: "nat list \<Rightarrow> string" where
  "sample_to_json b = enc_lines (map (\<lambda>n. replicate n (CHR ''1'')) b)"

definition sample_from_json :: "string \<Rightarrow> nat list option" where
  "sample_from_json t = Some (map length (butlast (split_on nl t)))"

lemma sample_json: "\<forall>b. sample_from_json (sample_to_json b) = Some b"
proof
  fix b
  have "split_on nl (sample_to_json b @ []) = map (\<lambda>n. replicate n (CHR ''1'')) b @ [[]]"
    unfolding sample_to_json_def by (subst split_on_enc_lines) auto
  then show "sample_from_json (sample_to_json b) = Some b" by (simp add: sample_from_json_def comp_def)
qed

lemma sample_installed: "installed_ok sample_layout (os_disk sample_os)"
proof -
  have "q = [] \<or> q = [''var'']" if "strict_prefix q [''var'', ''versions'']" for q
    using that by (auto simp: strict_prefix_def prefix_Cons)
  then show ?thesis
    by (auto simp: installed_ok_def area_ok_def sample_layout_def sample_os_def sample_disk_def versions_dir_def
        VERSIONS_DIR_def plain_name_def node_at_def)
qed

abbreviation sample_bans :: path where
  "sample_bans \<equiv> [''var'', ''banned_versions.json'']"

lemma sample_beside: "beside_current sample_layout sample_bans (os_disk sample_os)"
  by (simp add: beside_current_def sample_layout_def sample_os_def sample_disk_def current_link_def tmp_link_def
      versions_dir_def VERSIONS_DIR_def CURRENT_LINK_def plain_name_def node_at_def)

theorem rollback_moves_then_bans_witness:
  "bans_on_disk sample_from_json sample_bans
     (os_disk (snd (rollback (\<lambda>_. None) sample_from_json sample_to_json sample_layout sample_bans (Some 1) 2 sample_os))) = Some {2}"
proof -
  obtain r s' where run: "rollback (\<lambda>_. None) sample_from_json sample_to_json sample_layout sample_bans (Some 1) 2 sample_os = (r, s')"
    by fastforce
  have "fst (rollback (\<lambda>_. None) sample_from_json sample_to_json sample_layout sample_bans (Some 1) 2 sample_os) = Inr ()"
    by code_simp
  then have ok: "r = Inr ()" using run by simp
  have empty: "bans_on_disk sample_from_json sample_bans (os_disk sample_os) = Some {}"
    by (simp add: bans_on_disk_def sample_os_def sample_disk_def node_at_def)
  have "\<exists>old. bans_on_disk sample_from_json sample_bans (os_disk sample_os) = Some old \<and>
      bans_on_disk sample_from_json sample_bans (os_disk s') = Some (insert 2 old)"
    using conjunct1 [OF rollback_moves_then_bans [OF sample_installed sample_beside sample_json run]] ok by simp
  then show ?thesis using empty run by simp
qed

theorem rollback_target_is_newest_good_witness:
  "good_target sample_layout 2 [] (os_disk sample_os) 1 \<and>
   fst (rollback_target (\<lambda>_. None) sample_layout 2 [] sample_os) = (Inr (Some 1) :: updater_error + nat option)"
proof -
  obtain r :: "updater_error + nat option" and s' where run: "rollback_target (\<lambda>_. None) sample_layout 2 [] sample_os = (r, s')"
    by fastforce
  have dir: "node_at (os_disk sample_os) (versions_dir sample_layout) = Some Dir" by code_simp
  have "show_nat 1 = ''1''" by code_simp
  then have "parse_version ''v1'' = Some 1" using parse_version_show [of 1] by (simp add: u64_max_def)
  moreover have "node_at (os_disk sample_os) (versions_dir sample_layout @ [''v1'']) = Some Dir" by code_simp
  ultimately have "1 \<in> releases_on_disk sample_layout (os_disk sample_os)"
    using parse_version_plain by (auto simp: releases_on_disk_def)
  moreover have "healthy_at sample_layout 1 (os_disk sample_os)" by code_simp
  ultimately have good: "good_target sample_layout 2 [] (os_disk sample_os) 1" by (simp add: good_target_def is_banned_def)
  have newest: "\<forall>u. good_target sample_layout 2 [] (os_disk sample_os) u \<longrightarrow> u \<le> 1" by (simp add: good_target_def)
  obtain t where t: "r = Inr t" and iff: "\<forall>w. t = Some w \<longleftrightarrow> good_target sample_layout 2 [] (os_disk sample_os) w \<and>
      (\<forall>u. good_target sample_layout 2 [] (os_disk sample_os) u \<longrightarrow> u \<le> w)"
    by (rule exE [OF rollback_target_is_newest_good [OF sample_installed dir run]]) (elim conjE, simp only: if_False not_True_eq_False simp_thms)
  have "t = Some 1" using spec [OF iff, of 1] good newest by blast
  then have "r = Inr (Some 1)" using t by simp
  then show ?thesis using good run by simp
qed

end
