(* ===== verification/Release.thy ===== *)
theory Release
  imports Rollback "HOL-Library.Code_Target_Nat"
begin

text \<open>
  The self-update command of \<open>agent/src/release.rs\<close> (\<open>apply-release\<close>): fetch the signed manifest,
  verify it, stage the artifacts, re-verify them from disk, promote. The two HTTP requests are
  arguments (their answers), as are the SELinux files of the host and the exit of
  \<open>restorecon\<close>. \<open>Release_Panic\<close> is the panic of the hexadecimal decoder.
\<close>

definition MAX_RELEASE_ARTIFACT_BYTES :: nat where
  "MAX_RELEASE_ARTIFACT_BYTES = 256 * 1024 * 1024"

definition BAN_LIST :: string where
  "BAN_LIST = ''banned_versions.json''"

datatype relabel = NotApplicable | Done | SkippedPermissive string

datatype command_status = Exit_Success | Exit_Status string | Spawn_Failed string

record selinux_probe =
  enforce_text :: "string option"
  restorecon_present :: bool
  restorecon_run :: command_status

datatype 'h release_error =
    Not_Packaged
  | Http 'h
  | Updater_Err updater_error
  | Fs io_error
  | Selinux string
  | Test_Key
  | Release_Panic

definition relabel_failed :: "bool \<Rightarrow> string \<Rightarrow> 'h release_error + relabel" where
  "relabel_failed enforcing why = (if enforcing then Inl (Selinux why) else Inr (SkippedPermissive why))"

definition restore_selinux_labels :: "selinux_probe \<Rightarrow> 'h release_error + relabel" where
  "restore_selinux_labels probe =
     (case enforce_text probe of
        None \<Rightarrow> Inr NotApplicable
      | Some enforce \<Rightarrow>
          (let enforcing = (trim enforce = ''1'')
           in if \<not> restorecon_present probe
              then relabel_failed enforcing ''restorecon not found (is policycoreutils installed?)''
              else (case restorecon_run probe of
                      Exit_Success \<Rightarrow> Inr Done
                    | Exit_Status status \<Rightarrow> relabel_failed enforcing (''restorecon exited with '' @ status)
                    | Spawn_Failed e \<Rightarrow> relabel_failed enforcing (''could not run restorecon: '' @ e))))"

definition ensure_key_trusted :: "bool \<Rightarrow> bool \<Rightarrow> 'h release_error + unit" where
  "ensure_key_trusted test_key allow_test_key =
     (if \<not> test_key then Inr () else if \<not> allow_test_key then Inl Test_Key else Inr ())"

datatype outcome = UpToDate nat nat | Promoted nat nat relabel

text \<open>What the server answers: the manifest, and the bytes of an entry of a release.\<close>

record 'h release_server =
  get_manifest :: "'h + release_manifest"
  get_artifact :: "nat \<Rightarrow> string \<Rightarrow> string \<Rightarrow> nat \<Rightarrow> 'h + string"

definition ban_list_path :: "layout \<Rightarrow> path" where
  "ban_list_path l = base_dir l @ [BAN_LIST]"

subsection \<open>Staging\<close>

definition remove_leftover :: "faults \<Rightarrow> path \<Rightarrow> (io_error, unit) io" where
  "remove_leftover fl stage_dir =
     io_bind (io_query (\<lambda>d. (locate d stage_dir, node_of d (locate d stage_dir)))) (\<lambda>(place, node).
       case node of
         Some (Symlink _) \<Rightarrow> sys_remove_file fl stage_dir
       | Some (File _) \<Rightarrow> sys_remove_file fl stage_dir
       | Some Dir \<Rightarrow> sys_remove_dir_all fl stage_dir
       | None \<Rightarrow> (case place of
                    Inl OtherKind \<Rightarrow> io_fail OtherKind
                  | Inl AlreadyExists \<Rightarrow> io_fail AlreadyExists
                  | _ \<Rightarrow> io_return ()))"

fun fetch_entries ::
    "faults \<Rightarrow> (string \<Rightarrow> string) \<Rightarrow> (string \<Rightarrow> string) \<Rightarrow> 'h release_server \<Rightarrow> layout \<Rightarrow> nat \<Rightarrow> path \<Rightarrow> (string \<times> string) list
     \<Rightarrow> ('h release_error, unit) io" where
  "fetch_entries fl sha256 sfx server l version stage_dir [] = io_return ()"
| "fetch_entries fl sha256 sfx server l version stage_dir ((path, expected) # es) =
     (case get_artifact server version path expected MAX_RELEASE_ARTIFACT_BYTES of
        Inl e \<Rightarrow> io_fail (Http e)
      | Inr bytes \<Rightarrow>
          if sha256 bytes \<noteq> expected then io_fail (Updater_Err (StagedFileMismatch path expected (sha256 bytes)))
          else io_bind
            (io_map_err Fs (write_executable_atomically fl (sfx path) (versions_dir l) (stage_dir @ components path) bytes))
            (\<lambda>_. fetch_entries fl sha256 sfx server l version stage_dir es))"

definition fetch_into ::
    "faults \<Rightarrow> (string \<Rightarrow> string) \<Rightarrow> (string \<Rightarrow> string) \<Rightarrow> 'h release_server \<Rightarrow> layout \<Rightarrow> release_manifest \<Rightarrow> path
     \<Rightarrow> ('h release_error, unit) io" where
  "fetch_into fl sha256 sfx server l m stage_dir =
     fetch_entries fl sha256 sfx server l (rm_release_version m) stage_dir (rm_entries m)"

definition stage_path :: "layout \<Rightarrow> nat \<Rightarrow> path" where
  "stage_path l v = versions_dir l @ [''.stage-'' @ show_nat v]"

definition stage ::
    "faults \<Rightarrow> (string \<Rightarrow> string) \<Rightarrow> (string \<Rightarrow> string) \<Rightarrow> 'h release_server \<Rightarrow> layout \<Rightarrow> release_manifest \<Rightarrow> ('h release_error, unit) io" where
  "stage fl sha256 sfx server l m =
     (let stage_dir = stage_path l (rm_release_version m)
      in io_bind (io_map_err Fs (remove_leftover fl stage_dir)) (\<lambda>_.
         io_try (io_bind (fetch_into fl sha256 sfx server l m stage_dir) (\<lambda>_.
             io_map_err Fs (sys_rename fl stage_dir (version_dir l (rm_release_version m)))))
           (\<lambda>staged. case staged of
              Inr _ \<Rightarrow> io_return ()
            | Inl e \<Rightarrow> io_try (sys_remove_dir_all fl stage_dir) (\<lambda>_. io_fail e))))"

subsection \<open>Applying a release\<close>

text \<open>An error after the artifacts were downloaded in this run removes the release directory.\<close>

definition discard_download :: "faults \<Rightarrow> path \<Rightarrow> nat \<Rightarrow> 'h release_error \<Rightarrow> ('h release_error, 'a) io" where
  "discard_download fl release_dir downloaded e =
     (if 0 < downloaded then io_try (sys_remove_dir_all fl release_dir) (\<lambda>_. io_fail e) else io_fail e)"

definition install_release ::
    "faults \<Rightarrow> (string \<Rightarrow> string) \<Rightarrow> (string \<Rightarrow> string) \<Rightarrow> (release_manifest \<Rightarrow> string) \<Rightarrow> 'h release_server \<Rightarrow> selinux_probe \<Rightarrow> layout
     \<Rightarrow> release_manifest \<Rightarrow> ('h release_error, outcome) io" where
  "install_release fl sha256 sfx pretty server selinux l m =
     (let v = rm_release_version m; release_dir = version_dir l v
      in io_bind (io_query (\<lambda>d. dir_exists d release_dir)) (\<lambda>present.
         io_bind (if present then io_return 0
                  else io_bind (stage fl sha256 sfx server l m) (\<lambda>_. io_return (length (rm_entries m)))) (\<lambda>downloaded.
         io_try (verify_staged fl sha256 l m) (\<lambda>verified. case verified of
           Inl e \<Rightarrow> discard_download fl release_dir downloaded (Updater_Err e)
         | Inr _ \<Rightarrow>
             (case restore_selinux_labels selinux of
                Inl e \<Rightarrow> discard_download fl release_dir downloaded e
              | Inr label \<Rightarrow>
                  io_bind (io_map_err Updater_Err (persist_manifest fl pretty l m)) (\<lambda>_.
                  io_bind (io_map_err Updater_Err (promote fl l v)) (\<lambda>_.
                  io_return (Promoted v downloaded label))))))))"

definition apply_release_with ::
    "faults \<Rightarrow> (string \<Rightarrow> string) \<Rightarrow> (string \<Rightarrow> string) \<Rightarrow> (release_manifest \<Rightarrow> string) \<Rightarrow> (string \<Rightarrow> string \<Rightarrow> bool)
     \<Rightarrow> (string \<Rightarrow> nat list option) \<Rightarrow> 'h release_server \<Rightarrow> selinux_probe \<Rightarrow> layout \<Rightarrow> ('h release_error, outcome) io" where
  "apply_release_with fl sha256 sfx pretty ed25519_verify bans_json server selinux l =
     io_bind (io_query (\<lambda>d. dir_exists d (bootstrap_dir l))) (\<lambda>packaged.
     if \<not> packaged then io_fail Not_Packaged
     else
       io_bind (io_map_err Fs (sys_create_dir_all fl (versions_dir l))) (\<lambda>_.
       case get_manifest server of
         Inl e \<Rightarrow> io_fail (Http e)
       | Inr m \<Rightarrow>
           (case rm_verify_signature pretty ed25519_verify m of
              None \<Rightarrow> io_fail Release_Panic
            | Some (Inl e) \<Rightarrow> io_fail (Updater_Err e)
            | Some (Inr _) \<Rightarrow>
                io_bind (io_map_err Updater_Err (io_of (rm_validate_entry_paths m))) (\<lambda>_.
                io_bind (io_map_err Updater_Err (load_bans fl bans_json (ban_list_path l))) (\<lambda>banned.
                io_bind (io_map_err Updater_Err (io_of (bans_check banned (rm_release_version m)))) (\<lambda>_.
                io_bind (io_query (current_release_version l)) (\<lambda>current.
                case check_release_version (rm_release_version m) current of
                  Inr _ \<Rightarrow> install_release fl sha256 sfx pretty server selinux l m
                | Inl (ReleaseNotNewer offered c) \<Rightarrow> io_return (UpToDate offered c)
                | Inl e \<Rightarrow> io_fail (Updater_Err e))))))))"

subsection \<open>Everything before the promotion stays in \<open>versions\<close>\<close>

lemma safe_components:
  assumes "is_safe_relative_path p"
  shows "components p = split_on (CHR ''/'') p" "list_all plain_name (components p)" "components p \<noteq> []"
    "\<not> starts_with p ''/''"
proof -
  have seg: "plain_name c" if "c \<in> set (split_on (CHR ''/'') p)" for c
    using assms that safe_segment_plain [of c] by (auto simp: is_safe_relative_path_def list_all_iff plain_name_def)
  then show all: "components p = split_on (CHR ''/'') p"
    unfolding components_def by (intro filter_True) (auto simp: plain_name_def)
  show "list_all plain_name (components p)" using seg by (simp add: all list_all_iff)
  show "components p \<noteq> []" by (simp add: all)
  show "\<not> starts_with p ''/''" using assms by (simp add: is_safe_relative_path_def)
qed

lemma in_area_append:
  "in_area V UNIV p \<Longrightarrow> list_all plain_name q \<Longrightarrow> in_area V UNIV (p @ q)"
  by (auto simp: in_area_def)

lemma closed_UNIV [simp]: "closed_under_move UNIV p q"
  by (simp add: closed_under_move_def)

lemma write_keeps:
  assumes "in_area V UNIV dest" and "strict_prefix V dest"
  shows "keeps V UNIV (write_executable_atomically fl sfx V dest bytes)"
proof -
  have plain: "list_all plain_name dest" using assms(1) by (simp add: in_area_def)
  note tmp = tmp_name_props [OF assms(2) plain, where sfx = sfx]
  have nonempty: "dest \<noteq> []" using assms(2) by (auto simp: strict_prefix_def)
  then obtain p x where dest: "dest = p @ [x]" by (metis append_butlast_last_id)
  have up: "in_area V UNIV (butlast dest)" using assms plain by (auto simp: dest in_area_def strict_prefix_def)
  have tmp_in: "in_area V UNIV (tmp_name sfx dest)" using tmp(2,3) by (simp add: in_area_def)
  have reject: "keeps V UNIV (reject_symlink_components V dest)"
    unfolding reject_symlink_components_def by (auto intro!: area_rules)
  have fill: "keeps V UNIV (fill_and_rename fl (tmp_name sfx dest) dest bytes)"
    unfolding fill_and_rename_def sys_sync_all_def
    by (auto intro!: area_rules assms tmp_in reading_keeps split: sum.split)
  show ?thesis
    unfolding write_executable_atomically_def write_with_mode_def if_not_P [OF nonempty]
    by (auto intro!: area_rules reject fill up tmp_in simp: nonempty)
qed

lemma stage_in_area: "installed_ok l d \<Longrightarrow> in_area (versions_dir l) UNIV (stage_path l v)"
  by (auto simp: in_area_def stage_path_def installed_ok_def area_ok_def plain_name_def)

definition safe_entries :: "(string \<times> string) list \<Rightarrow> bool" where
  "safe_entries es \<longleftrightarrow> (\<forall>(p, h) \<in> set es. is_safe_relative_path p)"

lemma validate_safe: "rm_validate_entry_paths m = Inr () \<longleftrightarrow> safe_entries (rm_entries m)"
proof -
  have "safe_entries (rm_entries m) \<longleftrightarrow> first_unsafe (map fst (rm_entries m)) = None"
    unfolding first_unsafe_None safe_entries_def by auto
  then show ?thesis by (simp add: rm_validate_entry_paths_def split: option.split)
qed

lemma fetch_keeps:
  assumes "in_area (versions_dir l) UNIV stage_dir" and "safe_entries es"
  shows "keeps (versions_dir l) UNIV (fetch_entries fl sha256 sfx server l v stage_dir es)"
  using assms(2)
proof (induction es)
  case (Cons e es)
  obtain p h where e: "e = (p, h)" by (cases e)
  then have safe: "is_safe_relative_path p" and rest: "safe_entries es" using Cons.prems by (auto simp: safe_entries_def)
  have "strict_prefix (versions_dir l) (stage_dir @ components p)"
    using assms(1) safe_components(3) [OF safe] by (auto simp: in_area_def strict_prefix_def prefix_def)
  then have "keeps (versions_dir l) UNIV
      (write_executable_atomically fl (sfx p) (versions_dir l) (stage_dir @ components p) bytes)" for bytes
    by (intro write_keeps in_area_append assms(1) safe_components(2) [OF safe])
  then show ?case using Cons.IH [OF rest] by (auto simp: e intro!: area_rules split: sum.split)
qed (simp add: keeps_return)

lemma remove_leftover_keeps:
  "in_area V UNIV p \<Longrightarrow> keeps V UNIV (remove_leftover fl p)"
  unfolding remove_leftover_def
  by (auto intro!: area_rules split: option.split node.split sum.split io_error.split)

lemma stage_keeps:
  assumes "in_area (versions_dir l) UNIV (stage_path l (rm_release_version m))"
    and "in_area (versions_dir l) UNIV (version_dir l (rm_release_version m))" and "safe_entries (rm_entries m)"
  shows "keeps (versions_dir l) UNIV (stage fl sha256 sfx server l m)"
  unfolding stage_def Let_def fetch_into_def
  by (auto intro!: area_rules remove_leftover_keeps fetch_keeps assms split: sum.split)

lemma verify_entries_keeps: "keeps V UNIV (verify_entries fl sha256 dir es)"
  by (induction fl sha256 dir es rule: verify_entries.induct) (auto simp: hash_staged_def intro!: area_rules)

lemma discard_keeps: "in_area V UNIV p \<Longrightarrow> keeps V UNIV (discard_download fl p n e)"
  unfolding discard_download_def by (auto intro!: area_rules)

subsection \<open>What the verification of the staged files establishes\<close>

text \<open>The entries, found below a directory with their recorded hashes.\<close>

definition entries_present :: "(string \<Rightarrow> string) \<Rightarrow> path \<Rightarrow> (string \<times> string) list \<Rightarrow> disk \<Rightarrow> bool" where
  "entries_present sha256 dir es d \<longleftrightarrow>
     (\<forall>(p, h) \<in> set es. \<exists>b. node_at d (dir @ components p) = Some (File b) \<and> sha256 b = h)"

lemma sys_read_in_area:
  assumes "in_area V UNIV p"
  shows "triple (\<lambda>d. area_ok V UNIV d \<and> P d) (sys_read fl p)
    (\<lambda>r d. area_ok V UNIV d \<and> P d \<and> (\<forall>b. r = Inr b \<longrightarrow> node_at d p = Some (File b)))"
  unfolding sys_read_def
proof (rule triple_call)
  fix d f assume d: "area_ok V UNIV d \<and> P d"
  then show "area_ok V UNIV (fst (d_read p d)) \<and> P (fst (d_read p d)) \<and>
      (\<forall>b. snd (d_read p d) = Inr b \<longrightarrow> node_at (fst (d_read p d)) p = Some (File b))"
    using area_followed [OF _ assms, of d] by (auto simp: d_read_def node_of_def split: option.splits node.splits)
qed (simp add: unharmed_def)

lemma verify_entries_spec:
  assumes "in_area V UNIV dir" and "safe_entries es"
  shows "triple (\<lambda>d. area_ok V UNIV d \<and> P d) (verify_entries fl sha256 dir es)
    (\<lambda>r d. area_ok V UNIV d \<and> P d \<and> (\<forall>u. r = Inr u \<longrightarrow> entries_present sha256 dir es d))"
  using assms(2)
proof (induction es arbitrary: P)
  case Nil
  show ?case by (auto intro: triple_return simp: entries_present_def)
next
  case (Cons e es)
  obtain p h where e: "e = (p, h)" by (cases e)
  then have safe: "is_safe_relative_path p" and rest: "safe_entries es" using Cons.prems by (auto simp: safe_entries_def)
  have join: "join_path dir p = dir @ components p" using safe_components(4) [OF safe] by (simp add: join_path_def)
  have area: "in_area V UNIV (dir @ components p)" by (intro in_area_append assms(1) safe_components(2) [OF safe])
  let ?ok = "\<lambda>h d. \<exists>b. node_at d (dir @ components p) = Some (File b) \<and> sha256 b = h"
  let ?post = "\<lambda>r d. area_ok V UNIV d \<and> P d \<and> (\<forall>u. r = Inr u \<longrightarrow> entries_present sha256 dir (e # es) d)"
  have read: "triple (\<lambda>d. area_ok V UNIV d \<and> P d) (io_map_err (io_err (dir @ components p)) (sys_read fl (dir @ components p)))
      (\<lambda>r d. area_ok V UNIV d \<and> P d \<and> (\<forall>b. r = Inr b \<longrightarrow> node_at d (dir @ components p) = Some (File b)))"
    by (rule triple_map_err [OF sys_read_in_area [OF area]]) auto
  have hash: "triple (\<lambda>d. area_ok V UNIV d \<and> P d) (hash_staged fl sha256 (dir @ components p))
      (\<lambda>r d. area_ok V UNIV d \<and> P d \<and> (\<forall>h. r = Inr h \<longrightarrow> ?ok h d))"
    unfolding hash_staged_def
    by (rule triple_bind [OF read]) (auto intro!: triple_return)
  have next_one: "triple (\<lambda>d. area_ok V UNIV d \<and> P d \<and> ?ok h d) (verify_entries fl sha256 dir es) ?post"
    by (rule triple_conseq [OF Cons.IH [OF rest, of "\<lambda>d. P d \<and> ?ok h d"]]) (auto simp: e entries_present_def)
  have tail: "triple (\<lambda>d. area_ok V UNIV d \<and> P d) (io_bind (hash_staged fl sha256 (dir @ components p)) (\<lambda>actual.
      if actual \<noteq> h then io_fail (StagedFileMismatch p h actual) else verify_entries fl sha256 dir es)) ?post"
  proof (rule triple_bind [OF hash])
    fix actual
    show "triple (\<lambda>d. area_ok V UNIV d \<and> P d \<and> (\<forall>h. Inr actual = Inr h \<longrightarrow> ?ok h d))
       (if actual \<noteq> h then io_fail (StagedFileMismatch p h actual) else verify_entries fl sha256 dir es) ?post"
      by (cases "actual = h") (auto intro: triple_conseq [OF next_one] intro!: triple_fail)
  qed simp
  have query: "triple (\<lambda>d. area_ok V UNIV d \<and> P d) (io_query (\<lambda>d. file_exists d (join_path dir p))) (\<lambda>_ d. area_ok V UNIV d \<and> P d)"
    by (rule triple_query) simp
  show ?case
    unfolding e verify_entries.simps
    by (rule triple_bind [OF query]) (use tail in \<open>auto simp: join e intro!: triple_fail\<close>)
qed

subsection \<open>Installing\<close>

text \<open>The disk while a release is being staged: only \<open>versions\<close> differs from the start.\<close>

definition staging :: "layout \<Rightarrow> disk \<Rightarrow> disk \<Rightarrow> bool" where
  "staging l d0 d \<longleftrightarrow> installed_ok l d \<and> (\<forall>q. \<not> prefix (versions_dir l) q \<longrightarrow> node_at d q = node_at d0 q)"

lemma keeps_staging: "keeps (versions_dir l) UNIV m \<Longrightarrow> triple (staging l d0) m (\<lambda>_. staging l d0)"
  by (auto simp: keeps_def triple_def staging_def installed_ok_def area_step_def)

definition other_entries :: "(string \<times> string) list \<Rightarrow> (string \<times> string) list" where
  "other_entries es = filter (\<lambda>(p, h). components p \<noteq> [MANIFEST_FILE]) es"

lemma manifest_in_area: "installed_ok l d \<Longrightarrow> in_area (versions_dir l) UNIV (manifest_path l v)"
  unfolding manifest_path_def
  by (rule in_area_append [OF version_in_area]) (simp_all add: MANIFEST_FILE_def plain_name_def)

lemma d_write_elsewhere:
  assumes "area_ok V UNIV d" and "in_area V UNIV p" and "q \<noteq> p"
  shows "node_at (fst (d_write p b d)) q = node_at d q"
  using area_followed [OF assms(1,2)] assms(3) area_nonroot [OF assms(1) in_area_prefix [OF assms(2)]]
  by (auto simp: d_write_def node_at_put split: option.split node.split)

lemma persist_spec:
  assumes "installed_ok l d0"
  shows "triple (\<lambda>d. staging l d0 d \<and> entries_present sha256 (version_dir l (rm_release_version m)) es d) (persist_manifest fl pretty l m)
    (\<lambda>r d. staging l d0 d \<and> entries_present sha256 (version_dir l (rm_release_version m)) (other_entries es) d)"
proof -
  let ?dir = "version_dir l (rm_release_version m)"
  let ?p = "manifest_path l (rm_release_version m)"
  note area = manifest_in_area [OF assms, of "rm_release_version m"]
  have others: "entries_present sha256 ?dir (other_entries es) (fst (d_write ?p b d))"
    if "staging l d0 d" "entries_present sha256 ?dir es d" for b d
  proof -
    have ok: "area_ok (versions_dir l) UNIV d" using that(1) by (simp add: staging_def installed_ok_def)
    have "node_at (fst (d_write ?p b d)) (?dir @ components q) = node_at d (?dir @ components q)"
      if "components q \<noteq> [MANIFEST_FILE]" for q
      by (rule d_write_elsewhere [OF ok area]) (use that in \<open>simp add: manifest_path_def\<close>)
    then show ?thesis using that(2) by (auto simp: entries_present_def other_entries_def)
  qed
  have kept: "entries_present sha256 ?dir (other_entries es) d" if "entries_present sha256 ?dir es d" for d
    using that by (auto simp: entries_present_def other_entries_def)
  have stay: "staging l d0 (fst (d_write ?p b d))" if "staging l d0 d" for b d
    using that d_write_keeps [OF area, of b] by (auto simp: effect_keeps_def staging_def installed_ok_def area_step_def)
  have "triple (\<lambda>d. staging l d0 d \<and> entries_present sha256 ?dir es d) (sys_write fl ?p (pretty m))
      (\<lambda>r d. staging l d0 d \<and> entries_present sha256 ?dir (other_entries es) d)"
    unfolding sys_write_def
    by (rule triple_call) (use others kept stay in \<open>auto simp: partly_written_def split: option.split\<close>)
  then show ?thesis unfolding persist_manifest_def Let_def by (rule triple_map_err) simp_all
qed

definition installed_release ::
    "(string \<Rightarrow> string) \<Rightarrow> layout \<Rightarrow> release_manifest \<Rightarrow> disk \<Rightarrow> 'h release_error + outcome \<Rightarrow> disk \<Rightarrow> bool" where
  "installed_release sha256 l m d0 r d \<longleftrightarrow>
     (case r of
        Inr (Promoted v n label) \<Rightarrow> v = rm_release_version m \<and> installed_ok l d
          \<and> node_at d (current_link l) = Some (Symlink (Absolute (version_dir l v)))
          \<and> entries_present sha256 (version_dir l v) (other_entries (rm_entries m)) d
          \<and> (\<forall>q. \<not> prefix (versions_dir l) q \<longrightarrow> q \<noteq> current_link l \<longrightarrow> q \<noteq> tmp_link l \<longrightarrow> node_at d q = node_at d0 q)
      | _ \<Rightarrow> \<forall>q. \<not> prefix (versions_dir l) q \<longrightarrow> q \<noteq> tmp_link l \<longrightarrow> node_at d q = node_at d0 q)"

lemma promote_spec:
  assumes "v = rm_release_version m"
  shows "triple (\<lambda>d. staging l d0 d \<and> entries_present sha256 (version_dir l v) (other_entries (rm_entries m)) d) (promote fl l v)
    (\<lambda>r d. case r of Inr _ \<Rightarrow> installed_release sha256 l m d0 (Inr (Promoted v n label) :: 'h release_error + outcome) d
           | Inl _ \<Rightarrow> installed_release sha256 l m d0 (Inl Not_Packaged :: 'h release_error + outcome) d)"
proof -
  let ?P = "\<lambda>d. staging l d0 d \<and> entries_present sha256 (version_dir l v) (other_entries (rm_entries m)) d"
  have swap: "triple ?P (promote fl l v) (\<lambda>r d. \<exists>d1. ?P d1 \<and> swap_result l (version_dir l v) d1 r d)"
    unfolding promote_def
    by (rule triple_from_start, rule triple_conseq [OF swap_spec]) (auto simp: staging_def dest: installed_real swapped_start)
  have versions: "q \<noteq> current_link l \<and> q \<noteq> tmp_link l" if "prefix (versions_dir l) q" for q
    using that beside_versions [of l] by auto
  show ?thesis
  proof (rule triple_conseq [OF swap])
    fix r :: "updater_error + unit" and d
    assume "\<exists>d1. ?P d1 \<and> swap_result l (version_dir l v) d1 r d"
    then obtain d1 where d1: "?P d1" "swap_result l (version_dir l v) d1 r d" by blast
    have same: "node_at d (version_dir l v @ q) = node_at d1 (version_dir l v @ q)" for q
      using d1(2) versions [of "version_dir l v @ q"] by (simp add: swap_result_def version_dir_def)
    have present: "entries_present sha256 (version_dir l v) (other_entries (rm_entries m)) d"
      using d1(1) same by (simp add: entries_present_def)
    have ok: "installed_ok l d" using swap_installed [OF _ d1(2)] d1(1) by (simp add: staging_def)
    show "case r of Inr _ \<Rightarrow> installed_release sha256 l m d0 (Inr (Promoted v n label) :: 'h release_error + outcome) d
           | Inl _ \<Rightarrow> installed_release sha256 l m d0 (Inl Not_Packaged :: 'h release_error + outcome) d"
      using d1 present ok assms beside_versions [of l]
      by (cases r) (auto simp: installed_release_def swap_result_def staging_def, metis)
  qed simp
qed

lemma staging_failed: "staging l d0 d \<Longrightarrow> installed_release sha256 l m d0 (Inl e :: 'h release_error + outcome) d"
  by (simp add: staging_def installed_release_def)

lemma failed_any: "installed_release sha256 l m d0 (Inl e :: 'h release_error + outcome) d \<longleftrightarrow>
    installed_release sha256 l m d0 (Inl e' :: 'h release_error + outcome) d"
  by (simp add: installed_release_def)

lemma keeps_failed:
  assumes "keeps (versions_dir l) UNIV n" and "\<And>s. \<exists>e. fst (n s) = Inl (e :: 'h release_error)"
  shows "triple (staging l d0) n (installed_release sha256 l m d0 :: 'h release_error + outcome \<Rightarrow> _)"
  unfolding triple_def
proof (intro allI impI)
  fix s :: os assume "staging l d0 (os_disk s)"
  then have "staging l d0 (os_disk (snd (n s)))" using keeps_staging [OF assms(1)] by (simp add: triple_def)
  then show "installed_release sha256 l m d0 (fst (n s)) (os_disk (snd (n s)))"
    using assms(2) [of s] staging_failed by fastforce
qed

lemma discard_fails: "\<exists>e'. fst (discard_download fl p n e s) = Inl e'"
  by (auto simp: discard_download_def io_try_def io_fail_def split: prod.split)

lemma install_spec:
  assumes "installed_ok l d0" and "safe_entries (rm_entries m)"
  shows "triple (staging l d0) (install_release fl sha256 sfx pretty server selinux l m) (installed_release sha256 l m d0)"
proof -
  let ?v = "rm_release_version m"
  let ?dir = "version_dir l ?v"
  let ?post = "installed_release sha256 l m d0 :: 'a release_error + outcome \<Rightarrow> _"
  note dir_area = version_in_area [OF assms(1), of ?v]
  have discard: "triple (\<lambda>d. staging l d0 d) (discard_download fl ?dir n e) ?post" for n e
    by (rule keeps_failed [OF discard_keeps [OF dir_area] discard_fails])
  have stage: "keeps (versions_dir l) UNIV (stage fl sha256 sfx server l m)"
    by (rule stage_keeps [OF stage_in_area [OF assms(1)] dir_area assms(2)])
  have swap: "triple (\<lambda>d. staging l d0 d \<and> entries_present sha256 ?dir (other_entries (rm_entries m)) d)
      (io_map_err Updater_Err (promote fl l ?v))
      (\<lambda>r d. case r of Inr _ \<Rightarrow> ?post (Inr (Promoted ?v n label)) d | Inl _ \<Rightarrow> ?post (Inl Not_Packaged) d)" for n label
    by (rule triple_map_err [OF promote_spec [OF refl]]) simp_all
  have promote: "triple (\<lambda>d. staging l d0 d \<and> entries_present sha256 ?dir (other_entries (rm_entries m)) d)
      (io_bind (io_map_err Updater_Err (promote fl l ?v)) (\<lambda>_. io_return (Promoted ?v n label))) ?post" for n label
    by (rule triple_bind [OF swap [of n label]]) (auto intro!: triple_return intro: iffD1 [OF failed_any])
  have persisted: "triple (\<lambda>d. staging l d0 d \<and> entries_present sha256 ?dir (rm_entries m) d)
      (io_map_err Updater_Err (persist_manifest fl pretty l m))
      (\<lambda>r d. staging l d0 d \<and> entries_present sha256 ?dir (other_entries (rm_entries m)) d)"
    by (rule triple_map_err [OF persist_spec [OF assms(1)]]) simp_all
  have persist: "triple (\<lambda>d. staging l d0 d \<and> entries_present sha256 ?dir (rm_entries m) d)
      (io_bind (io_map_err Updater_Err (persist_manifest fl pretty l m)) (\<lambda>_.
        io_bind (io_map_err Updater_Err (promote fl l ?v)) (\<lambda>_. io_return (Promoted ?v n label)))) ?post" for n label
    by (rule triple_bind [OF persisted promote]) (auto intro: staging_failed)
  have verify: "triple (staging l d0) (verify_staged fl sha256 l m)
      (\<lambda>r d. staging l d0 d \<and> (\<forall>u. r = Inr u \<longrightarrow> entries_present sha256 ?dir (rm_entries m) d))"
    unfolding verify_staged_def
    by (rule triple_conseq [OF verify_entries_spec [OF dir_area assms(2), where P = "staging l d0"]])
      (auto simp: staging_def installed_ok_def)
  have rest: "triple (staging l d0) (io_try (verify_staged fl sha256 l m) (\<lambda>verified. case verified of
           Inl e \<Rightarrow> discard_download fl ?dir n (Updater_Err e)
         | Inr _ \<Rightarrow> (case restore_selinux_labels selinux of
                Inl e \<Rightarrow> discard_download fl ?dir n e
              | Inr label \<Rightarrow> io_bind (io_map_err Updater_Err (persist_manifest fl pretty l m)) (\<lambda>_.
                  io_bind (io_map_err Updater_Err (promote fl l ?v)) (\<lambda>_. io_return (Promoted ?v n label)))))) ?post" for n
    by (rule triple_try [OF verify])
      (auto intro: triple_conseq [OF discard] triple_conseq [OF persist] split: sum.split)
  have get: "triple (staging l d0) (if present then io_return 0
      else io_bind (stage fl sha256 sfx server l m) (\<lambda>_. io_return (length (rm_entries m)))) (\<lambda>_. staging l d0)" for present
    by (rule keeps_staging) (auto intro!: area_rules stage)
  have query: "triple (staging l d0) (io_query (\<lambda>d. dir_exists d ?dir)) (\<lambda>_. staging l d0)"
    by (rule keeps_staging [OF keeps_query])
  show ?thesis
    unfolding install_release_def Let_def
    by (rule triple_bind [OF query], rule triple_bind [OF get rest]) (auto intro: staging_failed)
qed

subsection \<open>The whole command\<close>

lemma bind_pure:
  "io_bind (io_map_err f (io_of (Inl e))) k = io_fail (f e)" "io_bind (io_map_err f (io_of (Inr x))) k = k x"
  by (simp_all add: fun_eq_iff io_bind_def io_map_err_def io_try_def io_of_def io_fail_def io_return_def)

lemma staging_bans:
  assumes "staging l d0 d" and "\<And>t. node_at d0 (ban_list_path l) \<noteq> Some (Symlink t)"
  shows "beside_current l (ban_list_path l) d" "node_at d (ban_list_path l) = node_at d0 (ban_list_path l)"
proof -
  have "\<not> prefix (versions_dir l) (ban_list_path l)"
    by (auto simp: versions_dir_def ban_list_path_def VERSIONS_DIR_def BAN_LIST_def dest: prefix_length_le)
  then show same: "node_at d (ban_list_path l) = node_at d0 (ban_list_path l)" using assms(1) by (simp add: staging_def)
  show "beside_current l (ban_list_path l) d"
    using assms(2) by (simp add: beside_current_def same) (simp add: ban_list_path_def BAN_LIST_def current_link_def
        CURRENT_LINK_def tmp_link_def versions_dir_def VERSIONS_DIR_def plain_name_def)
qed

lemma staging_version:
  assumes "installed_ok l d0" and "staging l d0 d"
  shows "current_release_version l d = current_release_version l d0"
proof -
  have "locate d' (current_link l) = Inr (current_link l)" if "installed_ok l d'" for d'
    unfolding current_link_def by (rule locate_in_base [OF installed_real [OF that] link_names(1)])
  moreover have "node_at d (current_link l) = node_at d0 (current_link l)"
    using assms(2) beside_versions(1) by (simp add: staging_def)
  ultimately show ?thesis
    using assms by (simp add: current_release_version_def resolve_active_dir_def read_link_def node_of_def staging_def)
qed

definition release_checked ::
    "(release_manifest \<Rightarrow> string) \<Rightarrow> (string \<Rightarrow> string \<Rightarrow> bool) \<Rightarrow> (string \<Rightarrow> nat list option) \<Rightarrow> layout \<Rightarrow> disk \<Rightarrow> release_manifest \<Rightarrow> bool" where
  "release_checked pretty ed25519_verify bans_json l d m \<longleftrightarrow>
     rm_verify_signature pretty ed25519_verify m = Some (Inr ()) \<and> safe_entries (rm_entries m)
     \<and> (\<exists>banned. bans_on_disk bans_json (ban_list_path l) d = Some banned \<and> rm_release_version m \<notin> banned)
     \<and> (\<forall>c. current_release_version l d = Some c \<longrightarrow> c < rm_release_version m)"

definition release_applied where
  "release_applied sha256 pretty ed25519_verify bans_json server l d0 r d \<longleftrightarrow>
     (case r of
        Inr (Promoted v n label) \<Rightarrow> (\<exists>m. get_manifest server = Inr m \<and> release_checked pretty ed25519_verify bans_json l d0 m
          \<and> installed_release sha256 l m d0 r d)
      | _ \<Rightarrow> \<forall>q. \<not> prefix (versions_dir l) q \<longrightarrow> q \<noteq> tmp_link l \<longrightarrow> node_at d q = node_at d0 q)"

lemma applied_of_installed:
  assumes "get_manifest server = Inr m" and "release_checked pretty ed25519_verify bans_json l d0 m"
    and "installed_release sha256 l m d0 r d"
  shows "release_applied sha256 pretty ed25519_verify bans_json server l d0 r d"
  using assms by (auto simp: release_applied_def installed_release_def split: sum.splits outcome.splits)

lemma staging_applied: "staging l d0 d \<Longrightarrow> release_applied sha256 pretty ed bans_json server l d0 (Inl e) d"
  "staging l d0 d \<Longrightarrow> release_applied sha256 pretty ed bans_json server l d0 (Inr (UpToDate a b)) d"
  by (simp_all add: release_applied_def staging_def)

lemma check_version_Inr: "check_release_version v c = Inr u \<longleftrightarrow> (\<forall>w. c = Some w \<longrightarrow> w < v)"
  by (auto simp: check_release_version_def split: option.splits)

lemma check_version_Inl: "check_release_version v c = Inl e \<Longrightarrow> \<exists>w. e = ReleaseNotNewer v w"
  by (auto simp: check_release_version_def split: option.splits if_splits)

lemma load_bans_staging:
  assumes "\<And>t. node_at d0 (ban_list_path l) \<noteq> Some (Symlink t)"
  shows "triple (staging l d0) (io_map_err Updater_Err (load_bans fl bans_json (ban_list_path l)))
      (\<lambda>r d. staging l d0 d \<and> (\<forall>b. r = Inr b \<longrightarrow> bans_on_disk bans_json (ban_list_path l) d0 = Some (set b)))"
proof -
  have same: "bans_on_disk bans_json (ban_list_path l) d = bans_on_disk bans_json (ban_list_path l) d0" if "staging l d0 d" for d
    using staging_bans(2) [OF that assms] by (simp add: bans_on_disk_def)
  have read: "triple (staging l d0) (load_bans fl bans_json (ban_list_path l))
      (\<lambda>r d. staging l d0 d \<and> (\<forall>b. r = Inr b \<longrightarrow> bans_on_disk bans_json (ban_list_path l) d0 = Some (set b)))"
  proof (rule triple_conseq [OF load_bans_spec [where P = "staging l d0" and l = l]])
    show "installed_ok l d \<and> beside_current l (ban_list_path l) d \<and> staging l d0 d" if "staging l d0 d" for d
      using that staging_bans(1) [OF that assms] by (simp add: staging_def)
  qed (use same in auto)
  show "triple (staging l d0) (io_map_err Updater_Err (load_bans fl bans_json (ban_list_path l)))
      (\<lambda>r d. staging l d0 d \<and> (\<forall>b. r = Inr b \<longrightarrow> bans_on_disk bans_json (ban_list_path l) d0 = Some (set b)))"
    by (rule triple_map_err [OF read]) auto
qed

lemma apply_checked:
  assumes "installed_ok l d0" and "\<And>t. node_at d0 (ban_list_path l) \<noteq> Some (Symlink t)"
    and "get_manifest server = Inr m" and "rm_verify_signature pretty ed25519_verify m = Some (Inr ())"
    and "rm_validate_entry_paths m = Inr ()"
  shows "triple (staging l d0)
    (io_bind (io_map_err Updater_Err (load_bans fl bans_json (ban_list_path l))) (\<lambda>banned.
     io_bind (io_map_err Updater_Err (io_of (bans_check banned (rm_release_version m)))) (\<lambda>_.
     io_bind (io_query (current_release_version l)) (\<lambda>current.
     case check_release_version (rm_release_version m) current of
       Inr _ \<Rightarrow> install_release fl sha256 sfx pretty server selinux l m
     | Inl (ReleaseNotNewer offered c) \<Rightarrow> io_return (UpToDate offered c)
     | Inl e \<Rightarrow> io_fail (Updater_Err e)))))
    (release_applied sha256 pretty ed25519_verify bans_json server l d0)"
proof -
  let ?v = "rm_release_version m"
  let ?post = "release_applied sha256 pretty ed25519_verify bans_json server l d0"
  let ?tail = "\<lambda>current. case check_release_version ?v current of
       Inr _ \<Rightarrow> install_release fl sha256 sfx pretty server selinux l m
     | Inl (ReleaseNotNewer offered c) \<Rightarrow> io_return (UpToDate offered c)
     | Inl e \<Rightarrow> io_fail (Updater_Err e)"
  note safe = iffD1 [OF validate_safe assms(5)]
  note load = load_bans_staging [OF assms(2), of fl bans_json]
  have tail: "triple (staging l d0) (?tail (current_release_version l d0)) ?post"
    if "bans_on_disk bans_json (ban_list_path l) d0 = Some (set b)" "?v \<notin> set b" for b
  proof (cases "check_release_version ?v (current_release_version l d0)")
    case (Inl e)
    then obtain w where "e = ReleaseNotNewer ?v w" using check_version_Inl by blast
    then show ?thesis using Inl by (auto intro: triple_return staging_applied)
  next
    case (Inr u)
    then have checked: "release_checked pretty ed25519_verify bans_json l d0 m"
      using that safe assms(4) by (auto simp: release_checked_def check_version_Inr)
    have "triple (staging l d0) (install_release fl sha256 sfx pretty server selinux l m) ?post"
      by (rule triple_conseq [OF install_spec [OF assms(1) safe] _ applied_of_installed [OF assms(3) checked]])
    then show ?thesis using Inr by simp
  qed
  have query: "triple (staging l d0) (io_query (current_release_version l))
      (\<lambda>r d. staging l d0 d \<and> r = Inr (current_release_version l d0))"
    by (rule triple_query) (simp add: staging_version [OF assms(1)])
  have version: "triple (staging l d0) (io_bind (io_query (current_release_version l)) ?tail) ?post"
    if "bans_on_disk bans_json (ban_list_path l) d0 = Some (set b)" "?v \<notin> set b" for b
  proof (rule triple_bind [OF query])
    fix c show "triple (\<lambda>d. staging l d0 d \<and> (Inr c :: 'a release_error + nat option) = Inr (current_release_version l d0)) (?tail c) ?post"
    proof (cases "c = current_release_version l d0")
      case True
      then show ?thesis by (auto intro: triple_conseq [OF tail [OF that]])
    qed (simp add: triple_def)
  qed simp
  show ?thesis
  proof (rule triple_bind [OF load])
    fix b
    show "triple (\<lambda>d. staging l d0 d \<and> (\<forall>b'. Inr b = Inr b' \<longrightarrow> bans_on_disk bans_json (ban_list_path l) d0 = Some (set b')))
      (io_bind (io_map_err Updater_Err (io_of (bans_check b ?v))) (\<lambda>_. io_bind (io_query (current_release_version l)) ?tail)) ?post"
    proof (cases "bans_on_disk bans_json (ban_list_path l) d0 = Some (set b)")
      case True
      then show ?thesis
        by (auto simp: bans_check_def is_banned_def bind_pure intro!: triple_fail staging_applied
            intro: triple_conseq [OF version [OF True]])
    qed (simp add: triple_def)
  qed (auto intro: staging_applied)
qed

text \<open>
  C3: A release is promoted only after every check. When the command reports a promotion, the
  manifest the server sent carries a valid signature, its paths are safe, its version is not on
  the ban list and greater than the current one, \<open>current\<close> points at its directory, and every
  entry is there with the signed hash (an entry named like the manifest file apart). On every other
  outcome, whatever call fails, \<open>current\<close> and everything else outside \<open>versions\<close> is as before.
\<close>

theorem only_verified_releases_are_promoted:
  assumes "installed_ok l (os_disk s)" and "\<And>t. node_at (os_disk s) (ban_list_path l) \<noteq> Some (Symlink t)"
    and "apply_release_with fl sha256 sfx pretty ed25519_verify bans_json server selinux l s = (r, s')"
  shows "case r of
      Inr (Promoted v n label) \<Rightarrow> (\<exists>m. get_manifest server = Inr m \<and> v = rm_release_version m \<and>
        release_checked pretty ed25519_verify bans_json l (os_disk s) m \<and>
        resolve_active_dir l (os_disk s') = version_dir l v \<and>
        entries_present sha256 (version_dir l v) (other_entries (rm_entries m)) (os_disk s'))
    | _ \<Rightarrow> (\<forall>q. \<not> prefix (versions_dir l) q \<longrightarrow> q \<noteq> tmp_link l \<longrightarrow> node_at (os_disk s') q = node_at (os_disk s) q)"
proof -
  let ?d = "os_disk s"
  let ?post = "release_applied sha256 pretty ed25519_verify bans_json server l ?d"
  have area: "in_area (versions_dir l) UNIV (versions_dir l)"
    using assms(1) by (simp add: in_area_def installed_ok_def area_ok_def)
  have dirs: "triple (staging l ?d) (io_map_err Fs (sys_create_dir_all fl (versions_dir l))) (\<lambda>_. staging l ?d)"
    by (rule keeps_staging) (intro area_rules area)
  have packaged: "triple (staging l ?d) (io_query (\<lambda>d. dir_exists d (bootstrap_dir l))) (\<lambda>_. staging l ?d)"
    by (rule keeps_staging [OF keeps_query])
  have fail: "triple (staging l ?d) (io_fail e) ?post" for e :: "'a release_error" by (rule triple_fail) (rule staging_applied)
  let ?rest = "\<lambda>m. io_bind (io_map_err Updater_Err (load_bans fl bans_json (ban_list_path l))) (\<lambda>banned.
     io_bind (io_map_err Updater_Err (io_of (bans_check banned (rm_release_version m)))) (\<lambda>_.
     io_bind (io_query (current_release_version l)) (\<lambda>current.
     case check_release_version (rm_release_version m) current of
       Inr _ \<Rightarrow> install_release fl sha256 sfx pretty server selinux l m
     | Inl (ReleaseNotNewer offered c) \<Rightarrow> io_return (UpToDate offered c)
     | Inl e \<Rightarrow> io_fail (Updater_Err e))))"
  have signed: "triple (staging l ?d) (io_bind (io_map_err Updater_Err (io_of (rm_validate_entry_paths m))) (\<lambda>_. ?rest m)) ?post"
    if "get_manifest server = Inr m" "rm_verify_signature pretty ed25519_verify m = Some (Inr ())" for m
    using apply_checked [OF assms(1,2) that] fail by (cases "rm_validate_entry_paths m") (simp_all add: bind_pure)
  have body: "triple (staging l ?d) (case get_manifest server of
         Inl e \<Rightarrow> io_fail (Http e)
       | Inr m \<Rightarrow> (case rm_verify_signature pretty ed25519_verify m of
              None \<Rightarrow> io_fail Release_Panic
            | Some (Inl e) \<Rightarrow> io_fail (Updater_Err e)
            | Some (Inr _) \<Rightarrow> io_bind (io_map_err Updater_Err (io_of (rm_validate_entry_paths m))) (\<lambda>_. ?rest m))) ?post"
    using signed fail by (simp split: sum.split option.split)
  have whole: "triple (staging l ?d) (apply_release_with fl sha256 sfx pretty ed25519_verify bans_json server selinux l) ?post"
    unfolding apply_release_with_def
    by (rule triple_bind [OF packaged]) (auto intro!: fail triple_bind [OF dirs body] staging_applied)
  have "staging l ?d ?d" by (simp add: staging_def assms(1))
  then have applied: "?post r (os_disk s')" using triple_use [OF whole _ assms(3)] by simp
  have active: "resolve_active_dir l d = version_dir l v"
    if "installed_ok l d" "node_at d (current_link l) = Some (Symlink (Absolute (version_dir l v)))" for d v
  proof -
    have "locate d (current_link l) = Inr (current_link l)"
      unfolding current_link_def by (rule locate_in_base [OF installed_real [OF that(1)] link_names(1)])
    then show ?thesis
      using that(2) by (simp add: resolve_active_dir_def read_link_def node_of_def resolve_target_def version_dir_def)
  qed
  show ?thesis
    using applied active by (auto simp: release_applied_def installed_release_def split: sum.split outcome.split)
qed

subsection \<open>A sample update\<close>

definition sample_pretty :: "release_manifest \<Rightarrow> string" where
  "sample_pretty m = show_nat (rm_release_version m)"

definition sample_release :: release_manifest where
  "sample_release = rm_sign sample_pretty rev
     \<lparr>rm_entries = [(''agent'', ''tnega'')], rm_release_version = 3, rm_schema_version = 1, rm_signature = []\<rparr>"

definition sample_server :: "string release_server" where
  "sample_server = \<lparr>get_manifest = Inr sample_release, get_artifact = (\<lambda>v p h n. Inr p)\<rparr>"

definition sample_selinux :: selinux_probe where
  "sample_selinux = \<lparr>enforce_text = None, restorecon_present = False, restorecon_run = Exit_Success\<rparr>"

definition sample_fresh :: os where
  "sample_fresh = \<lparr>os_disk =
     [([''var''], Dir), ([''var'', ''bootstrap''], Dir), ([''var'', ''current''], Symlink (Absolute [''var'', ''bootstrap'']))],
     os_calls = 0\<rparr>"

lemma sample_run:
  "fst (apply_release_with (\<lambda>_. None) rev (\<lambda>_. ''1'') sample_pretty (\<lambda>msg sg. sg = rev msg) sample_from_json sample_server
     sample_selinux sample_layout sample_fresh) = Inr (Promoted 3 1 NotApplicable)"
  by code_simp

lemma sample_fresh_installed: "installed_ok sample_layout (os_disk sample_fresh)"
proof -
  have "q = [] \<or> q = [''var'']" if "strict_prefix q [''var'', ''versions'']" for q
    using that by (auto simp: strict_prefix_def prefix_Cons)
  then show ?thesis
    by (auto simp: installed_ok_def area_ok_def sample_layout_def sample_fresh_def versions_dir_def
        VERSIONS_DIR_def plain_name_def node_at_def)
qed

theorem only_verified_releases_are_promoted_witness:
  "resolve_active_dir sample_layout (os_disk (snd (apply_release_with (\<lambda>_. None) rev (\<lambda>_. ''1'') sample_pretty
     (\<lambda>msg sg. sg = rev msg) sample_from_json sample_server sample_selinux sample_layout sample_fresh))) =
   version_dir sample_layout 3"
proof -
  have no_link: "node_at (os_disk sample_fresh) (ban_list_path sample_layout) \<noteq> Some (Symlink t)" for t
    by (simp add: node_at_def sample_fresh_def ban_list_path_def BAN_LIST_def sample_layout_def)
  obtain r s' where run: "apply_release_with (\<lambda>_. None) rev (\<lambda>_. ''1'') sample_pretty (\<lambda>msg sg. sg = rev msg)
      sample_from_json sample_server sample_selinux sample_layout sample_fresh = (r, s')" by fastforce
  then have "r = Inr (Promoted 3 1 NotApplicable)" using sample_run by simp
  then show ?thesis
    using only_verified_releases_are_promoted [OF sample_fresh_installed no_link run] run by auto
qed

end
