(* ===== verification/Probation.thy ===== *)
theory Probation
  imports Rollback "HOL-Library.Code_Target_Nat"
begin

text \<open>
  The post-promotion health gate of \<open>watchdog/src/probation.rs\<close>: which release is on probation,
  the verdict on it, what proving it and rolling it back do to the installation. Instants and
  durations are nanoseconds.
\<close>

definition PROBATION_DEADLINE :: nat where
  "PROBATION_DEADLINE = 120 * 1000000000"

datatype probation_verdict = Pending | Proven | Failed

definition decide :: "nat \<Rightarrow> nat \<Rightarrow> bool \<Rightarrow> probation_verdict" where
  "decide elapsed deadline advanced =
     (if advanced then Proven else if deadline \<le> elapsed then Failed else Pending)"

definition BANS_NAME :: string where
  "BANS_NAME = ''banned_versions.json''"

record probation =
  pr_layout :: layout
  pr_ban_list :: path
  pr_release :: nat
  pr_previous :: "nat option"
  pr_started :: nat
  pr_deadline :: nat

text \<open>The part of \<open>detect\<close> that only looks at the path of the executable.\<close>

definition release_of_exe :: "path \<Rightarrow> (layout \<times> nat) option" where
  "release_of_exe exe =
     (if exe = [] \<or> butlast exe = [] then None
      else (let release_dir = butlast exe; versions = butlast release_dir
            in if file_name versions \<noteq> Some VERSIONS_DIR then None
               else map_option (\<lambda>v. (\<lparr>base_dir = butlast versions\<rparr>, v))
                      (Option.bind (file_name release_dir) parse_version)))"

definition detect :: "faults \<Rightarrow> (string \<Rightarrow> nat list option) \<Rightarrow> nat \<Rightarrow> path \<Rightarrow> ('e, probation option) io" where
  "detect fl bans_json now exe =
     (case release_of_exe exe of
        None \<Rightarrow> io_return None
      | Some (l, release) \<Rightarrow>
          io_bind (io_query (\<lambda>d. healthy_at l release d \<or> current_release_version l d \<noteq> Some release)) (\<lambda>settled.
          if settled then io_return None
          else
            (let ban_list = base_dir l @ [BANS_NAME] in
             io_try (load_bans fl bans_json ban_list) (\<lambda>loaded.
             io_bind (rollback_target fl l release (case loaded of Inr b \<Rightarrow> b | Inl _ \<Rightarrow> [])) (\<lambda>previous.
             io_return (Some \<lparr>pr_layout = l, pr_ban_list = ban_list, pr_release = release, pr_previous = previous,
                              pr_started = now, pr_deadline = PROBATION_DEADLINE\<rparr>))))))"

definition pr_verdict :: "probation \<Rightarrow> nat \<Rightarrow> bool \<Rightarrow> probation_verdict" where
  "pr_verdict p now advanced = decide (now - pr_started p) (pr_deadline p) advanced"

fun prune_older :: "faults \<Rightarrow> layout \<Rightarrow> nat \<Rightarrow> nat list \<Rightarrow> unit updater_io" where
  "prune_older fl l keep_from [] = io_return ()"
| "prune_older fl l keep_from (v # vs) =
     (if v < keep_from then io_try (prune fl l v) (\<lambda>_. prune_older fl l keep_from vs)
      else prune_older fl l keep_from vs)"

definition prove_release :: "faults \<Rightarrow> probation \<Rightarrow> unit updater_io" where
  "prove_release fl p =
     io_bind (mark_healthy fl (pr_layout p) (pr_release p)) (\<lambda>_.
     io_bind (installed_versions fl (pr_layout p)) (\<lambda>vs.
       prune_older fl (pr_layout p) (case pr_previous p of Some v \<Rightarrow> v | None \<Rightarrow> pr_release p) vs))"

definition roll_back_release ::
    "faults \<Rightarrow> (string \<Rightarrow> nat list option) \<Rightarrow> (nat list \<Rightarrow> string) \<Rightarrow> probation \<Rightarrow> unit updater_io" where
  "roll_back_release fl bans_json to_json p =
     io_bind (io_query (current_release_version (pr_layout p))) (\<lambda>current.
     if current \<noteq> Some (pr_release p) then io_return ()
     else rollback fl bans_json to_json (pr_layout p) (pr_ban_list p) (pr_previous p) (pr_release p))"

subsection \<open>Who is on probation\<close>

lemma triple_pointwise: "(\<And>d0. P d0 \<Longrightarrow> triple (\<lambda>d. d = d0) m Q) \<Longrightarrow> triple P m Q"
  by (simp add: triple_def)

lemma load_bans_reads: "triple (\<lambda>d. d = d0) (load_bans fl bans_json p) (\<lambda>_ d. d = d0)"
  unfolding load_bans_def sys_read_def
  by (rule triple_try, rule triple_call [where Q = "\<lambda>_ d. d = d0"]) (auto simp: d_read_def unharmed_def intro!: triple_of)

lemma installed_versions_reads: "triple (\<lambda>d. d = d0) (installed_versions fl l) (\<lambda>_ d. d = d0)"
  unfolding installed_versions_def sys_read_dir_def
  by (rule triple_try, rule triple_call [where Q = "\<lambda>_ d. d = d0"])
    (auto simp: d_read_dir_def unharmed_def split: sum.split intro!: triple_return triple_query)

lemma rollback_target_older:
  "triple (\<lambda>d. d = d0) (rollback_target fl l v banned)
     (\<lambda>r d. d = d0 \<and> (\<forall>w. r = Inr (Some w) \<longrightarrow> w < v \<and> \<not> is_banned banned w \<and> healthy_at l w d0))"
  unfolding rollback_target_def
  by (rule triple_bind [OF installed_versions_reads])
    (auto intro!: triple_query simp: pick_target_def find_Some_iff)

text \<open>
  Only an unproven current release is put on probation, and only a proven one is its way back.
  A probation is started exactly for the release whose directory holds the executable, and then
  that release is the one \<open>current\<close> points at and has no health mark; the release to return to is
  older, past its own health check and not on the ban list that was read. The disk is not touched.
\<close>

theorem probation_is_for_unproven_current:
  assumes "detect fl bans_json now exe s = (Inr (Some p) :: updater_error + probation option, s')"
  shows "release_of_exe exe = Some (pr_layout p, pr_release p) \<and> os_disk s' = os_disk s \<and>
    current_release_version (pr_layout p) (os_disk s) = Some (pr_release p) \<and>
    \<not> healthy_at (pr_layout p) (pr_release p) (os_disk s) \<and>
    (\<forall>w. pr_previous p = Some w \<longrightarrow> w < pr_release p \<and> healthy_at (pr_layout p) w (os_disk s))"
proof -
  obtain l v where exe: "release_of_exe exe = Some (l, v)"
    using assms by (cases "release_of_exe exe") (auto simp: detect_def io_return_def)
  let ?d = "os_disk s"
  let ?post = "\<lambda>(r :: updater_error + probation option) d. d = ?d \<and> (\<forall>p. r = Inr (Some p) \<longrightarrow> pr_layout p = l \<and> pr_release p = v \<and>
      current_release_version l ?d = Some v \<and> \<not> healthy_at l v ?d \<and>
      (\<forall>w. pr_previous p = Some w \<longrightarrow> w < v \<and> healthy_at l w ?d))"
  let ?bans = "base_dir l @ [BANS_NAME]"
  have last: "triple (\<lambda>d. d = ?d) (io_bind (rollback_target fl l v b) (\<lambda>previous.
      io_return (Some \<lparr>pr_layout = l, pr_ban_list = ?bans, pr_release = v, pr_previous = previous,
                       pr_started = now, pr_deadline = PROBATION_DEADLINE\<rparr>))) ?post"
    if "current_release_version l ?d = Some v" "\<not> healthy_at l v ?d" for b
    by (rule triple_bind [OF rollback_target_older]) (use that in \<open>auto intro!: triple_return\<close>)
  have "triple (\<lambda>d. d = ?d) (detect fl bans_json now exe) ?post"
    unfolding detect_def exe option.case prod.case Let_def
  proof (rule triple_bind [OF triple_query_eq])
    fix settled
    show "triple (\<lambda>d. d = ?d \<and> Inr settled = Inr (healthy_at l v ?d \<or> current_release_version l ?d \<noteq> Some v))
      (if settled then io_return None else io_try (load_bans fl bans_json ?bans) (\<lambda>loaded.
         io_bind (rollback_target fl l v (case loaded of Inr b \<Rightarrow> b | Inl _ \<Rightarrow> [])) (\<lambda>previous.
           io_return (Some \<lparr>pr_layout = l, pr_ban_list = ?bans, pr_release = v, pr_previous = previous,
                            pr_started = now, pr_deadline = PROBATION_DEADLINE\<rparr>)))) ?post"
    proof (cases "settled \<or> healthy_at l v ?d \<or> current_release_version l ?d \<noteq> Some v")
      case True
      then show ?thesis by (cases settled) (auto simp: triple_def io_return_def)
    next
      case False
      then have state: "current_release_version l ?d = Some v" "\<not> healthy_at l v ?d" and "\<not> settled" by auto
      have "triple (\<lambda>d. d = ?d) (io_try (load_bans fl bans_json ?bans) (\<lambda>loaded.
         io_bind (rollback_target fl l v (case loaded of Inr b \<Rightarrow> b | Inl _ \<Rightarrow> [])) (\<lambda>previous.
           io_return (Some \<lparr>pr_layout = l, pr_ban_list = ?bans, pr_release = v, pr_previous = previous,
                            pr_started = now, pr_deadline = PROBATION_DEADLINE\<rparr>)))) ?post"
        by (rule triple_try [OF load_bans_reads]) (rule last [OF state])
      then show ?thesis unfolding if_not_P [OF \<open>\<not> settled\<close>] by (rule triple_weaken)
    qed
  qed simp
  from triple_use [OF this refl assms] show ?thesis using exe by simp
qed

subsection \<open>Proving a release\<close>

definition marker_of :: "layout \<Rightarrow> nat \<Rightarrow> path" where
  "marker_of l v = version_dir l v @ [HEALTHY_MARKER]"

definition marker_tmp :: "layout \<Rightarrow> nat \<Rightarrow> path" where
  "marker_tmp l v = version_dir l v @ [HEALTHY_MARKER @ ''.tmp'']"

text \<open>The release tree of \<open>v\<close> is a real directory of a sound installation.\<close>

definition release_tree :: "layout \<Rightarrow> nat \<Rightarrow> disk \<Rightarrow> bool" where
  "release_tree l v d \<longleftrightarrow> installed_ok l d \<and> node_at d (versions_dir l) = Some Dir \<and> node_at d (version_dir l v) = Some Dir"

lemma in_tree:
  assumes "release_tree l v d" and "plain_name x"
  shows "locate d (version_dir l v @ [x]) = Inr (version_dir l v @ [x])"
    "follow_path d (version_dir l v @ [x]) = Inr (version_dir l v @ [x])"
proof -
  let ?p = "version_dir l v @ [x]"
  have plain: "list_all plain_name ?p"
    using in_area_plain [OF version_in_area [of l d v]] assms by (simp add: release_tree_def)
  have dirs: "node_at d q = Some Dir" if "strict_prefix q ([] @ ?p)" for q
  proof -
    have "prefix q (version_dir l v)" using that by (auto simp: strict_prefix_def)
    then have "strict_prefix q (versions_dir l) \<or> q = versions_dir l \<or> q = version_dir l v"
      by (auto simp: version_dir_def strict_prefix_def)
    then show ?thesis using assms(1) by (auto simp: release_tree_def installed_ok_def area_ok_def)
  qed
  have no_link: "node_at d ([] @ ?p) \<noteq> Some (Symlink t)" for t
    using assms(1) by (auto simp: release_tree_def installed_ok_def area_ok_def version_dir_def)
  show "locate d ?p = Inr ?p" "follow_path d ?p = Inr ?p"
    unfolding locate_def follow_path_def
    using walk_through_dirs [OF plain, of "[]" d False] walk_through_dirs [OF plain, of "[]" d True] dirs no_link by auto
qed

lemma marker_names:
  "plain_name HEALTHY_MARKER" "plain_name (HEALTHY_MARKER @ ''.tmp'')" "marker_tmp l v \<noteq> marker_of l v"
  "marker_of l v \<noteq> []" "marker_tmp l v \<noteq> []" "\<not> prefix (marker_tmp l v) (marker_of l v)"
  by (auto simp: HEALTHY_MARKER_def plain_name_def marker_of_def marker_tmp_def)

lemma healthy_in_tree: "release_tree l v d \<Longrightarrow> healthy_at l v d \<longleftrightarrow> (\<exists>b. node_at d (marker_of l v) = Some (File b))"
  using in_tree(2) [OF _ marker_names(1), of l v d]
  by (auto simp: healthy_at_def file_exists_def node_of_def marker_of_def split: option.splits node.splits)

text \<open>Between the two disks only the marker and its temporary name differ, and no link appears.\<close>

definition marking :: "layout \<Rightarrow> nat \<Rightarrow> disk \<Rightarrow> disk \<Rightarrow> bool" where
  "marking l v d0 d \<longleftrightarrow> (\<forall>q. q \<noteq> marker_of l v \<longrightarrow> q \<noteq> marker_tmp l v \<longrightarrow> node_at d q = node_at d0 q)
     \<and> (\<forall>t. node_at d (marker_of l v) \<noteq> Some (Symlink t) \<and> node_at d (marker_tmp l v) \<noteq> Some (Symlink t))"

lemma marking_tree:
  assumes "marking l v d0 d" and "release_tree l v d0"
  shows "release_tree l v d"
proof -
  have out: "q \<noteq> marker_of l v \<and> q \<noteq> marker_tmp l v" if "prefix q (version_dir l v)" for q
    using that prefix_length_le by (fastforce simp: marker_of_def marker_tmp_def)
  have "area_ok (versions_dir l) UNIV d"
    unfolding area_ok_def
  proof (intro conjI allI impI)
    show "node_at d q = Some Dir" if "strict_prefix q (versions_dir l)" for q
      using that assms out [of q] by (auto simp: marking_def release_tree_def installed_ok_def area_ok_def version_dir_def strict_prefix_def)
    show "node_at d q \<noteq> Some (Symlink t)" if "prefix (versions_dir l) q \<and> q \<in> UNIV" for q t
      using that assms by (cases "q = marker_of l v \<or> q = marker_tmp l v") (auto simp: marking_def release_tree_def installed_ok_def area_ok_def)
  qed (use assms in \<open>auto simp: release_tree_def installed_ok_def area_ok_def\<close>)
  then show ?thesis using assms out [of "versions_dir l"] out [of "version_dir l v"]
    by (auto simp: release_tree_def installed_ok_def marking_def version_dir_def)
qed

lemma marking_write:
  assumes "marking l v d0 d" and "release_tree l v d0"
  shows "marking l v d0 (fst (d_write (marker_tmp l v) b d))"
    "snd (d_write (marker_tmp l v) b d) = Inr () \<Longrightarrow> node_at (fst (d_write (marker_tmp l v) b d)) (marker_tmp l v) = Some (File b)"
proof -
  have "follow_path d (marker_tmp l v) = Inr (marker_tmp l v)"
    unfolding marker_tmp_def by (rule in_tree [OF marking_tree [OF assms] marker_names(2)])
  then show "marking l v d0 (fst (d_write (marker_tmp l v) b d))"
    "snd (d_write (marker_tmp l v) b d) = Inr () \<Longrightarrow> node_at (fst (d_write (marker_tmp l v) b d)) (marker_tmp l v) = Some (File b)"
    using assms(1) marker_names(3-5) [of l v]
    by (auto simp: d_write_def marking_def node_at_put split: option.splits node.splits)
qed

lemma marking_rename:
  assumes "marking l v d0 d" and "release_tree l v d0" and "node_at d (marker_tmp l v) = Some (File b)"
  shows "marking l v d0 (fst (d_rename (marker_tmp l v) (marker_of l v) d))"
    "snd (d_rename (marker_tmp l v) (marker_of l v) d) = Inr () \<Longrightarrow>
       node_at (fst (d_rename (marker_tmp l v) (marker_of l v) d)) (marker_of l v) = Some (File b)"
proof -
  have "locate d (marker_tmp l v) = Inr (marker_tmp l v)" "locate d (marker_of l v) = Inr (marker_of l v)"
    unfolding marker_tmp_def marker_of_def
    by (rule in_tree [OF marking_tree [OF assms(1,2)]], rule marker_names)+
  then show "marking l v d0 (fst (d_rename (marker_tmp l v) (marker_of l v) d))"
    "snd (d_rename (marker_tmp l v) (marker_of l v) d) = Inr () \<Longrightarrow>
       node_at (fst (d_rename (marker_tmp l v) (marker_of l v) d)) (marker_of l v) = Some (File b)"
    using assms(1,3) marker_names(3-6) [of l v]
    by (auto simp: d_rename_def marking_def move_node_def node_at_put node_at_drop_node split: option.splits node.splits)
qed

lemma mark_healthy_spec:
  assumes "release_tree l v d0"
  shows "triple (marking l v d0) (mark_healthy fl l v)
    (\<lambda>r d. marking l v d0 d \<and> (r = Inr () \<longrightarrow> healthy_at l v d))"
proof -
  have filled: "triple (marking l v d0) (sys_write fl (marker_tmp l v) [])
      (\<lambda>r d. marking l v d0 d \<and> (r = Inr () \<longrightarrow> node_at d (marker_tmp l v) = Some (File [])))"
    unfolding sys_write_def
    by (rule triple_call) (use marking_write [OF _ assms] in \<open>auto simp: partly_written_def split: option.split\<close>)
  have rename: "triple (\<lambda>d. marking l v d0 d \<and> node_at d (marker_tmp l v) = Some (File []))
      (sys_rename fl (marker_tmp l v) (marker_of l v)) (\<lambda>r d. marking l v d0 d \<and> (r = Inr () \<longrightarrow> healthy_at l v d))"
    unfolding sys_rename_def
    by (rule triple_call) (use marking_rename [OF _ assms] healthy_in_tree [OF marking_tree [OF _ assms]] in \<open>auto simp: unharmed_def\<close>)
  have renamed: "triple (\<lambda>d. marking l v d0 d \<and> node_at d (marker_tmp l v) = Some (File []))
      (io_map_err e (sys_rename fl (marker_tmp l v) (marker_of l v)))
      (\<lambda>r d. marking l v d0 d \<and> (r = Inr () \<longrightarrow> healthy_at l v d))" for e :: "io_error \<Rightarrow> updater_error"
    by (rule triple_map_err [OF rename]) auto
  have wrote: "triple (marking l v d0) (io_map_err e (sys_write fl (marker_tmp l v) []))
      (\<lambda>r d. marking l v d0 d \<and> (r = Inr () \<longrightarrow> node_at d (marker_tmp l v) = Some (File [])))" for e :: "io_error \<Rightarrow> updater_error"
    by (rule triple_map_err [OF filled]) auto
  show ?thesis
    unfolding mark_healthy_def Let_def marker_of_def [symmetric] marker_tmp_def [symmetric]
    by (rule triple_bind [OF wrote], rule triple_conseq [OF renamed]) auto
qed

lemma show_nat_inj: "show_nat a = show_nat b \<longleftrightarrow> a = b"
  by (metis option.inject read_digits_show_nat)

lemma version_dirs_apart: "prefix (version_dir l v) q \<Longrightarrow> prefix (version_dir l w) q \<Longrightarrow> v = w"
  by (auto simp: version_dir_def prefix_def show_nat_inj)

text \<open>Only release trees below \<open>k\<close> have changed since \<open>d0\<close>.\<close>

definition pruned :: "layout \<Rightarrow> nat \<Rightarrow> disk \<Rightarrow> disk \<Rightarrow> bool" where
  "pruned l k d0 d \<longleftrightarrow> installed_ok l d \<and> node_at d (versions_dir l) = Some Dir
     \<and> (\<forall>q. (\<forall>v<k. \<not> prefix (version_dir l v) q) \<longrightarrow> node_at d q = node_at d0 q)"

lemma prune_in_tree:
  assumes "in_area (version_dir l v) UNIV (version_dir l v)"
  shows "keeps (version_dir l v) UNIV (prune fl l v)"
  unfolding prune_def Let_def
  by (rule keeps_try [OF keeps_sys_remove_dir_all [OF assms]])
    (auto intro!: area_rules split: sum.split io_error.split)

lemma prune_pruned:
  assumes "v < k"
  shows "triple (pruned l k d0) (prune fl l v) (\<lambda>_. pruned l k d0)"
  unfolding triple_def
proof (intro allI impI)
  fix s :: os assume s: "pruned l k d0 (os_disk s)"
  let ?d = "os_disk s" and ?d' = "os_disk (snd (prune fl l v s))" and ?t = "version_dir l v"
  have installed: "installed_ok l ?d" using s by (simp add: pruned_def)
  have plain: "list_all plain_name ?t" using in_area_plain [OF version_in_area [OF installed]] .
  have above: "strict_prefix q ?t \<longleftrightarrow> strict_prefix q (versions_dir l) \<or> q = versions_dir l" for q
    by (auto simp: version_dir_def strict_prefix_def dest: prefix_length_le)
  have "area_ok ?t UNIV ?d"
    unfolding area_ok_def above using s installed plain
    by (auto simp: area_ok_def pruned_def installed_ok_def version_dir_def dest: append_prefixD)
  moreover have "in_area ?t UNIV ?t" using plain by (simp add: in_area_def)
  ultimately have step: "area_step ?t UNIV ?d ?d'" using prune_in_tree by (simp add: keeps_def)
  have out: "node_at ?d' q = node_at ?d q" if "\<not> prefix ?t q" for q using step that by (simp add: area_step_def)
  have top: "\<not> prefix ?t q" if "prefix q (versions_dir l)" for q
    using prefix_length_le [OF that] by (auto simp: version_dir_def dest: prefix_length_le)
  have "area_ok (versions_dir l) UNIV ?d'"
    unfolding area_ok_def
  proof (intro conjI allI impI)
    show "node_at ?d' q \<noteq> Some (Symlink t)" if "prefix (versions_dir l) q \<and> q \<in> UNIV" for q t
      using that step installed out [of q] by (cases "prefix ?t q") (auto simp: area_step_def area_ok_def installed_ok_def)
    show "node_at ?d' q = Some Dir" if "strict_prefix q (versions_dir l)" for q
      using that installed out [of q] top [of q] by (auto simp: area_ok_def installed_ok_def strict_prefix_def)
  qed (use installed in \<open>auto simp: area_ok_def installed_ok_def\<close>)
  then show "pruned l k d0 ?d'"
    using s out top [of "versions_dir l"] assms by (auto simp: pruned_def installed_ok_def)
qed

lemma prune_older_pruned: "triple (pruned l k d0) (prune_older fl l k vs) (\<lambda>r d. pruned l k d0 d \<and> r = Inr ())"
proof (induction vs)
  case (Cons v vs)
  have "triple (pruned l k d0) (io_try (prune fl l v) (\<lambda>_. prune_older fl l k vs)) (\<lambda>r d. pruned l k d0 d \<and> r = Inr ())"
    if "v < k" by (rule triple_try [OF prune_pruned [OF that]]) (rule Cons.IH)
  then show ?case using Cons.IH by simp
qed (auto intro: triple_return)

definition way_back :: "probation \<Rightarrow> nat" where
  "way_back p = (case pr_previous p of Some v \<Rightarrow> v | None \<Rightarrow> pr_release p)"

lemma prove_release_spec:
  assumes "release_tree (pr_layout p) (pr_release p) d0" and "way_back p \<le> pr_release p"
  shows "triple (\<lambda>d. d = d0) (prove_release fl p)
    (\<lambda>r d. \<exists>d1. marking (pr_layout p) (pr_release p) d0 d1 \<and> (d = d1 \<or> pruned (pr_layout p) (way_back p) d1 d) \<and>
      (r = Inr () \<longrightarrow> healthy_at (pr_layout p) (pr_release p) d))"
    (is "triple _ _ ?post")
proof -
  let ?l = "pr_layout p" and ?v = "pr_release p" and ?k = "way_back p"
  have start: "marking ?l ?v d0 d0"
    using assms(1) by (auto simp: marking_def release_tree_def installed_ok_def area_ok_def marker_of_def marker_tmp_def version_dir_def)
  have mark: "triple (\<lambda>d. d = d0) (mark_healthy fl ?l ?v) (\<lambda>r d. marking ?l ?v d0 d \<and> (r = Inr () \<longrightarrow> healthy_at ?l ?v d))"
    by (rule triple_conseq [OF mark_healthy_spec [OF assms(1)]]) (use start in auto)
  have keeps_mark: "healthy_at ?l ?v d" if "marking ?l ?v d0 d1" "healthy_at ?l ?v d1" "pruned ?l ?k d1 d" for d1 d
  proof -
    have same: "node_at d q = node_at d1 q" if "prefix (version_dir ?l ?v) q" for q
    proof -
      have "\<not> prefix (version_dir ?l w) q" if "w < ?k" for w
        using version_dirs_apart [of ?l w q ?v] \<open>prefix (version_dir ?l ?v) q\<close> that assms(2) by auto
      then show ?thesis using \<open>pruned ?l ?k d1 d\<close> by (simp add: pruned_def)
    qed
    have tree: "release_tree ?l ?v d1" by (rule marking_tree [OF that(1) assms(1)])
    then have "release_tree ?l ?v d" using that(3) same [of "version_dir ?l ?v"] by (simp add: release_tree_def pruned_def)
    then show ?thesis using healthy_in_tree tree that(2) same [of "marker_of ?l ?v"] by (simp add: marker_of_def)
  qed
  have prune: "triple (\<lambda>d. d = d1) (prune_older fl ?l ?k vs) ?post" if "marking ?l ?v d0 d1" "healthy_at ?l ?v d1" for d1 vs
    by (rule triple_conseq [OF prune_older_pruned [of ?l ?k d1 fl vs]])
      (use that keeps_mark marking_tree [OF that(1) assms(1)] in \<open>auto simp: pruned_def release_tree_def\<close>)
  have rest: "triple (\<lambda>d. d = d1) (io_bind (installed_versions fl ?l) (\<lambda>vs. prune_older fl ?l ?k vs)) ?post"
    if "marking ?l ?v d0 d1" "healthy_at ?l ?v d1" for d1
    by (rule triple_bind [OF installed_versions_reads prune [OF that]]) (use that in auto)
  show ?thesis
    unfolding prove_release_def way_back_def [symmetric]
  proof (rule triple_bind [OF mark])
    fix u show "triple (\<lambda>d. marking ?l ?v d0 d \<and> (Inr u = Inr () \<longrightarrow> healthy_at ?l ?v d))
        (io_bind (installed_versions fl ?l) (\<lambda>vs. prune_older fl ?l ?k vs)) ?post"
      by (rule triple_pointwise) (use rest in simp)
  qed auto
qed

text \<open>
  C17: Proving a release keeps the way back. When it succeeds the release carries its health mark;
  on every outcome nothing outside \<open>versions\<close> changes, so \<open>current\<close> and the ban list stay, and in
  the release to return to, in the proven one and in every newer one nothing but the mark of the
  proven release and the temporary name it is renamed from has changed: only older releases are deleted.
\<close>

theorem proving_keeps_the_way_back:
  assumes "release_tree (pr_layout p) (pr_release p) (os_disk s)" and "way_back p \<le> pr_release p"
    and "prove_release fl p s = (r, s')"
  shows "(r = Inr () \<longrightarrow> healthy_at (pr_layout p) (pr_release p) (os_disk s')) \<and>
    (\<forall>q. \<not> prefix (versions_dir (pr_layout p)) q \<longrightarrow> node_at (os_disk s') q = node_at (os_disk s) q) \<and>
    (\<forall>v q. way_back p \<le> v \<and> prefix (version_dir (pr_layout p) v) q \<and> q \<noteq> marker_of (pr_layout p) (pr_release p) \<and>
       q \<noteq> marker_tmp (pr_layout p) (pr_release p) \<longrightarrow> node_at (os_disk s') q = node_at (os_disk s) q)"
proof -
  let ?l = "pr_layout p" and ?v = "pr_release p" and ?k = "way_back p"
  obtain d1 where d1: "marking ?l ?v (os_disk s) d1" "os_disk s' = d1 \<or> pruned ?l ?k d1 (os_disk s')"
      and healthy: "r = Inr () \<longrightarrow> healthy_at ?l ?v (os_disk s')"
    using triple_use [OF prove_release_spec [OF assms(1,2)] refl assms(3)] by blast
  have same: "node_at (os_disk s') q = node_at (os_disk s) q"
    if "\<forall>v<?k. \<not> prefix (version_dir ?l v) q" "q \<noteq> marker_of ?l ?v" "q \<noteq> marker_tmp ?l ?v" for q
    using d1 that by (auto simp: marking_def pruned_def)
  have below: "prefix (versions_dir ?l) q" if "prefix (version_dir ?l v) q" for v q
    using that by (auto simp: version_dir_def dest: append_prefixD)
  have markers: "prefix (version_dir ?l ?v) (marker_of ?l ?v)" "prefix (version_dir ?l ?v) (marker_tmp ?l ?v)"
    by (simp_all add: marker_of_def marker_tmp_def)
  have apart: "\<forall>w<?k. \<not> prefix (version_dir ?l w) q" if "?k \<le> v" "prefix (version_dir ?l v) q" for v q
    using that version_dirs_apart by (metis not_less)
  have outside: "node_at (os_disk s') q = node_at (os_disk s) q" if "\<not> prefix (versions_dir ?l) q" for q
    by (rule same) (use that below markers in blast)+
  have kept: "node_at (os_disk s') q = node_at (os_disk s) q"
    if "?k \<le> v \<and> prefix (version_dir ?l v) q \<and> q \<noteq> marker_of ?l ?v \<and> q \<noteq> marker_tmp ?l ?v" for v q
    by (rule same) (use that apart in blast)+
  show ?thesis using healthy outside kept by blast
qed

subsection \<open>Sample runs\<close>

definition sample_exe :: path where
  "sample_exe = [''var'', ''versions'', ''v2'', ''watchdog'']"

theorem probation_is_for_unproven_current_witness:
  "\<exists>p s'. detect (\<lambda>_. None) sample_from_json 7 sample_exe sample_os = (Inr (Some p) :: updater_error + probation option, s') \<and>
     \<not> healthy_at (pr_layout p) (pr_release p) (os_disk sample_os)"
proof -
  let ?run = "detect (\<lambda>_. None) sample_from_json 7 sample_exe sample_os :: (updater_error + probation option) \<times> os"
  have "(case fst ?run of Inr (Some p) \<Rightarrow> True | _ \<Rightarrow> False)" by code_simp
  then obtain p where "fst ?run = Inr (Some p)" by (auto split: sum.splits option.splits)
  then have run: "?run = (Inr (Some p), snd ?run)" by (simp add: prod_eq_iff)
  then show ?thesis using probation_is_for_unproven_current [OF run] by blast
qed

definition sample_probation :: probation where
  "sample_probation = \<lparr>pr_layout = sample_layout, pr_ban_list = sample_bans, pr_release = 2, pr_previous = Some 1,
     pr_started = 7, pr_deadline = PROBATION_DEADLINE\<rparr>"

theorem proving_keeps_the_way_back_witness:
  "healthy_at sample_layout 2 (os_disk (snd (prove_release (\<lambda>_. None) sample_probation sample_os)))"
proof -
  let ?run = "prove_release (\<lambda>_. None) sample_probation sample_os"
  have "node_at (os_disk sample_os) (versions_dir sample_layout) = Some Dir"
    "node_at (os_disk sample_os) (version_dir sample_layout 2) = Some Dir" by code_simp+
  then have tree: "release_tree (pr_layout sample_probation) (pr_release sample_probation) (os_disk sample_os)"
    using sample_installed by (simp add: release_tree_def sample_probation_def)
  have ok: "fst ?run = Inr ()" by code_simp
  then have run: "?run = (Inr (), snd ?run)" by (simp add: prod_eq_iff)
  have "way_back sample_probation \<le> pr_release sample_probation" by (simp add: way_back_def sample_probation_def)
  from proving_keeps_the_way_back [OF tree this run] show ?thesis by (simp add: sample_probation_def)
qed

end
