(* ===== verification/Watchdog.thy ===== *)
theory Watchdog
  imports Rollback "HOL-Library.Code_Target_Nat"
begin

text \<open>
  The parts the supervision loop of \<open>watchdog/src/supervise.rs\<close> is built from: the restart
  \<open>Backoff\<close>, the \<open>HeartbeatMonitor\<close>, the pinned binary of \<open>watchdog/src/tamper.rs\<close>, the service
  definition of \<open>watchdog/src/service/linux.rs\<close> and the derived paths of \<open>watchdog/src/paths.rs\<close>.
  Durations are nanoseconds; delays are seconds, as in the code.
\<close>

subsection \<open>Backoff\<close>

definition FAST_CRASH_THRESHOLD :: nat where
  "FAST_CRASH_THRESHOLD = 10 * 1000000000"

definition BACKOFF_CAP_SECS :: nat where
  "BACKOFF_CAP_SECS = 300"

definition POLL_TICK_MS :: nat where
  "POLL_TICK_MS = 500"

record backoff =
  bo_floor :: nat
  bo_current :: nat

datatype exit_class = FastCrash | Healthy

definition sat_mul :: "nat \<Rightarrow> nat \<Rightarrow> nat" where
  "sat_mul a b = min (a * b) u64_max"

definition backoff_new :: "nat \<Rightarrow> backoff" where
  "backoff_new delay = \<lparr>bo_floor = delay, bo_current = max delay 1\<rparr>"

definition record_exit :: "nat \<Rightarrow> backoff \<Rightarrow> (nat \<times> exit_class) \<times> backoff" where
  "record_exit uptime b =
     (if uptime < FAST_CRASH_THRESHOLD
      then ((bo_current b, FastCrash), b\<lparr>bo_current := min (sat_mul (bo_current b) 2) BACKOFF_CAP_SECS\<rparr>)
      else ((bo_floor b, Healthy), b\<lparr>bo_current := bo_floor b\<rparr>))"

subsection \<open>The heartbeat monitor\<close>

record heartbeat_monitor =
  hm_path :: path
  ticks_per_check :: nat
  miss_limit :: nat
  ticks_since_check :: nat
  last_value :: "nat option"
  misses :: nat
  progressed :: bool

text \<open>The division is done on 128 bits and then cut to 32.\<close>

definition hm_new :: "path \<Rightarrow> nat \<Rightarrow> nat \<Rightarrow> heartbeat_monitor" where
  "hm_new p interval_ms limit =
     \<lparr>hm_path = p, ticks_per_check = max ((interval_ms div POLL_TICK_MS) mod 2 ^ 32) 1, miss_limit = max limit 1,
      ticks_since_check = 0, last_value = None, misses = 0, progressed = False\<rparr>"

definition observe :: "nat option \<Rightarrow> heartbeat_monitor \<Rightarrow> bool \<times> heartbeat_monitor" where
  "observe current m =
     (let m' = (case current of
                  None \<Rightarrow> m
                | Some v \<Rightarrow> if last_value m = Some v then m\<lparr>misses := misses m + 1\<rparr>
                            else m\<lparr>progressed := (progressed m \<or> last_value m \<noteq> None), last_value := Some v, misses := 0\<rparr>)
      in (misses m' \<ge> miss_limit m', m'))"

definition read_heartbeat :: "faults \<Rightarrow> path \<Rightarrow> ('e, nat option) io" where
  "read_heartbeat fl p =
     io_try (sys_read fl p) (\<lambda>r. io_return (case r of Inl _ \<Rightarrow> None | Inr t \<Rightarrow> parse_u64 (trim t)))"

definition tick :: "faults \<Rightarrow> heartbeat_monitor \<Rightarrow> ('e, bool \<times> heartbeat_monitor) io" where
  "tick fl m =
     (let m1 = m\<lparr>ticks_since_check := ticks_since_check m + 1\<rparr>
      in if ticks_since_check m1 < ticks_per_check m1 then io_return (False, m1)
         else io_bind (read_heartbeat fl (hm_path m)) (\<lambda>r. io_return (observe r (m1\<lparr>ticks_since_check := 0\<rparr>))))"

subsection \<open>The pinned binary\<close>

definition sha256_file :: "faults \<Rightarrow> (string \<Rightarrow> string) \<Rightarrow> path \<Rightarrow> (io_error, string) io" where
  "sha256_file fl sha256 p = io_bind (sys_read fl p) (\<lambda>bytes. io_return (sha256 bytes))"

record binary_pin =
  bp_path :: path
  bp_digest :: string

definition pin_binary :: "faults \<Rightarrow> (string \<Rightarrow> string) \<Rightarrow> path \<Rightarrow> (io_error, binary_pin) io" where
  "pin_binary fl sha256 p =
     io_bind (sha256_file fl sha256 p) (\<lambda>digest. io_return \<lparr>bp_path = p, bp_digest = digest\<rparr>)"

definition pin_verify :: "faults \<Rightarrow> (string \<Rightarrow> string) \<Rightarrow> binary_pin \<Rightarrow> ('e, bool) io" where
  "pin_verify fl sha256 pin =
     io_try (sha256_file fl sha256 (bp_path pin)) (\<lambda>r.
       io_return (case r of Inr current \<Rightarrow> current = bp_digest pin | Inl _ \<Rightarrow> False))"

subsection \<open>The installed service definition\<close>

definition path_of :: "string \<Rightarrow> path" where
  "path_of p = components p"

definition display_path :: "path \<Rightarrow> string" where
  "display_path p = concat (map (\<lambda>c. CHR ''/'' # c) p)"

definition SYSTEMD_UNIT :: path where
  "SYSTEMD_UNIT = path_of ''/etc/systemd/system/synthaea-agent.service''"

definition OPENRC_SCRIPT :: path where
  "OPENRC_SCRIPT = path_of ''/etc/init.d/synthaea-agent''"

definition SYSTEMD_ENABLE_LINK :: path where
  "SYSTEMD_ENABLE_LINK = path_of ''/etc/systemd/system/multi-user.target.wants/synthaea-agent.service''"

definition OPENRC_ENABLE_LINK :: path where
  "OPENRC_ENABLE_LINK = path_of ''/etc/runlevels/default/synthaea-agent''"

datatype init_system = Systemd | OpenRc

definition path_exists :: "disk \<Rightarrow> path \<Rightarrow> bool" where
  "path_exists d p \<longleftrightarrow> node_of d (follow_path d p) \<noteq> None"

definition detect_init_system :: "disk \<Rightarrow> init_system option" where
  "detect_init_system d =
     (if path_exists d (path_of ''/run/systemd/system'') then Some Systemd
      else if path_exists d (path_of ''/sbin/openrc-run'') then Some OpenRc
      else None)"

record definition_snapshot =
  definition_path :: path
  enable_link :: path
  ds_digest :: "string option"
  ds_enabled :: bool

text \<open>The snapshot, or \<open>None\<close> where the code returns an error.\<close>

definition snapshot_definition :: "faults \<Rightarrow> (string \<Rightarrow> string) \<Rightarrow> ('e, definition_snapshot option) io" where
  "snapshot_definition fl sha256 =
     io_bind (io_query detect_init_system) (\<lambda>init.
     case init of
       None \<Rightarrow> io_return None
     | Some sys \<Rightarrow>
         (let (def_path, link) = (case sys of Systemd \<Rightarrow> (SYSTEMD_UNIT, SYSTEMD_ENABLE_LINK)
                                            | OpenRc \<Rightarrow> (OPENRC_SCRIPT, OPENRC_ENABLE_LINK))
          in io_try (sha256_file fl sha256 def_path) (\<lambda>digest.
             io_bind (io_query (\<lambda>d. path_exists d link)) (\<lambda>enabled.
             io_return (Some \<lparr>definition_path = def_path, enable_link = link,
               ds_digest = (case digest of Inr h \<Rightarrow> Some h | Inl _ \<Rightarrow> None), ds_enabled = enabled\<rparr>)))))"

definition drift_report :: "definition_snapshot \<Rightarrow> definition_snapshot \<Rightarrow> string list" where
  "drift_report baseline current =
     (case (ds_digest baseline, ds_digest current) of
        (Some b, Some c) \<Rightarrow>
          if b \<noteq> c then [''service definition '' @ display_path (definition_path current) @ '' was modified after the watchdog started'']
          else []
      | (Some _, None) \<Rightarrow> [''service definition '' @ display_path (definition_path current) @ '' was deleted after the watchdog started'']
      | _ \<Rightarrow> []) @
     (if ds_enabled baseline \<and> \<not> ds_enabled current
      then [''service was disabled ('' @ display_path (enable_link current) @ '' no longer exists)''] else [])"

subsection \<open>Paths and report lines\<close>

text \<open>\<open>Path::with_extension\<close>: the stem ends before the last dot that is not the first character.\<close>

definition file_stem :: "string \<Rightarrow> string" where
  "file_stem name =
     (let before = rev (tl (dropWhile (\<lambda>c. c \<noteq> CHR ''.'') (rev name)))
      in if CHR ''.'' \<in> set name \<and> before \<noteq> [] then before else name)"

definition with_extension :: "path \<Rightarrow> string \<Rightarrow> path" where
  "with_extension p ext =
     (case file_name p of None \<Rightarrow> p | Some name \<Rightarrow> butlast p @ [file_stem name @ ''.'' @ ext])"

definition heartbeat_path_for :: "path \<Rightarrow> path" where
  "heartbeat_path_for alerts = with_extension alerts ''heartbeat''"

definition escape_message :: "string \<Rightarrow> string" where
  "escape_message message =
     concat (map (\<lambda>c. if c = CHR 0x5C \<or> c = CHR 0x22 then [CHR 0x5C, c] else [c]) message)"

text \<open>The line \<open>report_self_protection_event\<close> appends to the alerts file.\<close>

definition self_protection_line :: "nat \<Rightarrow> string \<Rightarrow> string" where
  "self_protection_line now_ns message =
     [CHR 0x7B, CHR 0x22] @ ''timestamp_ns'' @ [CHR 0x22, CHR 0x3A] @ show_nat now_ns @
     [CHR 0x2C, CHR 0x22] @ ''technique'' @ [CHR 0x22, CHR 0x3A, CHR 0x22] @ ''SELF-PROTECTION'' @ [CHR 0x22, CHR 0x2C, CHR 0x22] @
     ''message'' @ [CHR 0x22, CHR 0x3A, CHR 0x22] @ escape_message message @ [CHR 0x22, CHR 0x7D, nl]"

subsection \<open>The backoff schedule\<close>

fun run_exits :: "nat list \<Rightarrow> backoff \<Rightarrow> nat list \<times> backoff" where
  "run_exits [] b = ([], b)"
| "run_exits (u # us) b =
     (let ((delay, _), b1) = record_exit u b; (delays, b2) = run_exits us b1 in (delay # delays, b2))"

abbreviation is_fast :: "nat \<Rightarrow> bool" where
  "is_fast u \<equiv> u < FAST_CRASH_THRESHOLD"

text \<open>The delay in front of a fast crash: the base doubled once per fast crash just before it,
  under the cap from the first doubling on.\<close>

definition crash_delay :: "nat \<Rightarrow> nat list \<Rightarrow> nat" where
  "crash_delay floor_secs before =
     (let k = length (takeWhile is_fast (rev before)); base = (if list_all is_fast before then max floor_secs 1 else floor_secs)
      in if k = 0 then base else min (base * 2 ^ k) BACKOFF_CAP_SECS)"

definition exit_delay :: "nat \<Rightarrow> nat list \<Rightarrow> nat \<Rightarrow> nat" where
  "exit_delay floor_secs before uptime = (if is_fast uptime then crash_delay floor_secs before else floor_secs)"

lemma doubled_cap: "min (sat_mul (min a BACKOFF_CAP_SECS) 2) BACKOFF_CAP_SECS = min (a * 2) BACKOFF_CAP_SECS"
  "min (sat_mul a 2) BACKOFF_CAP_SECS = min (a * 2) BACKOFF_CAP_SECS"
  by (auto simp: sat_mul_def BACKOFF_CAP_SECS_def u64_max_def min_def)

lemma record_exit_tracks:
  assumes "bo_floor b = f" and "bo_current b = crash_delay f before"
  shows "fst (fst (record_exit u b)) = exit_delay f before u"
    "bo_floor (snd (record_exit u b)) = f" "bo_current (snd (record_exit u b)) = crash_delay f (before @ [u])"
  using assms doubled_cap
  by (auto simp: record_exit_def exit_delay_def crash_delay_def Let_def mult.commute mult.left_commute)

lemma run_exits_tracks:
  assumes "bo_floor b = f" and "bo_current b = crash_delay f before"
  shows "fst (run_exits us b) = map (\<lambda>i. exit_delay f (before @ take i us) (us ! i)) [0..<length us]"
  using assms
proof (induction us arbitrary: b before)
  case (Cons u us)
  note step = record_exit_tracks [OF Cons.prems, of u]
  have "fst (run_exits (u # us) b) = exit_delay f before u # fst (run_exits us (snd (record_exit u b)))"
    using step(1) by (auto simp: Let_def split: prod.split)
  also have "fst (run_exits us (snd (record_exit u b))) =
      map (\<lambda>i. exit_delay f ((before @ [u]) @ take i us) (us ! i)) [0..<length us]"
    by (rule Cons.IH [OF step(2,3)])
  finally show ?case by (simp add: map_upt_Suc del: upt_Suc)
qed simp

text \<open>
  C36: The restart delays follow the documented schedule, with two exceptions the formula shows. An
  exit after at least ten seconds is followed by the configured delay; a fast crash by the base,
  doubled for every fast crash directly before it and capped at 300 seconds. The base is one
  second for a configured delay of zero, but only until the first long run: then it is zero and stays
  zero. The cap does not apply to the first delay, so a configured delay above 300 seconds shrinks.
\<close>

theorem backoff_schedule:
  "fst (run_exits uptimes (backoff_new floor_secs)) =
     map (\<lambda>i. exit_delay floor_secs (take i uptimes) (uptimes ! i)) [0..<length uptimes]"
  using run_exits_tracks [of "backoff_new floor_secs" floor_secs "[]"]
  by (simp add: backoff_new_def crash_delay_def)

subsection \<open>The monitor against its specification\<close>

text \<open>The readings a check sees: every \<open>n\<close>-th one, when there was one.\<close>

definition sampled :: "nat \<Rightarrow> 'a list \<Rightarrow> 'a list" where
  "sampled n rs = map (\<lambda>j. rs ! (Suc j * n - 1)) [0..<length rs div n]"

definition values_seen :: "nat \<Rightarrow> nat option list \<Rightarrow> nat list" where
  "values_seen n rs = List.map_filter (\<lambda>r. r) (sampled n rs)"

definition final_run :: "nat list \<Rightarrow> nat" where
  "final_run xs = length (takeWhile (\<lambda>x. x = last xs) (rev xs))"

definition repeats :: "nat list \<Rightarrow> nat" where
  "repeats xs = final_run xs - 1"

definition moved_once :: "nat list \<Rightarrow> bool" where
  "moved_once xs \<longleftrightarrow> (\<exists>x y. x \<in> set xs \<and> y \<in> set xs \<and> x \<noteq> y)"

definition monitor_abs :: "heartbeat_monitor \<Rightarrow> nat list \<Rightarrow> bool" where
  "monitor_abs m xs \<longleftrightarrow> last_value m = (if xs = [] then None else Some (last xs)) \<and> misses m = repeats xs
     \<and> (progressed m \<longleftrightarrow> moved_once xs)"

lemma final_run_snoc: "final_run (xs @ [v]) = (if xs \<noteq> [] \<and> last xs = v then final_run xs + 1 else 1)"
  by (cases xs rule: rev_cases) (auto simp: final_run_def)

lemma final_run_pos: "xs \<noteq> [] \<Longrightarrow> 0 < final_run xs"
  by (cases xs rule: rev_cases) (auto simp: final_run_def)

lemma moved_once_snoc: "moved_once (xs @ [v]) \<longleftrightarrow> moved_once xs \<or> xs \<noteq> [] \<and> last xs \<noteq> v"
proof (cases "xs = []")
  case False
  then have "last xs \<in> set xs" by simp
  moreover have "\<exists>x\<in>set xs. x \<noteq> v" if "last xs = v" "x \<in> set xs" "x \<noteq> v" for x using that by blast
  ultimately show ?thesis using False by (auto simp: moved_once_def) (metis last_in_set)+
qed (auto simp: moved_once_def)

definition saw :: "nat list \<Rightarrow> nat option \<Rightarrow> nat list" where
  "saw xs r = (case r of None \<Rightarrow> xs | Some v \<Rightarrow> xs @ [v])"

lemma observe_refines:
  assumes "monitor_abs m xs"
  shows "monitor_abs (snd (observe r m)) (saw xs r)" "fst (observe r m) \<longleftrightarrow> miss_limit m \<le> repeats (saw xs r)"
  using assms final_run_pos [of xs]
  by (auto simp: observe_def monitor_abs_def saw_def repeats_def final_run_snoc moved_once_snoc Let_def split: option.splits)

lemma observe_keeps [simp]:
  "miss_limit (snd (observe r m)) = miss_limit m" "ticks_per_check (snd (observe r m)) = ticks_per_check m"
  "hm_path (snd (observe r m)) = hm_path m" "ticks_since_check (snd (observe r m)) = ticks_since_check m"
  by (auto simp: observe_def Let_def split: option.splits)

text \<open>What the file says in a state, and one tick of the monitor in that state.\<close>

definition reading :: "faults \<Rightarrow> path \<Rightarrow> os \<Rightarrow> nat option" where
  "reading fl p s = (case fst (sys_read fl p s) of Inl _ \<Rightarrow> None | Inr t \<Rightarrow> parse_u64 (trim t))"

definition ticked :: "faults \<Rightarrow> os \<Rightarrow> heartbeat_monitor \<Rightarrow> bool \<times> heartbeat_monitor" where
  "ticked fl s m = (case fst (tick fl m s :: (io_error + bool \<times> heartbeat_monitor) \<times> os) of Inr x \<Rightarrow> x | Inl _ \<Rightarrow> (False, m))"

fun run_ticks :: "faults \<Rightarrow> os list \<Rightarrow> heartbeat_monitor \<Rightarrow> bool list \<times> heartbeat_monitor" where
  "run_ticks fl [] m = ([], m)"
| "run_ticks fl (s # ss) m =
     (let (hung, m1) = ticked fl s m; (rest, m2) = run_ticks fl ss m1 in (hung # rest, m2))"

lemma ticked_cases:
  "ticked fl s m =
     (if Suc (ticks_since_check m) < ticks_per_check m then (False, m\<lparr>ticks_since_check := Suc (ticks_since_check m)\<rparr>)
      else observe (reading fl (hm_path m) s) (m\<lparr>ticks_since_check := 0\<rparr>))"
  by (auto simp: ticked_def tick_def read_heartbeat_def reading_def io_defs Let_def split: prod.split sum.split)

lemma sampled_snoc:
  assumes "0 < n"
  shows "sampled n (rs @ [r]) = (if n dvd Suc (length rs) then sampled n rs @ [r] else sampled n rs)"
proof -
  have old: "map (\<lambda>j. (rs @ [r]) ! (Suc j * n - 1)) [0..<length rs div n] = sampled n rs"
    unfolding sampled_def
  proof (rule map_cong [OF refl])
    fix j assume "j \<in> set [0..<length rs div n]"
    then have "Suc j * n \<le> length rs" by (metis Suc_leI atLeastLessThan_iff div_times_less_eq_dividend le_trans mult_le_mono1 set_upt)
    then have "Suc j * n - 1 < length rs" using assms by (cases "Suc j * n") auto
    then show "(rs @ [r]) ! (Suc j * n - 1) = rs ! (Suc j * n - 1)" by (simp add: nth_append)
  qed
  show ?thesis
  proof (cases "n dvd Suc (length rs)")
    case True
    then obtain q where q: "Suc (length rs) = n * q" by (elim dvdE)
    then obtain q' where q': "q = Suc q'" by (cases q) auto
    have len: "length rs = q' * n + (n - 1)" using q q' assms by (simp add: algebra_simps)
    have "Suc (length rs) div n = Suc q'" using q q' assms by simp
    moreover have "length rs div n = q'" by (rule div_nat_eqI) (use len assms in \<open>simp_all add: mult.commute [of n q']\<close>)
    moreover have "Suc q' * n - 1 = length rs" using q q' by (simp add: algebra_simps)
    ultimately show ?thesis using True old by (simp add: sampled_def)
  next
    case False
    then have "Suc (length rs) div n = length rs div n" using assms by (simp add: div_Suc dvd_eq_mod_eq_0)
    then show ?thesis using False old by (simp add: sampled_def)
  qed
qed

lemma values_seen_snoc:
  "0 < n \<Longrightarrow> values_seen n (rs @ [r]) = (if n dvd Suc (length rs) then saw (values_seen n rs) r else values_seen n rs)"
  by (auto simp: values_seen_def sampled_snoc saw_def List.map_filter_def split: option.split)

lemma run_ticks_snoc:
  "run_ticks fl (ss @ [s]) m =
     (let (hs, m1) = run_ticks fl ss m; (h, m2) = ticked fl s m1 in (hs @ [h], m2))"
  by (induction ss arbitrary: m) (auto simp: Let_def split: prod.split)

lemma run_ticks_refines:
  fixes m0 defines "n \<equiv> ticks_per_check m0"
  assumes "0 < n" and "ticks_since_check m0 = 0" and "monitor_abs m0 []"
  shows "monitor_abs (snd (run_ticks fl ss m0)) (values_seen n (map (reading fl (hm_path m0)) ss)) \<and>
    ticks_since_check (snd (run_ticks fl ss m0)) = length ss mod n \<and>
    ticks_per_check (snd (run_ticks fl ss m0)) = n \<and> miss_limit (snd (run_ticks fl ss m0)) = miss_limit m0 \<and>
    hm_path (snd (run_ticks fl ss m0)) = hm_path m0 \<and>
    fst (run_ticks fl ss m0) = map (\<lambda>i. n dvd Suc i \<and>
      miss_limit m0 \<le> repeats (values_seen n (map (reading fl (hm_path m0)) (take (Suc i) ss)))) [0..<length ss]"
proof (induction ss rule: rev_induct)
  case Nil
  then show ?case using assms by (simp add: values_seen_def sampled_def List.map_filter_def)
next
  case (snoc s ss)
  let ?m = "snd (run_ticks fl ss m0)" and ?rs = "map (reading fl (hm_path m0)) ss"
  have due: "Suc (length ss mod n) < n \<longleftrightarrow> \<not> n dvd Suc (length ss)"
    using mod_less_divisor [OF assms(2), of "length ss"] by (auto simp: mod_Suc dvd_eq_mod_eq_0)
  have split: "run_ticks fl (ss @ [s]) m0 = (fst (run_ticks fl ss m0) @ [fst (ticked fl s ?m)], snd (ticked fl s ?m))"
    by (simp add: run_ticks_snoc Let_def split: prod.split)
  have earlier: "map (\<lambda>i. n dvd Suc i \<and> miss_limit m0 \<le> repeats (values_seen n (map (reading fl (hm_path m0)) (take (Suc i) (ss @ [s])))))
      [0..<length ss] = fst (run_ticks fl ss m0)"
    using snoc.IH by simp
  have abs: "monitor_abs (?m\<lparr>ticks_since_check := k\<rparr>) (values_seen n ?rs)" for k
    using snoc.IH by (simp add: monitor_abs_def)
  note obs = observe_refines [OF abs [of 0], of "reading fl (hm_path m0) s"]
  show ?case
  proof (cases "n dvd Suc (length ss)")
    case True
    then have "ticked fl s ?m = observe (reading fl (hm_path m0) s) (?m\<lparr>ticks_since_check := 0\<rparr>)"
      using snoc.IH due by (simp add: ticked_cases)
    moreover have "values_seen n (map (reading fl (hm_path m0)) (ss @ [s])) = saw (values_seen n ?rs) (reading fl (hm_path m0) s)"
      using True values_seen_snoc [OF assms(2), of ?rs] by simp
    ultimately show ?thesis using True obs snoc.IH split earlier by (simp add: dvd_eq_mod_eq_0)
  next
    case False
    then have "ticked fl s ?m = (False, ?m\<lparr>ticks_since_check := Suc (length ss mod n)\<rparr>)"
      using snoc.IH due by (simp add: ticked_cases)
    moreover have "Suc (length ss mod n) = Suc (length ss) mod n" using False by (auto simp: mod_Suc dvd_eq_mod_eq_0)
    moreover have "values_seen n (map (reading fl (hm_path m0)) (ss @ [s])) = values_seen n ?rs"
      using False values_seen_snoc [OF assms(2), of ?rs] by simp
    ultimately show ?thesis using False abs snoc.IH split earlier by simp
  qed
qed

text \<open>
  C8: The heartbeat monitor refines its specification. The specification remembers the values the
  checks saw: the readings at every \<open>ticks_per_check\<close>-th poll that could be read and parsed. The
  monitor, which keeps one value and two counters, declares the agent hung at exactly the checks
  where the last value has been seen \<open>miss_limit\<close> times more in a row, and reports progress
  exactly when two different values have been seen.
\<close>

theorem heartbeat_monitor_refines:
  "let m0 = hm_new p interval_ms limit;
       seen = (\<lambda>ss. values_seen (ticks_per_check m0) (map (reading fl p) ss));
       (hung, m) = run_ticks fl polls m0
   in hung = map (\<lambda>i. ticks_per_check m0 dvd Suc i \<and> miss_limit m0 \<le> repeats (seen (take (Suc i) polls))) [0..<length polls] \<and>
      progressed m = moved_once (seen polls)"
proof -
  let ?m0 = "hm_new p interval_ms limit"
  have path: "hm_path ?m0 = p" by (simp add: hm_new_def)
  have "0 < ticks_per_check ?m0" "ticks_since_check ?m0 = 0" "monitor_abs ?m0 []"
    by (simp_all add: hm_new_def monitor_abs_def repeats_def final_run_def moved_once_def)
  from run_ticks_refines [OF this, of fl polls, unfolded path] show ?thesis
    unfolding Let_def case_prod_unfold monitor_abs_def by blast
qed

end
