(* ===== verification/Supervise.thy ===== *)
theory Supervise
  imports Probation Watchdog
begin

text \<open>
  The supervision loop of \<open>watchdog/src/supervise.rs\<close>. What the loop cannot know in advance arrives
  as a list of observations, one for every pass of the outer loop, every poll of the child and every
  half second of a pause: what others did to the disk meanwhile, the stop flag, the clock, how
  starting the agent went and what \<open>try_wait\<close> says. A function that needs more observations than
  there are returns \<open>None\<close>: it is still running. The messages of the self-protection reports
  are kept in order; writing them to the alerts file is best effort in the code.
\<close>

datatype wait_status = Running | Exited string | Wait_Error string

record observation =
  ob_env :: "disk \<Rightarrow> disk"
  ob_stop :: bool
  ob_now :: nat
  ob_spawn_time :: nat
  ob_spawn :: "string option"
  ob_wait :: wait_status

datatype action = Spawned | Ended | Killed | Lost

record supervisor =
  sv_os :: os
  sv_backoff :: backoff
  sv_probation :: "probation option"
  sv_reports :: "string list"
  sv_actions :: "action list"

text \<open>The arguments of the loop, and the code outside this repository it calls.\<close>

record watch_config =
  wc_agent :: path
  wc_alerts :: path
  wc_restart_delay :: nat
  wc_interval_secs :: nat
  wc_miss_limit :: nat
  wc_faults :: faults
  wc_sha256 :: "string \<Rightarrow> string"
  wc_from_json :: "string \<Rightarrow> nat list option"
  wc_to_json :: "nat list \<Rightarrow> string"
  wc_show_error :: "updater_error \<Rightarrow> string"

datatype loop_exit = Stopped | RolledBack nat "nat option"

datatype watch_outcome = Restart | Stop | Watch_RolledBack nat "nat option"

definition em_dash :: string where
  "em_dash = [CHR 0xE2, CHR 0x80, CHR 0x94]"

definition report :: "string \<Rightarrow> supervisor \<Rightarrow> supervisor" where
  "report message sv = sv\<lparr>sv_reports := sv_reports sv @ [message]\<rparr>"

definition act :: "action \<Rightarrow> supervisor \<Rightarrow> supervisor" where
  "act a sv = sv\<lparr>sv_actions := sv_actions sv @ [a]\<rparr>"

definition observed :: "observation \<Rightarrow> supervisor \<Rightarrow> supervisor" where
  "observed ob sv = sv\<lparr>sv_os := (sv_os sv)\<lparr>os_disk := ob_env ob (os_disk (sv_os sv))\<rparr>\<rparr>"

definition on_os :: "('e, 'a) io \<Rightarrow> supervisor \<Rightarrow> ('e + 'a) \<times> supervisor" where
  "on_os m sv = (case m (sv_os sv) of (r, s) \<Rightarrow> (r, sv\<lparr>sv_os := s\<rparr>))"

definition count_exit :: "nat \<Rightarrow> supervisor \<Rightarrow> nat \<times> supervisor" where
  "count_exit uptime sv =
     (case record_exit uptime (sv_backoff sv) of ((delay, _), b) \<Rightarrow> (delay, sv\<lparr>sv_backoff := b\<rparr>))"

subsection \<open>Settling a probation\<close>

definition rollback_name :: "nat option \<Rightarrow> string" where
  "rollback_name restored = (case restored of None \<Rightarrow> ''bootstrap'' | Some v \<Rightarrow> ''release '' @ show_nat v)"

definition settle_probation :: "watch_config \<Rightarrow> nat \<Rightarrow> bool \<Rightarrow> supervisor \<Rightarrow> loop_exit option \<times> supervisor" where
  "settle_probation wc now advanced sv =
     (case sv_probation sv of
        None \<Rightarrow> (None, sv)
      | Some p \<Rightarrow>
          (case pr_verdict p now advanced of
             Pending \<Rightarrow> (None, sv)
           | Proven \<Rightarrow> (None, (snd (on_os (prove_release (wc_faults wc) p) sv))\<lparr>sv_probation := None\<rparr>)
           | Failed \<Rightarrow>
               (let failed = show_nat (pr_release p); target = rollback_name (pr_previous p) in
                case on_os (roll_back_release (wc_faults wc) (wc_from_json wc) (wc_to_json wc) p) sv of
                  (Inr _, sv1) \<Rightarrow>
                    (Some (RolledBack (pr_release p) (pr_previous p)),
                     report (''release '' @ failed @ '' never showed agent progress after promotion '' @ em_dash @
                       '' rolled back to '' @ target @ '' and banned it; restarting from there'') sv1)
                | (Inl e, sv1) \<Rightarrow>
                    (None,
                     (report (''release '' @ failed @ '' failed its health check but rolling back to '' @ target @
                       '' failed: '' @ wc_show_error wc e @ '' '' @ em_dash @ '' staying on it'') sv1)\<lparr>sv_probation := None\<rparr>))))"

subsection \<open>Pausing and watching\<close>

text \<open>The number of half seconds; the product wraps at 64 bits.\<close>

fun pause :: "nat \<Rightarrow> observation list \<Rightarrow> supervisor \<Rightarrow> (bool \<times> supervisor \<times> observation list) option" where
  "pause n [] sv = (if n = 0 then Some (True, sv, []) else None)"
| "pause n (ob # obs) sv =
     (if n = 0 then Some (True, sv, ob # obs)
      else if ob_stop ob then Some (False, observed ob sv, obs)
      else pause (n - 1) obs (observed ob sv))"

definition sleep_unless_stopped :: "nat \<Rightarrow> observation list \<Rightarrow> supervisor \<Rightarrow> (bool \<times> supervisor \<times> observation list) option" where
  "sleep_unless_stopped secs obs sv = pause ((secs * 2) mod 2 ^ 64) obs sv"

definition restart_after :: "nat \<Rightarrow> observation list \<Rightarrow> supervisor \<Rightarrow> (watch_outcome \<times> supervisor \<times> observation list) option" where
  "restart_after delay obs sv =
     map_option (\<lambda>(slept, sv1, rest). (if slept then Restart else Stop, sv1, rest)) (sleep_unless_stopped delay obs sv)"

fun watch_child :: "watch_config \<Rightarrow> nat \<Rightarrow> heartbeat_monitor \<Rightarrow> observation list \<Rightarrow> supervisor \<Rightarrow>
    (watch_outcome \<times> supervisor \<times> observation list) option" where
  "watch_child wc spawn_time hm [] sv = None"
| "watch_child wc spawn_time hm (ob # obs) sv0 =
     (let sv = observed ob sv0 in
      if ob_stop ob then Some (Stop, act Killed sv, obs)
      else (case ob_wait ob of
              Exited _ \<Rightarrow>
                (let (delay, sv1) = count_exit (ob_now ob - spawn_time) (act Ended sv) in restart_after delay obs sv1)
            | Wait_Error _ \<Rightarrow> Some (Restart, act Lost sv, obs)
            | Running \<Rightarrow>
                (case on_os (tick (wc_faults wc) hm :: (io_error, bool \<times> heartbeat_monitor) io) sv of
                   (Inl _, sv1) \<Rightarrow> None
                 | (Inr (hung, hm1), sv1) \<Rightarrow>
                     if hung then
                       (let (delay, sv2) = count_exit (ob_now ob - spawn_time) (act Killed sv1) in restart_after delay obs sv2)
                     else (case settle_probation wc (ob_now ob) (progressed hm1) sv1 of
                             (Some (RolledBack failed restored), sv2) \<Rightarrow> Some (Watch_RolledBack failed restored, act Killed sv2, obs)
                           | (_, sv2) \<Rightarrow> watch_child wc spawn_time hm1 obs sv2))))"

subsection \<open>The loop\<close>

definition check_definition :: "watch_config \<Rightarrow> definition_snapshot option \<Rightarrow> supervisor \<Rightarrow> supervisor" where
  "check_definition wc baseline sv =
     (case baseline of
        None \<Rightarrow> sv
      | Some b \<Rightarrow>
          (case on_os (snapshot_definition (wc_faults wc) (wc_sha256 wc) :: (io_error, _) io) sv of
             (Inr (Some current), sv1) \<Rightarrow> fold report (drift_report b current) sv1
           | (_, sv1) \<Rightarrow> sv1))"

definition check_binary :: "watch_config \<Rightarrow> binary_pin option \<Rightarrow> supervisor \<Rightarrow> bool \<times> supervisor" where
  "check_binary wc pin sv =
     (case pin of
        None \<Rightarrow> (True, sv)
      | Some p \<Rightarrow>
          (case on_os (pin_verify (wc_faults wc) (wc_sha256 wc) p :: (io_error, bool) io) sv of
             (Inr True, sv1) \<Rightarrow> (True, sv1)
           | (_, sv1) \<Rightarrow> (False, report (''agent binary at '' @ display_path (wc_agent wc) @
                 '' no longer matches its pinned hash '' @ em_dash @ '' refusing to launch it'') sv1)))"

text \<open>One pass of the loop: it ends the supervision, or leaves the observations for the next pass.\<close>

definition supervise_pass :: "watch_config \<Rightarrow> binary_pin option \<Rightarrow> definition_snapshot option \<Rightarrow>
    observation \<Rightarrow> observation list \<Rightarrow> supervisor \<Rightarrow> (loop_exit option \<times> supervisor \<times> observation list) option" where
  "supervise_pass wc pin baseline ob obs sv0 =
     (let sv = observed ob sv0;
          after_pause = map_option (\<lambda>(slept, sv1, rest). (if slept then None else Some Stopped, sv1, rest)) in
      if ob_stop ob then Some (Some Stopped, sv, obs)
      else (case settle_probation wc (ob_now ob) False sv of
              (Some exit, sv1) \<Rightarrow> Some (Some exit, sv1, obs)
            | (None, sv1) \<Rightarrow>
                (case check_binary wc pin (check_definition wc baseline sv1) of
                   (False, sv2) \<Rightarrow>
                     (let (delay, sv3) = count_exit 0 sv2 in after_pause (sleep_unless_stopped delay obs sv3))
                 | (True, sv2) \<Rightarrow>
                     (case ob_spawn ob of
                        Some _ \<Rightarrow>
                          (let (delay, sv3) = count_exit 0 sv2 in after_pause (sleep_unless_stopped delay obs sv3))
                      | None \<Rightarrow>
                          map_option (\<lambda>(w, sv3, rest).
                              (case w of Restart \<Rightarrow> None | Stop \<Rightarrow> Some Stopped | Watch_RolledBack f r \<Rightarrow> Some (RolledBack f r), sv3, rest))
                            (watch_child wc (ob_spawn_time ob)
                              (hm_new (heartbeat_path_for (wc_alerts wc)) (wc_interval_secs wc * 1000) (wc_miss_limit wc))
                              obs (act Spawned sv2))))))"

lemma pause_suffix: "pause n obs sv = Some (b, sv', rest) \<Longrightarrow> suffix rest obs"
  by (induction n obs sv rule: pause.induct) (auto split: if_splits intro: suffix_ConsI)

lemma restart_after_suffix: "restart_after delay obs sv = Some (w, sv', rest) \<Longrightarrow> suffix rest obs"
  by (auto simp: restart_after_def sleep_unless_stopped_def dest: pause_suffix)

lemma watch_child_suffix: "watch_child wc t hm obs sv = Some (w, sv', rest) \<Longrightarrow> suffix rest obs"
  by (induction wc t hm obs sv rule: watch_child.induct)
    (auto simp: Let_def split: if_splits wait_status.splits prod.splits sum.splits option.splits loop_exit.splits
      intro: suffix_ConsI dest: restart_after_suffix)

lemma supervise_pass_suffix:
  "supervise_pass wc pin baseline ob obs sv = Some (r, sv', rest) \<Longrightarrow> suffix rest obs"
  by (auto simp: supervise_pass_def sleep_unless_stopped_def Let_def split: if_splits prod.splits option.splits bool.splits
      dest: pause_suffix watch_child_suffix)

function supervise_from :: "watch_config \<Rightarrow> binary_pin option \<Rightarrow> definition_snapshot option \<Rightarrow>
    observation list \<Rightarrow> supervisor \<Rightarrow> (loop_exit \<times> supervisor \<times> observation list) option" where
  "supervise_from wc pin baseline [] sv = None"
| "supervise_from wc pin baseline (ob # obs) sv =
     (case supervise_pass wc pin baseline ob obs sv of
        None \<Rightarrow> None
      | Some (Some exit, sv1, rest) \<Rightarrow> Some (exit, sv1, rest)
      | Some (None, sv1, rest) \<Rightarrow> supervise_from wc pin baseline rest sv1)"
  by pat_completeness auto
termination
  by (relation "measure (\<lambda>(_, _, _, obs, _). length obs)")
    (auto dest!: supervise_pass_suffix suffix_length_le)

definition supervise_loop :: "watch_config \<Rightarrow> probation option \<Rightarrow> observation list \<Rightarrow> os \<Rightarrow>
    (loop_exit \<times> supervisor \<times> observation list) option" where
  "supervise_loop wc prob obs s =
     (let (pinned, s1) = pin_binary (wc_faults wc) (wc_sha256 wc) (wc_agent wc) s;
          (snap, s2) = (snapshot_definition (wc_faults wc) (wc_sha256 wc) :: (io_error, _) io) s1
      in supervise_from wc (case pinned of Inr p \<Rightarrow> Some p | Inl _ \<Rightarrow> None) (case snap of Inr b \<Rightarrow> b | Inl _ \<Rightarrow> None) obs
           \<lparr>sv_os = s2, sv_backoff = backoff_new (wc_restart_delay wc), sv_probation = prob, sv_reports = [], sv_actions = []\<rparr>)"

text \<open>The subcommand \<open>run\<close>: the resolved path of the agent must exist; the executable's own path is
  \<open>None\<close> when it cannot be determined.\<close>

datatype run_result = Run_Ok | Run_Error string

definition exit_result :: "loop_exit \<Rightarrow> run_result" where
  "exit_result exit =
     (case exit of
        Stopped \<Rightarrow> Run_Ok
      | RolledBack failed restored \<Rightarrow>
          Run_Error (''release '' @ show_nat failed @ '' failed its health check and was rolled back to '' @ rollback_name restored @
            ''; exiting so the service manager restarts from there''))"

definition cmd_run :: "watch_config \<Rightarrow> path option \<Rightarrow> nat \<Rightarrow> observation list \<Rightarrow> os \<Rightarrow> (run_result \<times> os) option" where
  "cmd_run wc exe now obs s =
     (if \<not> path_exists (os_disk s) (wc_agent wc) then Some (Run_Error (''agent not found: '' @ display_path (wc_agent wc)), s)
      else
        (let (found, s1) = (case exe of
                              None \<Rightarrow> (Inr None, s)
                            | Some p \<Rightarrow> (detect (wc_faults wc) (wc_from_json wc) now p :: (io_error, _) io) s);
             prob = (case found of Inr pr \<Rightarrow> pr | Inl _ \<Rightarrow> None)
         in map_option (\<lambda>(exit, sv, _). (exit_result exit, sv_os sv)) (supervise_loop wc prob obs s1)))"

subsection \<open>The loop ends when it is told to\<close>

lemma tick_total: "\<exists>hung hm' sv'. on_os (tick fl hm) sv = (Inr (hung, hm'), sv')"
  by (auto simp: on_os_def tick_def read_heartbeat_def io_defs Let_def split: prod.split)

text \<open>An observation with the stop flag up ahead: where the rest of the list can be.\<close>

definition stop_ahead :: "observation \<Rightarrow> observation list \<Rightarrow> observation list \<Rightarrow> bool" where
  "stop_ahead ob post obs \<longleftrightarrow> ob_stop ob \<and> suffix (ob # post) obs"

lemma stop_ahead_Cons: "stop_ahead ob post (x # obs) \<Longrightarrow> ob_stop x \<and> suffix post obs \<or> stop_ahead ob post obs"
  by (auto simp: stop_ahead_def suffix_Cons)

lemma stop_ahead_Nil [simp]: "\<not> stop_ahead ob post []"
  by (simp add: stop_ahead_def)

lemma stop_ahead_suffix: "stop_ahead ob post obs \<Longrightarrow> suffix post obs"
  by (auto simp: stop_ahead_def suffix_def)

definition ends_by :: "observation \<Rightarrow> observation list \<Rightarrow> ('w \<Rightarrow> bool) \<Rightarrow> ('w \<times> supervisor \<times> observation list) option \<Rightarrow> bool" where
  "ends_by ob post goes_on result =
     (case result of None \<Rightarrow> False | Some (w, _, rest) \<Rightarrow> if goes_on w then stop_ahead ob post rest else suffix post rest)"

lemma ends_by_simps [simp]:
  "\<not> ends_by ob post g None"
  "ends_by ob post g (Some (w, sv, rest)) \<longleftrightarrow> (if g w then stop_ahead ob post rest else suffix post rest)"
  by (simp_all add: ends_by_def)

lemma ends_by_map:
  assumes "ends_by ob post g result" and "\<And>w. g' (f w) = g w"
  shows "ends_by ob post g' (map_option (\<lambda>(w, sv, rest). (f w, sv, rest)) result)"
  using assms by (cases result) auto

lemma pause_stops: "stop_ahead ob post obs \<Longrightarrow> ends_by ob post (\<lambda>slept. slept) (pause n obs sv)"
proof (induction n obs sv rule: pause.induct)
  case (2 n x obs sv)
  then show ?case using stop_ahead_Cons [OF "2.prems"] stop_ahead_suffix by auto
qed auto

lemma restart_after_stops:
  "stop_ahead ob post obs \<Longrightarrow> ends_by ob post (\<lambda>w. w = Restart) (restart_after delay obs sv)"
  unfolding restart_after_def sleep_unless_stopped_def by (rule ends_by_map [OF pause_stops]) auto

lemma watch_child_stops:
  "stop_ahead ob post obs \<Longrightarrow> ends_by ob post (\<lambda>w. w = Restart) (watch_child wc t hm obs sv)"
proof (induction obs arbitrary: hm sv)
  case (Cons x obs)
  show ?case
  proof (cases "ob_stop x")
    case True
    then show ?thesis using stop_ahead_Cons [OF Cons.prems] stop_ahead_suffix by (auto simp: Let_def)
  next
    case False
    then have ahead: "stop_ahead ob post obs" using stop_ahead_Cons [OF Cons.prems] by simp
    obtain hung hm1 sv1 where tick: "on_os (tick (wc_faults wc) hm :: (io_error, bool \<times> heartbeat_monitor) io) (observed x sv) = (Inr (hung, hm1), sv1)"
      using tick_total by blast
    show ?thesis
    proof (cases "ob_wait x")
      case Running
      then show ?thesis
        using False tick restart_after_stops [OF ahead] Cons.IH [OF ahead] stop_ahead_suffix [OF ahead]
        by (simp add: Let_def split: prod.split option.split loop_exit.split)
    qed (use False ahead restart_after_stops [OF ahead] in \<open>simp_all add: Let_def split: prod.split\<close>)
  qed
qed simp

lemma supervise_pass_stops:
  assumes "stop_ahead ob post obs" and "\<not> ob_stop x"
  shows "ends_by ob post (\<lambda>r. r = None) (supervise_pass wc pin baseline x obs sv)"
proof -
  have pause: "ends_by ob post (\<lambda>r. r = None)
      (map_option (\<lambda>(slept, sv1, rest). (if slept then None else Some Stopped, sv1, rest)) (sleep_unless_stopped n obs sv'))" for n sv'
    unfolding sleep_unless_stopped_def by (rule ends_by_map [OF pause_stops [OF assms(1)]]) auto
  have watch: "ends_by ob post (\<lambda>r. r = None) (map_option (\<lambda>(w, sv3, rest).
      (case w of Restart \<Rightarrow> None | Stop \<Rightarrow> Some Stopped | Watch_RolledBack f r \<Rightarrow> Some (RolledBack f r), sv3, rest))
      (watch_child wc t hm obs sv'))" for t hm sv'
    by (rule ends_by_map [OF watch_child_stops [OF assms(1)]]) (auto split: watch_outcome.split)
  show ?thesis
    using assms(2) pause watch stop_ahead_suffix [OF assms(1)]
    by (simp add: supervise_pass_def Let_def split: prod.split option.split bool.split)
qed

lemma supervise_from_stops:
  "stop_ahead ob post obs \<Longrightarrow> ends_by ob post (\<lambda>_. False) (supervise_from wc pin baseline obs sv)"
proof (induction wc pin baseline obs sv rule: supervise_from.induct)
  case (2 wc pin baseline x obs sv)
  show ?case
  proof (cases "ob_stop x")
    case True
    then show ?thesis using stop_ahead_Cons [OF "2.prems"] stop_ahead_suffix by (auto simp: supervise_pass_def Let_def)
  next
    case False
    then have ahead: "stop_ahead ob post obs" using stop_ahead_Cons [OF "2.prems"] by simp
    have pass: "ends_by ob post (\<lambda>r. r = None) (supervise_pass wc pin baseline x obs sv)"
      by (rule supervise_pass_stops [OF ahead False])
    then obtain r sv1 rest where r: "supervise_pass wc pin baseline x obs sv = Some (r, sv1, rest)"
      by (cases "supervise_pass wc pin baseline x obs sv") auto
    show ?thesis
    proof (cases r)
      case None
      then show ?thesis using r pass "2.IH" [OF r refl None refl] by simp
    qed (use r pass in simp)
  qed
qed simp

text \<open>
  C9: Supervision ends when it is told to. Whatever the agent, the disk and the clock do, and whether
  the loop is starting the agent, watching it or pausing between restarts, the first observation
  with the stop flag up is the last one it makes: it returns, and has not read past it.
\<close>

theorem supervision_stops:
  assumes "ob_stop ob"
  shows "\<exists>exit sv rest. supervise_loop wc prob (pre @ ob # post) s = Some (exit, sv, rest) \<and> suffix post rest"
proof -
  have ahead: "stop_ahead ob post (pre @ ob # post)" using assms by (simp add: stop_ahead_def suffix_def)
  have "ends_by ob post (\<lambda>_. False) (supervise_loop wc prob (pre @ ob # post) s)"
    unfolding supervise_loop_def Let_def case_prod_unfold by (rule supervise_from_stops [OF ahead])
  then show ?thesis by (cases "supervise_loop wc prob (pre @ ob # post) s") auto
qed

subsection \<open>One agent at a time\<close>

text \<open>A trace in which every agent that was started has ended, been killed or been lost (the
  code restarts without killing when \<open>try_wait\<close> itself fails) before the next one starts.\<close>

fun one_at_a_time :: "action list \<Rightarrow> bool" where
  "one_at_a_time [] = True"
| "one_at_a_time (Spawned # a # rest) \<longleftrightarrow> a \<noteq> Spawned \<and> one_at_a_time rest"
| "one_at_a_time _ = False"

lemma one_at_a_time_append: "one_at_a_time xs \<Longrightarrow> one_at_a_time ys \<Longrightarrow> one_at_a_time (xs @ ys)"
  by (induction xs rule: one_at_a_time.induct) auto

text \<open>
  What the loop saw when it took an action: it starts an agent when it is not told to stop and the
  start succeeds, it takes note of an end when \<open>try_wait\<close> reports one, it kills when it is told
  to stop or while the agent is running (hung, or rolled back), and it loses sight of an agent only
  when \<open>try_wait\<close> fails. A trace is explained by the observations that were consumed when
  each of its actions was taken at an observation of its own, in order.
\<close>

definition explains :: "observation \<Rightarrow> action \<Rightarrow> bool" where
  "explains ob a =
     (case a of
        Spawned \<Rightarrow> \<not> ob_stop ob \<and> ob_spawn ob = None
      | Ended \<Rightarrow> \<not> ob_stop ob \<and> (case ob_wait ob of Exited _ \<Rightarrow> True | _ \<Rightarrow> False)
      | Killed \<Rightarrow> ob_stop ob \<or> ob_wait ob = Running
      | Lost \<Rightarrow> \<not> ob_stop ob \<and> (case ob_wait ob of Wait_Error _ \<Rightarrow> True | _ \<Rightarrow> False))"

definition explained :: "observation list \<Rightarrow> observation list \<Rightarrow> action list \<Rightarrow> bool" where
  "explained obs rest trace \<longleftrightarrow> (\<exists>used seen. obs = used @ rest \<and> subseq seen used \<and> list_all2 explains seen trace)"

lemma explained_nil: "suffix rest obs \<Longrightarrow> explained obs rest []"
  by (auto simp: explained_def suffix_def intro!: exI [of _ "[]"])

lemma explained_skip: "explained obs rest trace \<Longrightarrow> explained (ob # obs) rest trace"
  unfolding explained_def by (metis append_Cons list_emb_Cons)

lemma explained_Cons: "explains ob a \<Longrightarrow> explained obs rest trace \<Longrightarrow> explained (ob # obs) rest (a # trace)"
  unfolding explained_def by (metis append_Cons list.rel_intros(2) subseq_Cons2)

lemma explained_last: "explains ob a \<Longrightarrow> suffix rest obs \<Longrightarrow> explained (ob # obs) rest [a]"
  by (simp add: explained_Cons explained_nil)

lemma explained_append: "explained obs mid xs \<Longrightarrow> explained mid rest ys \<Longrightarrow> explained obs rest (xs @ ys)"
  unfolding explained_def by (metis append.assoc list_all2_appendI list_emb_append_mono)

lemma trace_simps [simp]:
  "sv_actions (report msg sv) = sv_actions sv" "sv_actions (observed ob sv) = sv_actions sv"
  "sv_actions (act a sv) = sv_actions sv @ [a]" "sv_actions (snd (on_os m sv)) = sv_actions sv"
  "sv_actions (snd (count_exit u sv)) = sv_actions sv"
  by (simp_all add: report_def observed_def act_def on_os_def count_exit_def split: prod.split)

lemma on_os_actions: "on_os m sv = (r, sv') \<Longrightarrow> sv_actions sv' = sv_actions sv"
  using trace_simps(4) [of m sv] by simp

lemma count_exit_actions: "count_exit u sv = (n, sv') \<Longrightarrow> sv_actions sv' = sv_actions sv"
  using trace_simps(5) [of u sv] by simp

lemma settle_actions: "settle_probation wc now adv sv = (r, sv') \<Longrightarrow> sv_actions sv' = sv_actions sv"
  by (auto simp: settle_probation_def Let_def split: option.splits probation_verdict.splits prod.splits sum.splits
      dest: on_os_actions)

lemma pause_actions: "pause n obs sv = Some (b, sv', rest) \<Longrightarrow> sv_actions sv' = sv_actions sv"
  by (induction n obs sv rule: pause.induct) (auto split: if_splits)

lemma restart_after_actions: "restart_after delay obs sv = Some (w, sv', rest) \<Longrightarrow> sv_actions sv' = sv_actions sv"
  by (auto simp: restart_after_def sleep_unless_stopped_def dest: pause_actions)

lemma fold_report_actions: "sv_actions (fold report ms sv) = sv_actions sv"
  by (induction ms arbitrary: sv) simp_all

lemma check_actions:
  "sv_actions (check_definition wc baseline sv) = sv_actions sv" "check_binary wc pin sv = (ok, sv') \<Longrightarrow> sv_actions sv' = sv_actions sv"
  by (auto simp: check_definition_def check_binary_def fold_report_actions split: option.splits prod.splits sum.splits bool.splits
      dest: on_os_actions)

lemma watch_child_actions:
  "watch_child wc t hm obs sv = Some (w, sv', rest) \<Longrightarrow>
     \<exists>a. a \<noteq> Spawned \<and> explained obs rest [a] \<and> sv_actions sv' = sv_actions sv @ [a]"
proof (induction obs arbitrary: hm sv)
  case (Cons ob obs)
  have now: ?case if "explains ob a" "suffix rest obs" "a \<noteq> Spawned" "sv_actions sv' = sv_actions sv @ [a]" for a
    using that explained_last by blast
  show ?case
  proof (cases "ob_stop ob \<or> ob_wait ob \<noteq> Running")
    case True
    then have "suffix rest obs" using Cons.prems
      by (auto simp: Let_def split: if_splits prod.splits wait_status.splits dest: restart_after_suffix)
    then show ?thesis using Cons.prems True explained_last [of ob _ rest obs]
      by (cases "ob_wait ob")
        (auto simp: explains_def Let_def split: if_splits prod.splits dest!: restart_after_actions count_exit_actions)
  next
    case False
    obtain hung hm1 sv1 where tick:
        "on_os (tick (wc_faults wc) hm :: (io_error, bool \<times> heartbeat_monitor) io) (observed ob sv) = (Inr (hung, hm1), sv1)"
      using tick_total by blast
    then have sv1: "sv_actions sv1 = sv_actions sv" using on_os_actions by fastforce
    obtain r sv2 where settle: "settle_probation wc (ob_now ob) (progressed hm1) sv1 = (r, sv2)" by fastforce
    have sv2: "sv_actions sv2 = sv_actions sv" using settle_actions [OF settle] sv1 by simp
    have kill: "explains ob Killed" using False by (simp add: explains_def)
    consider (hung) hung | (rolled) f v where "\<not> hung" "r = Some (RolledBack f v)" | (on) "\<not> hung" "watch_child wc t hm1 obs sv2 = Some (w, sv', rest)"
      using Cons.prems False tick settle by (cases hung) (auto simp: Let_def split: option.splits loop_exit.splits)
    then show ?thesis
    proof cases
      case hung
      then show ?thesis using Cons.prems False tick sv1
        by (intro now [OF kill]) (auto simp: Let_def split: prod.splits
            dest!: count_exit_actions dest: restart_after_suffix restart_after_actions)
    next
      case rolled
      then show ?thesis using Cons.prems False tick settle sv2 by (intro now [OF kill]) (auto simp: Let_def)
    next
      case on
      then show ?thesis using Cons.IH [OF on(2)] sv2 explained_skip by auto
    qed
  qed
qed simp

lemma supervise_pass_actions:
  assumes "supervise_pass wc pin baseline ob obs sv = Some (r, sv', rest)"
  shows "\<exists>new. one_at_a_time new \<and> explained (ob # obs) rest new \<and> sv_actions sv' = sv_actions sv @ new"
proof -
  obtain e sv1 where settle: "settle_probation wc (ob_now ob) False (observed ob sv) = (e, sv1)" by fastforce
  obtain ok sv2 where check: "check_binary wc pin (check_definition wc baseline sv1) = (ok, sv2)" by fastforce
  have sv1: "sv_actions sv1 = sv_actions sv" using settle_actions [OF settle] by simp
  have sv2: "sv_actions sv2 = sv_actions sv" using check_actions(2) [OF check] check_actions(1) sv1 by simp
  show ?thesis
  proof (cases "ob_stop ob \<or> e \<noteq> None \<or> \<not> ok \<or> ob_spawn ob \<noteq> None")
    case True
    then have "sv_actions sv' = sv_actions sv"
      using assms settle check sv1 sv2
      by (auto simp: supervise_pass_def sleep_unless_stopped_def Let_def split: if_splits option.splits prod.splits bool.splits
          dest!: pause_actions count_exit_actions)
    moreover have "explained (ob # obs) rest []"
      using supervise_pass_suffix [OF assms] by (simp add: explained_nil suffix_ConsI)
    ultimately show ?thesis by (intro exI [of _ "[]"]) simp
  next
    case False
    then obtain a where "a \<noteq> Spawned" "explained obs rest [a]" "sv_actions sv' = sv_actions sv @ [Spawned, a]"
      using assms settle check sv2 by (auto simp: supervise_pass_def Let_def dest!: watch_child_actions)
    moreover have "explains ob Spawned" using False by (simp add: explains_def)
    ultimately show ?thesis using explained_Cons by (intro exI [of _ "[Spawned, a]"]) auto
  qed
qed

lemma supervise_from_actions:
  "supervise_from wc pin baseline obs sv = Some (e, sv', rest) \<Longrightarrow>
     \<exists>new. one_at_a_time new \<and> explained obs rest new \<and> sv_actions sv' = sv_actions sv @ new"
proof (induction wc pin baseline obs sv rule: supervise_from.induct)
  case (2 wc pin baseline ob obs sv)
  then obtain r sv1 rest1 where pass: "supervise_pass wc pin baseline ob obs sv = Some (r, sv1, rest1)"
    by (auto split: option.splits)
  obtain new where new: "one_at_a_time new" "explained (ob # obs) rest1 new" "sv_actions sv1 = sv_actions sv @ new"
    using supervise_pass_actions [OF pass] by blast
  show ?case
  proof (cases r)
    case None
    then obtain new' where "one_at_a_time new'" "explained rest1 rest new'" "sv_actions sv' = sv_actions sv1 @ new'"
      using "2.IH" [OF pass refl None refl] "2.prems" pass by auto
    then show ?thesis using new one_at_a_time_append explained_append by (intro exI [of _ "new @ new'"]) auto
  qed (use "2.prems" pass new in auto)
qed simp

text \<open>
  C5: No two agents run side by side under one supervisor, and none is left running when it ends: in
  the trace of every run that ends, stopped or rolled back, each agent that was started has ended, or
  was killed, before the next is started and before the loop returns. The only way to lose sight of one
  is a failing \<open>try_wait\<close>, after which the code restarts without a kill: every action of the
  trace was taken at an observation of its own, in order, that calls for it, so that an agent is lost
  only where \<open>try_wait\<close> failed, and noted as ended only where it reported an exit.
\<close>

theorem agents_run_one_at_a_time:
  assumes "supervise_loop wc prob obs s = Some (exit, sv, rest)"
  shows "one_at_a_time (sv_actions sv) \<and> explained obs rest (sv_actions sv)"
  using assms unfolding supervise_loop_def Let_def case_prod_unfold by (auto dest!: supervise_from_actions)

subsection \<open>When a release is rolled back\<close>

lemma prob_simps [simp]:
  "sv_probation (report msg sv) = sv_probation sv" "sv_probation (observed ob sv) = sv_probation sv"
  "sv_probation (act a sv) = sv_probation sv" "sv_probation (snd (on_os m sv)) = sv_probation sv"
  "sv_probation (snd (count_exit u sv)) = sv_probation sv" "sv_os (act a sv) = sv_os sv" "sv_os (report msg sv) = sv_os sv"
  by (simp_all add: report_def observed_def act_def on_os_def count_exit_def split: prod.split)

lemma on_os_prob: "on_os m sv = (r, sv') \<Longrightarrow> sv_probation sv' = sv_probation sv"
  using prob_simps(4) [of m sv] by simp

lemma count_exit_prob: "count_exit u sv = (n, sv') \<Longrightarrow> sv_probation sv' = sv_probation sv"
  using prob_simps(5) [of u sv] by simp

lemma pause_prob: "pause n obs sv = Some (b, sv', rest) \<Longrightarrow> sv_probation sv' = sv_probation sv"
  by (induction n obs sv rule: pause.induct) (auto split: if_splits)

lemma restart_after_prob:
  "restart_after delay obs sv = Some (w, sv', rest) \<Longrightarrow> sv_probation sv' = sv_probation sv \<and> w \<in> {Restart, Stop}"
  by (auto simp: restart_after_def sleep_unless_stopped_def split: if_splits dest: pause_prob)

lemma check_prob:
  "sv_probation (check_definition wc baseline sv) = sv_probation sv" "check_binary wc pin sv = (ok, sv') \<Longrightarrow> sv_probation sv' = sv_probation sv"
proof -
  have "sv_probation (fold report ms sv) = sv_probation sv" for ms sv by (induction ms arbitrary: sv) simp_all
  then show "sv_probation (check_definition wc baseline sv) = sv_probation sv"
    "check_binary wc pin sv = (ok, sv') \<Longrightarrow> sv_probation sv' = sv_probation sv"
    by (auto simp: check_definition_def check_binary_def split: option.splits prod.splits sum.splits bool.splits dest: on_os_prob)
qed

text \<open>The release \<open>f\<close> was rolled back to \<open>v\<close>: at an observation past the deadline, by a roll back that
  succeeded, and nothing touched the disk after it.\<close>

definition rolled_by :: "watch_config \<Rightarrow> observation list \<Rightarrow> probation option \<Rightarrow> nat \<Rightarrow> nat option \<Rightarrow> supervisor \<Rightarrow> bool" where
  "rolled_by wc obs prob f v sv \<longleftrightarrow> (\<exists>p ob s. prob = Some p \<and> f = pr_release p \<and> v = pr_previous p \<and> ob \<in> set obs \<and>
     pr_deadline p \<le> ob_now ob - pr_started p \<and>
     roll_back_release (wc_faults wc) (wc_from_json wc) (wc_to_json wc) p s = (Inr (), sv_os sv))"

lemma rolled_by_more:
  "rolled_by wc obs prob' f v sv \<Longrightarrow> prob' = None \<or> prob' = prob \<Longrightarrow> set obs \<subseteq> set obs' \<Longrightarrow> rolled_by wc obs' prob f v sv"
  unfolding rolled_by_def by blast

lemma settle_prob: "settle_probation wc now adv sv = (r, sv') \<Longrightarrow> sv_probation sv' = None \<or> sv_probation sv' = sv_probation sv"
  by (auto simp: settle_probation_def Let_def split: option.splits probation_verdict.splits prod.splits sum.splits
      dest: on_os_prob)

lemma settle_rolls:
  assumes "settle_probation wc (ob_now ob) adv sv = (Some e, sv')"
  shows "\<exists>f v. e = RolledBack f v \<and> rolled_by wc [ob] (sv_probation sv) f v sv'"
proof -
  obtain p where p: "sv_probation sv = Some p" "pr_verdict p (ob_now ob) adv = Failed"
    using assms by (auto simp: settle_probation_def Let_def split: option.splits probation_verdict.splits)
  obtain r s1 where roll: "roll_back_release (wc_faults wc) (wc_from_json wc) (wc_to_json wc) p (sv_os sv) = (r, s1)" by fastforce
  have "pr_deadline p \<le> ob_now ob - pr_started p"
    using p(2) by (auto simp: pr_verdict_def decide_def split: if_splits)
  moreover have "r = Inr ()" "e = RolledBack (pr_release p) (pr_previous p)" "sv_os sv' = s1"
    using assms p roll by (auto simp: settle_probation_def on_os_def Let_def report_def split: sum.splits)
  ultimately show ?thesis using p(1) roll by (auto simp: rolled_by_def)
qed

lemma watch_child_rolls:
  assumes "watch_child wc t hm obs sv = Some (w, sv', rest)"
  shows "(sv_probation sv' = None \<or> sv_probation sv' = sv_probation sv) \<and>
    (\<forall>f v. w = Watch_RolledBack f v \<longrightarrow> rolled_by wc obs (sv_probation sv) f v sv')"
  using assms
proof (induction obs arbitrary: hm sv)
  case (Cons ob obs)
  show ?case
  proof (cases "ob_stop ob \<or> ob_wait ob \<noteq> Running")
    case True
    then show ?thesis using Cons.prems
      by (cases "ob_wait ob") (auto simp: Let_def split: if_splits prod.splits dest!: restart_after_prob count_exit_prob)
  next
    case False
    obtain hung hm1 sv1 where tick:
        "on_os (tick (wc_faults wc) hm :: (io_error, bool \<times> heartbeat_monitor) io) (observed ob sv) = (Inr (hung, hm1), sv1)"
      using tick_total by blast
    then have sv1: "sv_probation sv1 = sv_probation sv" using on_os_prob by fastforce
    obtain r sv2 where settle: "settle_probation wc (ob_now ob) (progressed hm1) sv1 = (r, sv2)" by fastforce
    have sv2: "sv_probation sv2 = None \<or> sv_probation sv2 = sv_probation sv" using settle_prob [OF settle] sv1 by simp
    consider (hung) hung | (rolled) f v where "\<not> hung" "r = Some (RolledBack f v)" | (on) "\<not> hung" "watch_child wc t hm1 obs sv2 = Some (w, sv', rest)"
      using Cons.prems False tick settle by (cases hung) (auto simp: Let_def split: option.splits loop_exit.splits)
    then show ?thesis
    proof cases
      case hung
      then show ?thesis using Cons.prems False tick sv1
        by (auto simp: Let_def split: prod.splits dest!: restart_after_prob count_exit_prob)
    next
      case rolled
      then have "w = Watch_RolledBack f v" "sv' = act Killed sv2" using Cons.prems False tick settle by (auto simp: Let_def)
      moreover have "rolled_by wc [ob] (sv_probation sv) f v sv2" using settle_rolls [OF settle [unfolded rolled(2)]] sv1 by auto
      ultimately show ?thesis using sv2 by (auto simp: rolled_by_def)
    next
      case on
      show ?thesis
        using Cons.IH [OF on(2)] sv2 rolled_by_more [of wc obs "sv_probation sv2" _ _ sv' "sv_probation sv" "ob # obs"] by auto
    qed
  qed
qed simp

lemma supervise_pass_rolls:
  assumes "supervise_pass wc pin baseline ob obs sv = Some (r, sv', rest)"
  shows "(sv_probation sv' = None \<or> sv_probation sv' = sv_probation sv) \<and>
    (\<forall>f v. r = Some (RolledBack f v) \<longrightarrow> rolled_by wc (ob # obs) (sv_probation sv) f v sv')"
proof -
  obtain e sv1 where settle: "settle_probation wc (ob_now ob) False (observed ob sv) = (e, sv1)" by fastforce
  obtain ok sv2 where check: "check_binary wc pin (check_definition wc baseline sv1) = (ok, sv2)" by fastforce
  have sv1: "sv_probation sv1 = None \<or> sv_probation sv1 = sv_probation sv" using settle_prob [OF settle] by simp
  have sv2: "sv_probation sv2 = sv_probation sv1" using check_prob(2) [OF check] check_prob(1) by simp
  consider (early) "ob_stop ob" | (rolled) x where "\<not> ob_stop ob" "e = Some x"
    | (pause) "\<not> ob_stop ob" "e = None" "\<not> ok \<or> ob_spawn ob \<noteq> None" | (watch) "\<not> ob_stop ob" "e = None" ok "ob_spawn ob = None"
    by blast
  then show ?thesis
  proof cases
    case early
    then show ?thesis using assms by (auto simp: supervise_pass_def Let_def)
  next
    case rolled
    then have "r = Some x" "sv' = sv1" using assms settle by (auto simp: supervise_pass_def Let_def)
    moreover obtain f v where "x = RolledBack f v" "rolled_by wc [ob] (sv_probation sv) f v sv1"
      using settle_rolls [OF settle [unfolded rolled(2)]] by auto
    moreover from rolled_by_more [OF this(2)] have "rolled_by wc (ob # obs) (sv_probation sv) f v sv1" by simp
    ultimately show ?thesis using sv1 by simp
  next
    case pause
    then show ?thesis using assms settle check sv1 sv2
      by (auto simp: supervise_pass_def sleep_unless_stopped_def Let_def split: if_splits option.splits prod.splits bool.splits
          dest!: pause_prob count_exit_prob)
  next
    case watch
    then obtain w t hm where "watch_child wc t hm obs (act Spawned sv2) = Some (w, sv', rest)"
        and r: "r = (case w of Restart \<Rightarrow> None | Stop \<Rightarrow> Some Stopped | Watch_RolledBack f v \<Rightarrow> Some (RolledBack f v))"
      using assms settle check by (auto simp: supervise_pass_def Let_def)
    from watch_child_rolls [OF this(1)] show ?thesis
      using sv1 sv2 r rolled_by_more [of wc obs "sv_probation sv1" _ _ sv' "sv_probation sv" "ob # obs"]
      by (auto split: watch_outcome.splits)
  qed
qed

lemma supervise_from_rolls:
  "supervise_from wc pin baseline obs sv = Some (RolledBack f v, sv', rest) \<Longrightarrow> rolled_by wc obs (sv_probation sv) f v sv'"
proof (induction wc pin baseline obs sv rule: supervise_from.induct)
  case (2 wc pin baseline ob obs sv)
  then obtain r sv1 rest1 where pass: "supervise_pass wc pin baseline ob obs sv = Some (r, sv1, rest1)"
    by (auto split: option.splits)
  note rolls = supervise_pass_rolls [OF pass]
  show ?case
  proof (cases r)
    case None
    have "set rest1 \<subseteq> set (ob # obs)" using supervise_pass_suffix [OF pass] by (auto dest: set_mono_suffix)
    moreover have "rolled_by wc rest1 (sv_probation sv1) f v sv'" using "2.IH" [OF pass refl None refl] "2.prems" pass None by simp
    ultimately show ?thesis using rolls rolled_by_more by blast
  qed (use "2.prems" pass rolls in auto)
qed simp

text \<open>
  C35: A release is rolled back only on probation and only past its deadline. When the loop ends with
  a roll back, it was started with that release on probation, an observation was made at which the
  deadline had passed, the roll back returned success and the disk is as it left it. In particular a
  release that was proven once, in this run, is not rolled back later in it.
\<close>

theorem rollback_needs_an_expired_probation:
  assumes "supervise_loop wc prob obs s = Some (RolledBack f v, sv, rest)"
  shows "rolled_by wc obs prob f v sv"
  using assms unfolding supervise_loop_def Let_def case_prod_unfold by (auto dest!: supervise_from_rolls)

subsection \<open>Sample runs\<close>

definition sample_config :: watch_config where
  "sample_config = \<lparr>wc_agent = [''var'', ''agent''], wc_alerts = [''var'', ''alerts.ndjson''], wc_restart_delay = 1,
     wc_interval_secs = 1, wc_miss_limit = 3, wc_faults = (\<lambda>_. None), wc_sha256 = (\<lambda>b. b),
     wc_from_json = sample_from_json, wc_to_json = sample_to_json, wc_show_error = (\<lambda>_. [])\<rparr>"

definition sample_ob :: "nat \<Rightarrow> bool \<Rightarrow> observation" where
  "sample_ob now stop = \<lparr>ob_env = (\<lambda>d. d), ob_stop = stop, ob_now = now, ob_spawn_time = now, ob_spawn = None, ob_wait = Running\<rparr>"

text \<open>The agent starts and runs, but never writes a heartbeat, until its probation has expired.\<close>

definition silent_run :: "observation list" where
  "silent_run = [sample_ob 7 False, sample_ob 8 False, sample_ob (7 + PROBATION_DEADLINE) False]"

lemma silent_run_rolls_back:
  "\<exists>sv rest. supervise_loop sample_config (Some sample_probation) silent_run sample_os = Some (RolledBack 2 (Some 1), sv, rest)"
proof -
  have "(case supervise_loop sample_config (Some sample_probation) silent_run sample_os of
      Some (e, _, _) \<Rightarrow> e = RolledBack 2 (Some 1) | None \<Rightarrow> False)"
    by code_simp
  then show ?thesis by (auto split: option.splits)
qed

theorem rollback_needs_an_expired_probation_witness:
  "\<exists>sv. rolled_by sample_config silent_run (Some sample_probation) 2 (Some 1) sv"
  using silent_run_rolls_back rollback_needs_an_expired_probation by blast

theorem agents_run_one_at_a_time_witness:
  "\<exists>sv rest. supervise_loop sample_config (Some sample_probation) silent_run sample_os = Some (RolledBack 2 (Some 1), sv, rest) \<and>
     one_at_a_time (sv_actions sv) \<and> explained silent_run rest (sv_actions sv)"
  using silent_run_rolls_back agents_run_one_at_a_time by blast

theorem supervision_stops_witness:
  "\<exists>exit sv rest. supervise_loop sample_config None ([sample_ob 7 False, sample_ob 8 False] @ sample_ob 9 True # [sample_ob 10 False]) sample_os
     = Some (exit, sv, rest) \<and> suffix [sample_ob 10 False] rest"
  by (rule supervision_stops) (simp add: sample_ob_def)

end
