(* ===== verification/RulePaths.thy ===== *)
theory RulePaths
  imports Display Policy
begin

text \<open>
  The path and suffix predicates of the stateful rules (the free functions of
  \<open>crates/rules/src/state.rs\<close>), with the calibration constants of
  \<open>crates/rules/src/exclusions.rs\<close> they read, as abbreviations. A path is a byte string, as
  the source compares it; it is never resolved.
\<close>

subsection \<open>Calibration constants\<close>

abbreviation "PACKAGE_MANAGER_TEMP_RENAME_SUFFIXES \<equiv> [''.dpkg-new'', ''.apk-new'']"
abbreviation "APK_STAGING_FILE_PREFIX \<equiv> ''.apk.''"
abbreviation "PACKAGE_MANAGER_COMMS \<equiv> [''dpkg'', ''dpkg-deb'', ''apt'', ''apt-get'', ''apk'']"
abbreviation "MAILDIR_FLAG_LETTERS \<equiv> ''DFPRST''"
abbreviation "CREATE_UNLINK_PAIR_WINDOW_NS \<equiv> 60000000000 :: nat"

subsection \<open>String methods\<close>

definition in_range :: "nat \<Rightarrow> nat \<Rightarrow> char \<Rightarrow> bool" where
  "in_range a b c \<longleftrightarrow> a \<le> (of_char c :: nat) \<and> (of_char c :: nat) \<le> b"

abbreviation is_ascii_digit :: "char \<Rightarrow> bool" where
  "is_ascii_digit \<equiv> in_range 48 57"

abbreviation is_ascii_lowercase :: "char \<Rightarrow> bool" where
  "is_ascii_lowercase \<equiv> in_range 97 122"

abbreviation is_ascii_alphabetic :: "char \<Rightarrow> bool" where
  "is_ascii_alphabetic c \<equiv> in_range 65 90 c \<or> in_range 97 122 c"

abbreviation is_ascii_hexdigit :: "char \<Rightarrow> bool" where
  "is_ascii_hexdigit c \<equiv> in_range 48 57 c \<or> in_range 65 70 c \<or> in_range 97 102 c"

text \<open>\<open>split_once(sep)\<close>: the text before and after the first occurrence.\<close>

fun split_once :: "string \<Rightarrow> string \<Rightarrow> (string \<times> string) option" where
  "split_once [] sep = (if sep = [] then Some ([], []) else None)"
| "split_once (c # s) sep =
     (if starts_with (c # s) sep then Some ([], drop (length sep) (c # s))
      else map_option (\<lambda>(a, b). (c # a, b)) (split_once s sep))"

text \<open>The text after the last occurrence of a marker: \<open>rfind\<close> and the slice behind it.\<close>

fun after_last_str :: "string \<Rightarrow> string \<Rightarrow> string option" where
  "after_last_str [] marker = (if marker = [] then Some [] else None)"
| "after_last_str (c # s) marker =
     (case after_last_str s marker of
        Some rest \<Rightarrow> Some rest
      | None \<Rightarrow> if starts_with (c # s) marker then Some (drop (length marker) (c # s)) else None)"

text \<open>The text before and after the last separator; without one, an empty directory part.\<close>

definition split_last :: "(char \<Rightarrow> bool) \<Rightarrow> string \<Rightarrow> string \<times> string" where
  "split_last sep path =
     (let base = rev (takeWhile (\<lambda>c. \<not> sep c) (rev path))
      in if length base = length path then ([], path)
         else (take (length path - length base - 1) path, base))"

subsection \<open>Suffixes\<close>

definition is_rotation_suffix :: "string \<Rightarrow> bool" where
  "is_rotation_suffix suf = (\<not> list_ex is_ascii_alphabetic suf)"

definition is_all_digits :: "string \<Rightarrow> bool" where
  "is_all_digits s = (s \<noteq> [] \<and> list_all is_ascii_digit s)"

definition is_dev_fd_path :: "string \<Rightarrow> bool" where
  "is_dev_fd_path path = (case strip_prefix path ''/dev/fd/'' of None \<Rightarrow> False | Some n \<Rightarrow> is_all_digits n)"

text \<open>\<open>parse\<close> on a text of digits: the value, if it is within the type's largest value.\<close>

definition parse_upto :: "nat \<Rightarrow> string \<Rightarrow> nat option" where
  "parse_upto limit s = Option.bind (parse_u64 s) (\<lambda>n. if n \<le> limit then Some n else None)"

definition proc_fd_number :: "string \<Rightarrow> nat \<Rightarrow> int option" where
  "proc_fd_number path own_pid =
     (case strip_prefix path ''/proc/'' of
        None \<Rightarrow> None
      | Some rest \<Rightarrow>
          (case split_once rest ''/fd/'' of
             None \<Rightarrow> None
           | Some (pid_or_self, fd) \<Rightarrow>
               let own = pid_or_self = ''self'' \<or>
                         (is_all_digits pid_or_self \<and> parse_upto (2 ^ 32 - 1) pid_or_self = Some own_pid)
               in if \<not> own \<or> \<not> is_all_digits fd then None
                  else map_option int (parse_upto (2 ^ 31 - 1) fd)))"

subsection \<open>Package managers\<close>

definition is_apk_staging_rename :: "string \<Rightarrow> string \<Rightarrow> bool" where
  "is_apk_staging_rename old_path new_path =
     (let (old_dir, old_base) = split_last (\<lambda>c. c = CHR ''/'') old_path;
          (new_dir, _) = split_last (\<lambda>c. c = CHR ''/'') new_path
      in old_dir = new_dir \<and>
         (case strip_prefix old_base APK_STAGING_FILE_PREFIX of
            None \<Rightarrow> False
          | Some hex \<Rightarrow> hex \<noteq> [] \<and> list_all is_ascii_hexdigit hex))"

definition is_package_manager_temp_rename :: "string \<Rightarrow> string \<Rightarrow> string \<Rightarrow> bool" where
  "is_package_manager_temp_rename old_path new_path comm =
     (comm \<in> set PACKAGE_MANAGER_COMMS \<and>
      ((case strip_prefix old_path new_path of
          None \<Rightarrow> False
        | Some suf \<Rightarrow> suf \<in> set PACKAGE_MANAGER_TEMP_RENAME_SUFFIXES) \<or>
       is_apk_staging_rename old_path new_path))"

subsection \<open>Appended suffixes and Maildir\<close>

definition split_dir_base :: "string \<Rightarrow> string \<times> string" where
  "split_dir_base path = split_last (\<lambda>c. c = CHR ''/'' \<or> c = backslash) path"

definition appended_suffix :: "string \<Rightarrow> string \<Rightarrow> string option" where
  "appended_suffix old_path new_path =
     (case strip_prefix new_path old_path of
        Some suf \<Rightarrow> Some suf
      | None \<Rightarrow>
          let old_base = snd (split_dir_base old_path);
              new_base = snd (split_dir_base new_path)
          in if old_base = [] then None else strip_prefix new_base old_base)"

definition is_maildir_flags :: "string \<Rightarrow> bool" where
  "is_maildir_flags flags =
     (let keywords = dropWhile (\<lambda>c. c \<in> set MAILDIR_FLAG_LETTERS) flags
      in list_all is_ascii_lowercase keywords)"

definition is_maildir_info_suffix :: "string \<Rightarrow> bool" where
  "is_maildir_info_suffix suf = (case strip_prefix suf '':2,'' of None \<Rightarrow> False | Some f \<Rightarrow> is_maildir_flags f)"

definition is_maildir_delivery :: "string \<Rightarrow> string \<Rightarrow> string \<Rightarrow> bool" where
  "is_maildir_delivery old_path new_path suf =
     (if \<not> is_maildir_info_suffix suf then False
      else let (old_dir, _) = split_dir_base old_path;
               (new_dir, _) = split_dir_base new_path;
               (old_parent, old_leaf) = split_dir_base old_dir;
               (new_parent, new_leaf) = split_dir_base new_dir
           in old_leaf = ''new'' \<and> new_leaf = ''cur'' \<and> old_parent = new_parent)"

definition is_maildir_flag_change :: "string \<Rightarrow> string \<Rightarrow> bool" where
  "is_maildir_flag_change old_path suf =
     (if suf = [] \<or> \<not> is_maildir_flags suf then False
      else case after_last_str old_path '':2,'' of
             None \<Rightarrow> False
           | Some flags \<Rightarrow> is_maildir_flags flags)"

definition pairs_create_and_unlink :: "nat \<Rightarrow> string \<Rightarrow> nat \<Rightarrow> string \<Rightarrow> bool" where
  "pairs_create_and_unlink created_ts created deleted_ts deleted =
     (created_ts \<le> deleted_ts \<and> deleted_ts - created_ts \<le> CREATE_UNLINK_PAIR_WINDOW_NS \<and>
      (case appended_suffix deleted created of
         None \<Rightarrow> False
       | Some suf \<Rightarrow> suf \<noteq> [] \<and> \<not> is_rotation_suffix suf \<and> \<not> is_maildir_delivery deleted created suf))"

subsection \<open>Names and delays\<close>

definition written_file_is :: "string \<Rightarrow> string \<Rightarrow> bool" where
  "written_file_is path comm =
     (if 1 < length path \<and> path ! 1 = CHR '':'' \<or> starts_with path [backslash, backslash]
      then eq_ignore_ascii_case (after_last backslash path) comm
      else after_last (CHR ''/'') path = comm)"

definition format_delta :: "nat \<Rightarrow> string" where
  "format_delta delta_ns = fmt_fixed 1 (real delta_ns / 1000000000) @ ''s''"

subsection \<open>Facts\<close>

lemma split_once_Some: "split_once s sep = Some (a, b) \<Longrightarrow> s = a @ sep @ b"
proof (induction s arbitrary: a b)
  case (Cons c s)
  then show ?case
    by (auto simp: starts_with_prefix prefix_def split: if_splits)
qed (auto split: if_splits)

lemma after_last_str_short: "length s < length marker \<Longrightarrow> after_last_str s marker = None"
  by (induction s) (auto simp: starts_with_prefix dest: prefix_length_le)

lemma after_last_str_end: "marker \<noteq> [] \<Longrightarrow> after_last_str (p @ marker) marker = Some []"
proof (induction p)
  case Nil
  then obtain c m where "marker = c # m" by (cases marker) auto
  then show ?case using after_last_str_short [of m "c # m"] by (simp add: starts_with_prefix)
qed simp

lemma appended_suffix_same_dir [simp]: "appended_suffix p (p @ s) = Some s"
  by (simp add: appended_suffix_def)

lemma rotation_iff: "is_rotation_suffix s \<longleftrightarrow> (\<forall>c \<in> set s. \<not> is_ascii_alphabetic c)"
  by (auto simp: is_rotation_suffix_def list_ex_iff)

end
