(* ===== verification/LdTrust.thy ===== *)
theory LdTrust
  imports Layout "HOL-Library.Code_Target_Nat"
begin

text \<open>
  The dynamic linker's trust set (\<open>crates/rules/src/ld_trust.rs\<close>): the entries of an
  \<open>LD_PRELOAD\<close> value against the trusted prefixes, the parser of \<open>ld.so.conf\<close>, the walk over its
  includes and the wildcard match. The files read and the directories listed are arguments, as in
  the code. A path is a string; the working of \<open>Path::parent\<close>, \<open>file_name\<close> and \<open>join\<close> on it is that of the component model.
\<close>

subsection \<open>Trusted entries\<close>

definition LD_TRUST_PREFIXES :: "string list" where
  "LD_TRUST_PREFIXES = [''/lib/'', ''/lib64/'', ''/usr/lib/'', ''/usr/lib64/'', ''/usr/local/lib/'']"

definition NEVER_TRUSTED :: "string list" where
  "NEVER_TRUSTED = [''/tmp/'', ''/var/tmp/'', ''/dev/shm/'']"

definition MAX_INCLUDE_DEPTH :: nat where
  "MAX_INCLUDE_DEPTH = 8"

definition all_paths_trusted :: "string \<Rightarrow> string list \<Rightarrow> bool" where
  "all_paths_trusted val extra =
     list_all (\<lambda>p. \<not> starts_with p ''/'' \<or> list_ex (starts_with p) LD_TRUST_PREFIXES \<or> list_ex (starts_with p) extra)
       (filter (\<lambda>p. p \<noteq> []) (split_on (CHR '':'') val))"

subsection \<open>Wildcards\<close>

text \<open>The loop of \<open>wildcard_match\<close>: the two positions and the last star with the text position tried for it.\<close>

partial_function (option) wildcard_loop :: "string \<Rightarrow> string \<Rightarrow> nat \<Rightarrow> nat \<Rightarrow> (nat \<times> nat) option \<Rightarrow> bool option" where
  "wildcard_loop pattern str p t star =
     (if t < length str then
        if p < length pattern \<and> (pattern ! p = CHR ''?'' \<or> pattern ! p = str ! t)
        then wildcard_loop pattern str (p + 1) (t + 1) star
        else if p < length pattern \<and> pattern ! p = CHR ''*''
        then wildcard_loop pattern str (p + 1) t (Some (p, t))
        else (case star of
                Some (sp, st) \<Rightarrow> wildcard_loop pattern str (sp + 1) (st + 1) (Some (sp, st + 1))
              | None \<Rightarrow> Some False)
      else Some (list_all (\<lambda>c. c = CHR ''*'') (drop p pattern)))"

declare wildcard_loop.simps [code]

definition wildcard_match :: "string \<Rightarrow> string \<Rightarrow> bool option" where
  "wildcard_match pattern str = wildcard_loop pattern str 0 0 None"

text \<open>What a pattern means: a star stands for any text, a question mark for one character.\<close>

fun glob :: "string \<Rightarrow> string \<Rightarrow> bool" where
  "glob [] str = (str = [])"
| "glob (c # p) str =
     (if c = CHR ''*'' then glob p str \<or> (case str of [] \<Rightarrow> False | _ # rest \<Rightarrow> glob (c # p) rest)
      else (case str of [] \<Rightarrow> False | x # rest \<Rightarrow> (c = CHR ''?'' \<or> c = x) \<and> glob p rest))"

declare glob.simps(2) [simp del]

lemma glob_char: "c \<noteq> CHR ''*'' \<Longrightarrow> glob (c # p) (x # rest) \<longleftrightarrow> (c = CHR ''?'' \<or> c = x) \<and> glob p rest"
  by (subst glob.simps(2)) simp

lemma glob_char_Nil: "c \<noteq> CHR ''*'' \<Longrightarrow> \<not> glob (c # p) []"
  by (subst glob.simps(2)) simp

lemma glob_star_step: "glob (CHR ''*'' # p) str \<longleftrightarrow> glob p str \<or> (\<exists>x rest. str = x # rest \<and> glob (CHR ''*'' # p) rest)"
  by (subst glob.simps(2)) (auto split: list.split)

lemma glob_star: "glob (CHR ''*'' # p) str \<longleftrightarrow> (\<exists>k \<le> length str. glob p (drop k str))"
proof (induction str)
  case Nil
  show ?case by (subst glob_star_step) simp
next
  case (Cons x str)
  have "(\<exists>k \<le> length (x # str). glob p (drop k (x # str))) \<longleftrightarrow> glob p (x # str) \<or> (\<exists>k \<le> length str. glob p (drop k str))"
    by (metis (no_types, opaque_lifting) Suc_le_mono drop0 drop_Suc_Cons le0 length_Cons not0_implies_Suc)
  then show ?case using Cons.IH by (subst glob_star_step) simp
qed

lemma glob_star_more: "glob (CHR ''*'' # p) (drop k str) \<Longrightarrow> glob (CHR ''*'' # p) str"
proof -
  assume "glob (CHR ''*'' # p) (drop k str)"
  then obtain j where "j \<le> length str - k" "glob p (drop (j + k) str)" by (auto simp: glob_star)
  moreover have "drop (j + k) str = drop (length str) str" if "\<not> k \<le> length str" using that by simp
  ultimately show ?thesis
    unfolding glob_star by (cases "k \<le> length str") (metis add_le_imp_le_diff diff_add le_add2 add_le_mono1, metis order_refl)
qed

lemma glob_Nil: "glob p [] \<longleftrightarrow> list_all (\<lambda>c. c = CHR ''*'') p"
proof (induction p)
  case (Cons c p)
  then show ?case by (cases "c = CHR ''*''") (auto simp: glob_star glob_char_Nil)
qed simp

text \<open>A run without stars matches character by character.\<close>

fun plain_match :: "string \<Rightarrow> string \<Rightarrow> bool" where
  "plain_match [] str = (str = [])"
| "plain_match (c # p) [] = False"
| "plain_match (c # p) (x # rest) = (c \<noteq> CHR ''*'' \<and> (c = CHR ''?'' \<or> c = x) \<and> plain_match p rest)"

lemma plain_match_length: "plain_match w u \<Longrightarrow> length w = length u \<and> CHR ''*'' \<notin> set w"
  by (induction w u rule: plain_match.induct) auto

lemma plain_match_snoc:
  "plain_match w u \<Longrightarrow> c \<noteq> CHR ''*'' \<Longrightarrow> c = CHR ''?'' \<or> c = x \<Longrightarrow> plain_match (w @ [c]) (u @ [x])"
  by (induction w u rule: plain_match.induct) auto

lemma glob_plain_append: "plain_match w u \<Longrightarrow> glob (w @ p) (u @ str) \<longleftrightarrow> glob p str"
  by (induction w u rule: plain_match.induct) (auto simp: glob_char)

lemma glob_after: "CHR ''*'' \<notin> set w \<Longrightarrow> glob (w @ q) str \<Longrightarrow> glob q (drop (length w) str)"
proof (induction w arbitrary: str)
  case (Cons c w)
  then show ?case by (cases str) (auto simp: glob_char glob_char_Nil)
qed simp

definition chars_needed :: "string \<Rightarrow> nat" where
  "chars_needed p = length (filter (\<lambda>c. c \<noteq> CHR ''*'') p)"

lemma chars_needed_plain: "CHR ''*'' \<notin> set w \<Longrightarrow> chars_needed w = length w"
  unfolding chars_needed_def by (induction w) auto

lemma glob_needs: "glob p str \<Longrightarrow> chars_needed p \<le> length str"
proof (induction p arbitrary: str)
  case (Cons c p)
  show ?case
  proof (cases "c = CHR ''*''")
    case True
    with Cons.prems obtain k where "k \<le> length str" "glob p (drop k str)" by (auto simp: glob_star)
    with Cons.IH [of "drop k str"] True show ?thesis by (simp add: chars_needed_def)
  next
    case False
    with Cons.prems obtain x rest where str: "str = x # rest" by (cases str) (auto simp: glob_char_Nil)
    then have "glob p rest" using Cons.prems False by (simp add: glob_char)
    with Cons.IH [of rest] False str show ?thesis by (simp add: chars_needed_def)
  qed
qed (simp add: chars_needed_def)

text \<open>
  The invariant of the loop. Without a star so far, the rest of the pattern must match the rest of
  the text. With a star at \<open>sp\<close>, the text from \<open>st\<close> on must match from that star on, and the
  characters between the star and \<open>p\<close> match the text between \<open>st\<close> and \<open>t\<close>.
\<close>

definition loop_inv :: "string \<Rightarrow> string \<Rightarrow> nat \<Rightarrow> nat \<Rightarrow> (nat \<times> nat) option \<Rightarrow> bool" where
  "loop_inv pattern str p t star \<longleftrightarrow> p \<le> length pattern \<and> t \<le> length str \<and>
     (case star of
        None \<Rightarrow> glob pattern str \<longleftrightarrow> glob (drop p pattern) (drop t str)
      | Some (sp, st) \<Rightarrow> sp < p \<and> st \<le> t \<and> pattern ! sp = CHR ''*'' \<and>
          (glob pattern str \<longleftrightarrow> glob (drop sp pattern) (drop st str)) \<and>
          (\<exists>w u. drop (sp + 1) pattern = w @ drop p pattern \<and> drop st str = u @ drop t str \<and> plain_match w u))"

lemma drop_at: "i < length xs \<Longrightarrow> drop i xs = xs ! i # drop (i + 1) xs"
  by (simp add: Cons_nth_drop_Suc)

lemma inv_match:
  assumes "loop_inv pattern str p t star" and "p < length pattern" and "t < length str"
    and "pattern ! p = CHR ''?'' \<or> pattern ! p = str ! t" and "CHR ''*'' \<notin> set str"
  shows "loop_inv pattern str (p + 1) (t + 1) star"
proof -
  have c: "pattern ! p \<noteq> CHR ''*''" using assms(3-5) nth_mem by fastforce
  note P = drop_at [OF assms(2)] and T = drop_at [OF assms(3)]
  show ?thesis
  proof (cases star)
    case None
    then show ?thesis using assms c by (auto simp: loop_inv_def P T glob_char)
  next
    case (Some s)
    obtain sp st where s: "s = (sp, st)" by (cases s)
    obtain w u where wu: "drop (sp + 1) pattern = w @ drop p pattern" "drop st str = u @ drop t str" "plain_match w u"
      using assms(1) Some s by (auto simp: loop_inv_def)
    have "drop (sp + 1) pattern = (w @ [pattern ! p]) @ drop (p + 1) pattern" "drop st str = (u @ [str ! t]) @ drop (t + 1) str"
      using wu(1,2) P T by simp_all
    moreover have "plain_match (w @ [pattern ! p]) (u @ [str ! t])" by (rule plain_match_snoc [OF wu(3) c assms(4)])
    ultimately have "\<exists>w u. drop (sp + 1) pattern = w @ drop (p + 1) pattern \<and> drop st str = u @ drop (t + 1) str \<and> plain_match w u"
      by blast
    then show ?thesis using assms(1-3) Some s by (auto simp: loop_inv_def)
  qed
qed

lemma inv_star:
  assumes "loop_inv pattern str p t star" and "p < length pattern" and "pattern ! p = CHR ''*''"
  shows "loop_inv pattern str (p + 1) t (Some (p, t))"
proof -
  note P = drop_at [OF assms(2)]
  have "glob pattern str \<longleftrightarrow> glob (drop p pattern) (drop t str)"
  proof (cases star)
    case None
    then show ?thesis using assms(1) by (simp add: loop_inv_def)
  next
    case (Some s)
    obtain sp st where s: "s = (sp, st)" by (cases s)
    obtain w u where wu: "drop (sp + 1) pattern = w @ drop p pattern" "drop st str = u @ drop t str" "plain_match w u"
      and sp: "sp < p" "pattern ! sp = CHR ''*''" and g: "glob pattern str \<longleftrightarrow> glob (drop sp pattern) (drop st str)"
      using assms(1) Some s by (auto simp: loop_inv_def)
    have from_star: "drop sp pattern = CHR ''*'' # w @ drop p pattern"
      using drop_at [of sp pattern] sp wu(1) assms(2) by simp
    have u: "drop (length w) (drop k (drop st str)) = drop k (drop t str)" for k
    proof -
      have "drop (length w) (drop k (drop st str)) = drop k (drop (length w) (drop st str))" by (simp add: ac_simps)
      also have "drop (length w) (drop st str) = drop t str" using plain_match_length [OF wu(3)] unfolding wu(2) by simp
      finally show ?thesis .
    qed
    have "glob (drop p pattern) (drop t str)" if star: "glob (drop sp pattern) (drop st str)"
    proof -
      obtain k where k: "glob (w @ drop p pattern) (drop k (drop st str))"
        using star unfolding from_star glob_star by blast
      have "glob (drop p pattern) (drop k (drop t str))"
        using glob_after [OF conjunct2 [OF plain_match_length [OF wu(3)]] k] unfolding u .
      then show ?thesis unfolding P assms(3) by (rule glob_star_more)
    qed
    moreover have "glob (drop sp pattern) (drop st str)" if "glob (drop p pattern) (drop t str)"
    proof -
      have "glob (w @ drop p pattern) (drop 0 (drop st str))"
        using that glob_plain_append [OF wu(3)] unfolding wu(2) by simp
      then show ?thesis unfolding from_star glob_star by blast
    qed
    ultimately show ?thesis using g by blast
  qed
  moreover have "\<exists>w u. drop (p + 1) pattern = w @ drop (p + 1) pattern \<and> drop t str = u @ drop t str \<and> plain_match w u"
    by (rule exI [of _ "[]"], rule exI [of _ "[]"]) simp
  ultimately show ?thesis using assms by (simp add: loop_inv_def split: option.splits prod.splits)
qed

lemma inv_backtrack:
  assumes "loop_inv pattern str p t (Some (sp, st))" and "t < length str"
    and "\<not> (p < length pattern \<and> (pattern ! p = CHR ''?'' \<or> pattern ! p = str ! t))"
    and "\<not> (p < length pattern \<and> pattern ! p = CHR ''*'')"
  shows "loop_inv pattern str (sp + 1) (st + 1) (Some (sp, st + 1))"
proof -
  obtain w u where wu: "drop (sp + 1) pattern = w @ drop p pattern" "drop st str = u @ drop t str" "plain_match w u"
    and sp: "sp < p" "pattern ! sp = CHR ''*''" "st \<le> t" "p \<le> length pattern"
    and g: "glob pattern str \<longleftrightarrow> glob (drop sp pattern) (drop st str)"
    using assms(1) by (auto simp: loop_inv_def)
  have rest: "drop sp pattern = CHR ''*'' # drop (sp + 1) pattern" using drop_at [of sp pattern] sp by simp
  have st: "drop st str = str ! st # drop (st + 1) str" using drop_at [of st str] sp(3) assms(2) by simp
  have "\<not> glob (drop p pattern) (drop t str)"
    using assms(2-4) drop_at [of t str] drop_at [of p pattern] by (cases "p < length pattern") (auto simp: glob_char)
  then have "\<not> glob (drop (sp + 1) pattern) (drop st str)" unfolding wu(1,2) using glob_plain_append [OF wu(3)] by simp
  then have "glob (drop sp pattern) (drop st str) \<longleftrightarrow> glob (drop sp pattern) (drop (st + 1) str)"
    unfolding rest st by (subst glob_star_step) simp
  moreover have "\<exists>w u. drop (sp + 1) pattern = w @ drop (sp + 1) pattern \<and> drop (st + 1) str = u @ drop (st + 1) str \<and> plain_match w u"
    by (rule exI [of _ "[]"], rule exI [of _ "[]"]) simp
  ultimately show ?thesis using g sp assms(2) by (simp add: loop_inv_def)
qed

lemma inv_end:
  assumes "loop_inv pattern str p t star" and "\<not> t < length str"
  shows "glob pattern str \<longleftrightarrow> list_all (\<lambda>c. c = CHR ''*'') (drop p pattern)"
proof (cases star)
  case None
  then show ?thesis using assms by (simp add: loop_inv_def glob_Nil)
next
  case (Some s)
  obtain sp st where s: "s = (sp, st)" by (cases s)
  obtain w where w: "drop (sp + 1) pattern = w @ drop p pattern" "plain_match w (drop st str)"
    and sp: "sp < p" "pattern ! sp = CHR ''*''" "p \<le> length pattern"
    and g: "glob pattern str \<longleftrightarrow> glob (drop sp pattern) (drop st str)"
    using assms Some s by (auto simp: loop_inv_def)
  have rest: "drop sp pattern = CHR ''*'' # w @ drop p pattern" using drop_at [of sp pattern] sp w(1) by simp
  have "glob (w @ drop p pattern) (drop st str) \<longleftrightarrow> glob (drop p pattern) []"
    using glob_plain_append [OF w(2), of "drop p pattern" "[]"] by simp
  moreover have "list_all (\<lambda>c. c = CHR ''*'') (drop p pattern)" if "glob (w @ drop p pattern) (drop k (drop st str))" for k
  proof -
    have "chars_needed (w @ drop p pattern) \<le> length (drop st str) - k" using glob_needs [OF that] by simp
    moreover have "chars_needed w = length (drop st str)"
      using plain_match_length [OF w(2)] chars_needed_plain by simp
    moreover have "chars_needed (w @ drop p pattern) = chars_needed w + chars_needed (drop p pattern)"
      by (simp add: chars_needed_def)
    ultimately have "chars_needed (drop p pattern) = 0" by linarith
    then show ?thesis by (auto simp: chars_needed_def list_all_iff filter_empty_conv)
  qed
  ultimately show ?thesis
    unfolding g rest by (metis drop0 glob_Nil glob_star le0)
qed

definition tries_left :: "string \<Rightarrow> (nat \<times> nat) option \<Rightarrow> nat" where
  "tries_left str star = (case star of None \<Rightarrow> length str + 1 | Some (_, st) \<Rightarrow> length str - st)"

lemma wildcard_loop_correct:
  assumes "loop_inv pattern str p t star" and "CHR ''*'' \<notin> set str"
  shows "wildcard_loop pattern str p t star = Some (glob pattern str)"
  using assms(1)
proof (induction "(tries_left str star, length pattern - p)" arbitrary: p t star
    rule: wf_induct_rule [OF wf_lex_prod [OF wf_less_than wf_less_than]])
  case (1 p star t)
  note inv = "1.prems"
  show ?case
  proof (cases "t < length str")
    case False
    then show ?thesis using inv_end [OF inv] by (subst wildcard_loop.simps) simp
  next
    case t: True
    consider (match) "p < length pattern" "pattern ! p = CHR ''?'' \<or> pattern ! p = str ! t"
      | (star) "p < length pattern" "pattern ! p = CHR ''*''" "\<not> (pattern ! p = CHR ''?'' \<or> pattern ! p = str ! t)"
      | (fail) "\<not> (p < length pattern \<and> (pattern ! p = CHR ''?'' \<or> pattern ! p = str ! t))" "\<not> (p < length pattern \<and> pattern ! p = CHR ''*'')"
      by blast
    then show ?thesis
    proof cases
      case match
      then have "wildcard_loop pattern str (p + 1) (t + 1) star = Some (glob pattern str)"
        by (intro "1.hyps" inv_match [OF inv _ t _ assms(2)]) auto
      then show ?thesis using t match by (subst wildcard_loop.simps) simp
    next
      case star
      have "tries_left str (Some (p, t)) \<le> tries_left str star"
        using inv by (auto simp: tries_left_def loop_inv_def split: option.splits)
      then have "wildcard_loop pattern str (p + 1) t (Some (p, t)) = Some (glob pattern str)"
        using star by (intro "1.hyps" inv_star [OF inv]) auto
      then show ?thesis using t star by (subst wildcard_loop.simps) auto
    next
      case fail
      show ?thesis
      proof (cases star)
        case None
        then have "\<not> glob pattern str"
          using inv fail t drop_at [of t str] drop_at [of p pattern]
          by (cases "p < length pattern") (auto simp: loop_inv_def glob_char)
        then show ?thesis using t fail None by (subst wildcard_loop.simps) auto
      next
        case (Some s)
        obtain sp st where s: "s = (sp, st)" by (cases s)
        then have "wildcard_loop pattern str (sp + 1) (st + 1) (Some (sp, st + 1)) = Some (glob pattern str)"
          using inv t Some by (intro "1.hyps" inv_backtrack [OF _ t fail]) (auto simp: tries_left_def loop_inv_def)
        then show ?thesis using t fail Some s by (subst wildcard_loop.simps) auto
      qed
    qed
  qed
qed

lemma wildcard_loop_returns:
  assumes "case star of None \<Rightarrow> True | Some (sp, st) \<Rightarrow> st \<le> t"
  shows "wildcard_loop pattern str p t star \<noteq> None"
  using assms
proof (induction "(tries_left str star, length pattern - p)" arbitrary: p t star
    rule: wf_induct_rule [OF wf_lex_prod [OF wf_less_than wf_less_than]])
  case (1 p star t)
  have match: "wildcard_loop pattern str (p + 1) (t + 1) star \<noteq> None" if "p < length pattern"
    using that "1.prems" by (intro "1.hyps") (auto split: option.splits)
  have star: "wildcard_loop pattern str (p + 1) t (Some (p, t)) \<noteq> None" if "p < length pattern" "t < length str"
  proof -
    have "tries_left str (Some (p, t)) \<le> tries_left str star"
      using "1.prems" by (auto simp: tries_left_def split: option.splits)
    then show ?thesis using that by (intro "1.hyps") auto
  qed
  have again: "wildcard_loop pattern str (sp + 1) (st + 1) (Some (sp, st + 1)) \<noteq> None"
    if "star = Some (sp, st)" "t < length str" for sp st
    using that "1.prems" by (intro "1.hyps") (auto simp: tries_left_def)
  show ?case using match star again by (subst wildcard_loop.simps) (auto split: option.split)
qed

lemma loop_inv_start: "loop_inv pattern str 0 0 None"
  by (simp add: loop_inv_def)

subsection \<open>The configuration file\<close>

datatype LdConfEntry = Dir string | Include string

fun split_by :: "(char \<Rightarrow> bool) \<Rightarrow> string \<Rightarrow> string list" where
  "split_by f [] = [[]]"
| "split_by f (c # s) =
     (if f c then [] # split_by f s
      else (case split_by f s of [] \<Rightarrow> [[c]] | piece # rest \<Rightarrow> (c # piece) # rest))"

definition split_whitespace :: "string \<Rightarrow> string list" where
  "split_whitespace s = filter (\<lambda>w. w \<noteq> []) (split_by is_whitespace s)"

definition conf_line :: "string \<Rightarrow> LdConfEntry list" where
  "conf_line raw =
     (let line = trim (hd (split_on (CHR ''#'') raw)) in
      if line = [] then []
      else case split_whitespace line of
        [] \<Rightarrow> []
      | first # words \<Rightarrow>
          if first = ''include'' then map Include words
          else if first = ''hwcap'' then []
          else map Dir (filter (\<lambda>d. d \<noteq> [])
                 (map (\<lambda>d. trim (hd (split_on (CHR ''='') d)))
                   (split_by (\<lambda>c. is_whitespace c \<or> c = CHR '','' \<or> c = CHR '':'') line))))"

definition parse_ld_so_conf :: "string \<Rightarrow> LdConfEntry list" where
  "parse_ld_so_conf text = concat (map conf_line (lines_of text))"

subsection \<open>The walk\<close>

definition trim_end_slash :: "string \<Rightarrow> string" where
  "trim_end_slash s = rev (dropWhile (\<lambda>c. c = CHR ''/'') (rev s))"

definition trust_prefix :: "string \<Rightarrow> string option" where
  "trust_prefix dir =
     (if \<not> starts_with dir ''/'' then None
      else let pfx = trim_end_slash dir @ ''/'' in
        if list_ex (starts_with pfx) NEVER_TRUSTED then None else Some pfx)"

definition expand_glob :: "(path \<Rightarrow> path list) \<Rightarrow> path \<Rightarrow> path list" where
  "expand_glob lst pattern =
     (case file_name pattern of
        None \<Rightarrow> []
      | Some name \<Rightarrow>
          if \<not> list_ex (\<lambda>c. c = CHR ''*'' \<or> c = CHR ''?'') name then [pattern]
          else filter (\<lambda>p. case file_name p of None \<Rightarrow> False | Some n \<Rightarrow> wildcard_match name n = Some True)
                 (lst (butlast pattern)))"

text \<open>\<open>PathBuf\<close>s compare component by component, each as its bytes.\<close>

fun bytes_le :: "string \<Rightarrow> string \<Rightarrow> bool" where
  "bytes_le [] b = True"
| "bytes_le (x # a) [] = False"
| "bytes_le (x # a) (y # b) = (if x = y then bytes_le a b else (of_char x :: nat) < of_char y)"

fun path_le :: "path \<Rightarrow> path \<Rightarrow> bool" where
  "path_le [] b = True"
| "path_le (x # a) [] = False"
| "path_le (x # a) (y # b) = (if x = y then path_le a b else bytes_le x y)"

fun insert_path :: "path \<Rightarrow> path list \<Rightarrow> path list" where
  "insert_path p [] = [p]"
| "insert_path p (q # qs) = (if path_le p q then p # q # qs else q # insert_path p qs)"

definition sort_paths :: "path list \<Rightarrow> path list" where
  "sort_paths ps = foldr insert_path ps []"

record walk_state =
  seen_files :: "path list"
  seen_dirs :: "string list"
  found_dirs :: "string list"

definition walk_dir :: "string \<Rightarrow> walk_state \<Rightarrow> walk_state" where
  "walk_dir dir w =
     (case trust_prefix dir of
        None \<Rightarrow> w
      | Some pfx \<Rightarrow>
          if pfx \<in> set (seen_dirs w) then w
          else w\<lparr>seen_dirs := pfx # seen_dirs w, found_dirs := found_dirs w @ [pfx]\<rparr>)"

definition included_files :: "(path \<Rightarrow> path list) \<Rightarrow> path \<Rightarrow> string \<Rightarrow> path list" where
  "included_files lst base pattern = sort_paths (expand_glob lst (join_path base pattern))"

text \<open>The measure of the walk: the depth left, then the kind of call, then what is left of the list.\<close>

definition walk_rank :: "_ \<Rightarrow> nat \<times> nat \<times> nat" where
  "walk_rank x = (case x of
      Inl (_, _, _, d, _) \<Rightarrow> (MAX_INCLUDE_DEPTH + 2 - d, if d \<le> MAX_INCLUDE_DEPTH then 3 else 0, 0)
    | Inr (Inl (_, _, _, es, d, _)) \<Rightarrow> (MAX_INCLUDE_DEPTH + 2 - d, 2, length es)
    | Inr (Inr (_, _, fs, d, _)) \<Rightarrow> (MAX_INCLUDE_DEPTH + 2 - d, if d \<le> MAX_INCLUDE_DEPTH then 4 else 1, length fs))"

function (sequential) walk :: "(path \<Rightarrow> string option) \<Rightarrow> (path \<Rightarrow> path list) \<Rightarrow> path \<Rightarrow> nat \<Rightarrow> walk_state \<Rightarrow> walk_state"
  and walk_entries :: "(path \<Rightarrow> string option) \<Rightarrow> (path \<Rightarrow> path list) \<Rightarrow> path \<Rightarrow> LdConfEntry list \<Rightarrow> nat \<Rightarrow> walk_state \<Rightarrow> walk_state"
  and walk_files :: "(path \<Rightarrow> string option) \<Rightarrow> (path \<Rightarrow> path list) \<Rightarrow> path list \<Rightarrow> nat \<Rightarrow> walk_state \<Rightarrow> walk_state" where
  "walk rd lst file depth w =
     (if depth > MAX_INCLUDE_DEPTH \<or> file \<in> set (seen_files w) then w
      else let w' = w\<lparr>seen_files := file # seen_files w\<rparr> in
        case rd file of
          None \<Rightarrow> w'
        | Some text \<Rightarrow> walk_entries rd lst (butlast file) (parse_ld_so_conf text) depth w')"
| "walk_entries rd lst base [] depth w = w"
| "walk_entries rd lst base (Dir dir # es) depth w = walk_entries rd lst base es depth (walk_dir dir w)"
| "walk_entries rd lst base (Include pattern # es) depth w =
     walk_entries rd lst base es depth (walk_files rd lst (included_files lst base pattern) (depth + 1) w)"
| "walk_files rd lst [] depth w = w"
| "walk_files rd lst (f # fs) depth w = walk_files rd lst fs depth (walk rd lst f depth w)"
  by pat_completeness auto

termination
  by (relation "inv_image (less_than <*lex*> less_than <*lex*> less_than) walk_rank")
     (auto simp: walk_rank_def MAX_INCLUDE_DEPTH_def)

definition collect_ld_dirs :: "(path \<Rightarrow> string option) \<Rightarrow> (path \<Rightarrow> path list) \<Rightarrow> path \<Rightarrow> string list" where
  "collect_ld_dirs rd lst conf =
     found_dirs (walk rd lst conf 0 \<lparr>seen_files = [], seen_dirs = [], found_dirs = []\<rparr>)"

subsection \<open>Properties\<close>

definition trusted_dir :: "string \<Rightarrow> bool" where
  "trusted_dir d \<longleftrightarrow> starts_with d ''/'' \<and> ends_with d ''/'' \<and> \<not> list_ex (starts_with d) NEVER_TRUSTED"

definition dirs_ok :: "walk_state \<Rightarrow> bool" where
  "dirs_ok w \<longleftrightarrow> distinct (found_dirs w) \<and> set (seen_dirs w) = set (found_dirs w) \<and> list_all trusted_dir (found_dirs w)"

lemma trust_prefix_trusted: "trust_prefix d = Some pfx \<Longrightarrow> trusted_dir pfx"
proof -
  assume a: "trust_prefix d = Some pfx"
  then have d: "starts_with d ''/''" and pfx: "pfx = trim_end_slash d @ ''/''" and n: "\<not> list_ex (starts_with pfx) NEVER_TRUSTED"
    by (auto simp: trust_prefix_def Let_def split: if_splits)
  have "trim_end_slash d = [] \<or> hd (trim_end_slash d) = CHR ''/''"
  proof -
    obtain d' where d': "d = CHR ''/'' # d'" using d by (auto simp: starts_with_prefix prefix_def)
    have "prefix (trim_end_slash d) d"
      unfolding trim_end_slash_def suffix_to_prefix [symmetric] using suffix_dropWhile by (metis rev_rev_ident suffix_to_prefix)
    then show ?thesis by (auto simp: d' prefix_Cons)
  qed
  then have "starts_with pfx ''/''" unfolding pfx by (cases "trim_end_slash d") auto
  then show ?thesis using n unfolding trusted_dir_def by (simp add: pfx ends_with_def)
qed

lemma walk_dir_ok: "dirs_ok w \<Longrightarrow> dirs_ok (walk_dir d w)"
  using trust_prefix_trusted by (auto simp: walk_dir_def dirs_ok_def split: option.split)

lemma walk_dir_found: "dirs_ok w \<Longrightarrow> trust_prefix d = Some pfx \<Longrightarrow> pfx \<in> set (found_dirs (walk_dir d w))"
  by (auto simp: walk_dir_def dirs_ok_def)

lemma walk_dir_grows: "set (found_dirs w) \<subseteq> set (found_dirs (walk_dir d w))"
  by (auto simp: walk_dir_def split: option.split)

lemma walk_ok:
  "dirs_ok w \<Longrightarrow> dirs_ok (walk rd lst f depth w)"
  and walk_entries_ok: "dirs_ok w \<Longrightarrow> dirs_ok (walk_entries rd lst base es depth w)"
  and walk_files_ok: "dirs_ok w \<Longrightarrow> dirs_ok (walk_files rd lst files depth w)"
proof (induction rd lst f depth w and rd lst base es depth w and rd lst files depth w rule: walk_walk_entries_walk_files.induct)
  case (1 rd lst f depth w)
  then show ?case by (auto simp: Let_def dirs_ok_def split: option.split)
qed (simp_all add: walk_dir_ok)

lemma walk_grows:
  "set (found_dirs w) \<subseteq> set (found_dirs (walk rd lst f depth w))"
  and walk_entries_grows: "set (found_dirs w) \<subseteq> set (found_dirs (walk_entries rd lst base es depth w))"
  and walk_files_grows: "set (found_dirs w) \<subseteq> set (found_dirs (walk_files rd lst files depth w))"
proof (induction rd lst f depth w and rd lst base es depth w and rd lst files depth w rule: walk_walk_entries_walk_files.induct)
  case (1 rd lst f depth w)
  then show ?case by (auto simp: Let_def split: option.split)
next
  case (3 rd lst base dir es depth w)
  then show ?case using walk_dir_grows by fastforce
next
  case (4 rd lst base pattern es depth w)
  then show ?case by auto
next
  case (6 rd lst f fs depth w)
  then show ?case by auto
qed simp_all

lemma walk_entries_found:
  "dirs_ok w \<Longrightarrow> Dir d \<in> set es \<Longrightarrow> trust_prefix d = Some pfx \<Longrightarrow> pfx \<in> set (found_dirs (walk_entries rd lst base es depth w))"
proof (induction es arbitrary: w)
  case (Cons e es)
  show ?case
  proof (cases "e = Dir d")
    case True
    then show ?thesis using walk_dir_found [OF Cons.prems(1,3)] walk_entries_grows by fastforce
  next
    case False
    then have "Dir d \<in> set es" using Cons.prems(2) by auto
    then show ?thesis
      using Cons.IH Cons.prems(1,3) walk_dir_ok walk_files_ok by (cases e) simp_all
  qed
qed simp

lemma collect_ok:
  "distinct (collect_ld_dirs rd lst conf)" "list_all trusted_dir (collect_ld_dirs rd lst conf)"
proof -
  have "dirs_ok (walk rd lst conf 0 \<lparr>seen_files = [], seen_dirs = [], found_dirs = []\<rparr>)"
    by (rule walk_ok) (simp add: dirs_ok_def)
  then show "distinct (collect_ld_dirs rd lst conf)" "list_all trusted_dir (collect_ld_dirs rd lst conf)"
    by (simp_all add: dirs_ok_def collect_ld_dirs_def)
qed

lemma split_on_none: "c \<notin> set s \<Longrightarrow> split_on c s = [s]"
  by (induction s) auto

lemma trusted_under_never:
  assumes "trusted_dir d" and "starts_with p d" and "bad \<in> set NEVER_TRUSTED" and "starts_with p bad"
  shows "strict_prefix d bad"
  using assms by (auto simp: trusted_dir_def starts_with_prefix list_ex_iff strict_prefix_def dest: prefix_same_cases)

text \<open>
  C10: The wildcard match always returns, and on a file name without a literal star its answer is
  the meaning of the pattern, whatever the number of stars and the backtracking.
\<close>

theorem wildcard_match_is_glob:
  "wildcard_match pattern str \<noteq> None \<and>
   (CHR ''*'' \<notin> set str \<longrightarrow> wildcard_match pattern str = Some (glob pattern str))"
  by (simp add: wildcard_match_def wildcard_loop_returns wildcard_loop_correct loop_inv_start)

theorem wildcard_match_is_glob_witness:
  "wildcard_match ''a*b*?.conf'' ''a1b2bx.conf'' = Some (glob ''a*b*?.conf'' ''a1b2bx.conf'')"
  using wildcard_match_is_glob [of "''a*b*?.conf''" "''a1b2bx.conf''"] by simp

text \<open>
  The trust prefixes collected from \<open>ld.so.conf\<close> and its includes are absolute, end in a
  slash, lie outside the never-trusted directories and occur once each, whatever files and listings
  the walk meets; and every directory the root file itself declares that has a prefix is among them.
\<close>

theorem collect_ld_dirs_spec:
  assumes "rd conf = Some text" and "Dir d \<in> set (parse_ld_so_conf text)" and "trust_prefix d = Some pfx"
  shows "pfx \<in> set (collect_ld_dirs rd lst conf) \<and> distinct (collect_ld_dirs rd lst conf) \<and>
    list_all trusted_dir (collect_ld_dirs rd lst conf)"
proof -
  have "pfx \<in> set (collect_ld_dirs rd lst conf)"
    unfolding collect_ld_dirs_def using assms(1,2)
    by (simp add: MAX_INCLUDE_DEPTH_def walk_entries_found [OF _ _ assms(3)] dirs_ok_def)
  then show ?thesis using collect_ok by blast
qed

theorem collect_ld_dirs_spec_witness:
  "''/opt/app/lib/'' \<in> set (collect_ld_dirs (\<lambda>f. if f = [''etc'', ''ld.so.conf''] then Some ''/opt/app/lib'' else None) (\<lambda>_. []) [''etc'', ''ld.so.conf''])"
proof -
  have "Dir ''/opt/app/lib'' \<in> set (parse_ld_so_conf ''/opt/app/lib'')" by code_simp
  moreover have "trust_prefix ''/opt/app/lib'' = Some ''/opt/app/lib/''" by code_simp
  ultimately show ?thesis
    using collect_ld_dirs_spec [of "\<lambda>f. if f = [''etc'', ''ld.so.conf''] then Some ''/opt/app/lib'' else None"
        "[''etc'', ''ld.so.conf'']" "''/opt/app/lib''" "''/opt/app/lib''" "''/opt/app/lib/''" "\<lambda>_. []"] by simp
qed

text \<open>
  C40: A preloaded library in a never-trusted directory passes only if the collected configuration
  declares a proper ancestor of that directory, and then it does pass. The exclusion of the
  never-trusted directories is by prefix of the declared directory, so it does not cover this case.
\<close>

theorem preload_under_never_trusted:
  assumes "bad \<in> set NEVER_TRUSTED" and "starts_with entry bad" and "CHR '':'' \<notin> set entry"
  shows "all_paths_trusted entry (collect_ld_dirs rd lst conf) \<longleftrightarrow>
    (\<exists>d \<in> set (collect_ld_dirs rd lst conf). strict_prefix d bad)"
proof -
  let ?dirs = "collect_ld_dirs rd lst conf"
  have "entry \<noteq> []" and abs: "starts_with entry ''/''" and builtin: "\<not> list_ex (starts_with entry) LD_TRUST_PREFIXES"
    using assms(1,2) by (auto simp: NEVER_TRUSTED_def LD_TRUST_PREFIXES_def starts_with_prefix prefix_def)
  then have "all_paths_trusted entry ?dirs \<longleftrightarrow> list_ex (starts_with entry) ?dirs"
    by (simp add: all_paths_trusted_def split_on_none [OF assms(3)])
  also have "\<dots> \<longleftrightarrow> (\<exists>d \<in> set ?dirs. strict_prefix d bad)"
  proof -
    have "strict_prefix d bad" if "d \<in> set ?dirs" "starts_with entry d" for d
      using that collect_ok(2) trusted_under_never [OF _ that(2) assms(1,2)] by (auto simp: list_all_iff)
    moreover have "starts_with entry d" if "strict_prefix d bad" for d
      using that assms(2) by (auto simp: starts_with_prefix strict_prefix_def dest: prefix_order.trans)
    ultimately show ?thesis by (auto simp: list_ex_iff)
  qed
  finally show ?thesis .
qed

theorem preload_under_never_trusted_witness:
  "all_paths_trusted ''/var/tmp/evil.so'' (collect_ld_dirs (\<lambda>f. if f = [''etc'', ''ld.so.conf''] then Some ''/var'' else None) (\<lambda>_. []) [''etc'', ''ld.so.conf''])"
proof -
  let ?rd = "\<lambda>f. if f = [''etc'', ''ld.so.conf''] then Some ''/var'' else None"
  have "''/var/'' \<in> set (collect_ld_dirs ?rd (\<lambda>_. []) [''etc'', ''ld.so.conf''])" by code_simp
  moreover have "strict_prefix ''/var/'' ''/var/tmp/''" by simp
  ultimately have "\<exists>d \<in> set (collect_ld_dirs ?rd (\<lambda>_. []) [''etc'', ''ld.so.conf'']). strict_prefix d ''/var/tmp/''" by blast
  moreover have "''/var/tmp/'' \<in> set NEVER_TRUSTED" "starts_with ''/var/tmp/evil.so'' ''/var/tmp/''" "CHR '':'' \<notin> set ''/var/tmp/evil.so''"
    by (simp_all add: NEVER_TRUSTED_def)
  ultimately show ?thesis using preload_under_never_trusted by blast
qed

end
