(* ===== verification/RuleState.thy ===== *)
theory RuleState
  imports Bounded Sliding RulePaths LdTrust
begin

text \<open>
  The stateful rules (\<open>crates/rules/src/state.rs\<close>): the record \<open>rule_state\<close> has the fields of
  \<open>RuleState\<close>, one definition models each check and each \<open>on_\<close> handler, and the three stateless checks
  the handlers call (\<open>crates/rules/src/stateless.rs\<close>) are included. The constants of
  \<open>crates/rules/src/exclusions.rs\<close> are abbreviations.

  What the code reads of its host is the record \<open>rule_host\<close>: the text of \<open>/proc/<pid>/comm\<close> and the
  Unicode lower case of a path. The iteration order of a hash map is the order of the entry list. The
  mutable reference that \<open>get_or_insert_with\<close> returns is a value and the assignment made through it.
\<close>

subsection \<open>Calibration constants\<close>

abbreviation "DOWNLOADER_COMMS \<equiv> [''curl'', ''wget'', ''curl.exe'', ''wget.exe'', ''certutil.exe'']"
abbreviation "SHELL_COMMS \<equiv> [''sh'', ''bash'', ''dash'', ''zsh'', ''ash'']"
abbreviation "SERVICE_COMMS \<equiv> [''nginx'', ''apache2'', ''httpd'', ''mysqld'', ''mariadbd'', ''postgres'']"
abbreviation "SERVICE_COMM_PREFIXES \<equiv> [''php-fpm'']"
abbreviation "DOWNLOAD_EXEC_WINDOW_NS \<equiv> 60000000000 :: nat"
abbreviation "MEMFD_EXEC_WINDOW_NS \<equiv> 5000000000 :: nat"
abbreviation "QUARANTINE_EXEC_WINDOW_NS \<equiv> 600000000000 :: nat"
abbreviation "SELF_SPAWN_THRESHOLD \<equiv> 3 :: nat"
abbreviation "SELF_SPAWN_WINDOW_NS \<equiv> 30000000000 :: nat"
abbreviation "AUTH_FAILURE_THRESHOLD \<equiv> 5 :: nat"
abbreviation "AUTH_FAILURE_WINDOW_NS \<equiv> 60000000000 :: nat"
abbreviation "BEACON_THRESHOLD \<equiv> 3 :: nat"
abbreviation "BEACON_WINDOW_NS \<equiv> 60000000000 :: nat"
abbreviation "SCAN_SPREAD_THRESHOLD \<equiv> 20 :: nat"
abbreviation "SCAN_SPREAD_WINDOW_NS \<equiv> 10000000000 :: nat"
abbreviation "RANSOMWARE_RENAME_THRESHOLD \<equiv> 20 :: nat"
abbreviation "RANSOMWARE_RENAME_WINDOW_NS \<equiv> 5000000000 :: nat"
abbreviation "RANSOMWARE_LOOP_CHILD_MAX \<equiv> 3 :: nat"
abbreviation "BURST_WRITE_BYTES_THRESHOLD \<equiv> 100 * 1024 * 1024 :: nat"
abbreviation "RANSOMWARE_EXCLUDED_PATH_PREFIXES \<equiv> [''/tmp/'', ''/var/tmp/'']"
abbreviation "IN_PLACE_EDIT_COMMS \<equiv> [''sed'']"
abbreviation "COMPRESSOR_COMMS \<equiv> [''gzip'', ''bzip2'', ''xz'', ''zstd'', ''lz4'', ''pigz'', ''pbzip2'', ''lzma'']"
abbreviation "COMPRESSION_DRIVER_COMMS \<equiv> [''logrotate'']"
abbreviation "COMPRESSION_SUFFIXES \<equiv> [''.gz'', ''.xz'', ''.bz2'', ''.zst'', ''.lz4'', ''.lzma'']"
abbreviation "CREATE_UNLINK_HISTORY_PER_PID \<equiv> 64 :: nat"
abbreviation "CREATE_UNLINK_PID_CAP \<equiv> 1024 :: nat"
abbreviation "TASK_REGISTRATION_DEDUP_WINDOW_NS \<equiv> 60000000000 :: nat"
abbreviation "SELF_SPAWN_EXCLUSIONS \<equiv>
  [''MpCmdRun.exe'', ''mpcmdrun.exe'', ''TiWorker.exe'', ''svchost.exe'', ''wermgr.exe'', ''WerFault.exe'',
   ''WerFaultSecure.exe'', ''SecurityHealthH'', ''SecurityHealthHost.exe'']"
abbreviation "SELF_SPAWN_PARENT_EXCLUSIONS \<equiv> [''RuntimeBroker.exe'']"
abbreviation "AGENT_CHILD_EXCLUSIONS \<equiv> [''wevtutil.exe'', ''auditpol.exe'', ''logman.exe'']"
abbreviation "LOLBINS \<equiv>
  [''aspnet_compiler.exe'', ''aspnet_compiler'', ''msbuild.exe'', ''installutil.exe'', ''regasm.exe'',
   ''regsvcs.exe'', ''ieexec.exe'', ''msdeploy.exe'', ''dfsvc.exe'', ''cmstp.exe'', ''wab.exe'', ''odbcconf.exe'']"
abbreviation "LOLBIN_LEGIT_PARENTS \<equiv> [''devenv.exe'', ''msbuild.exe'', ''dotnet.exe'', ''nuget.exe'']"
abbreviation "SUSPECT_PARENTS_WIN \<equiv>
  [''winword.exe'', ''excel.exe'', ''powerpnt.exe'', ''outlook.exe'', ''acrord32.exe'', ''acrobat.exe'',
   ''foxit.exe'', ''iexplore.exe'']"
abbreviation "SUSPECT_CHILDREN_WIN \<equiv>
  [''cmd.exe'', ''powershell.exe'', ''pwsh.exe'', ''wscript.exe'', ''cscript.exe'', ''mshta.exe'', ''certutil.exe'',
   ''regsvr32.exe'', ''rundll32.exe'', ''bitsadmin.exe'', ''wmic.exe'', ''msiexec.exe'']"
abbreviation "STANDARD_PORTS \<equiv>
  [80, 443, 53, 8080, 8443, 8000, 25, 587, 465, 993, 995, 143, 137, 138, 5353, 5355, 3478] :: nat list"
abbreviation "BROWSERS \<equiv>
  [''chrome.exe'', ''firefox.exe'', ''msedge.exe'', ''opera.exe'', ''brave.exe'', ''iexplore.exe'', ''vivaldi.exe'']"
abbreviation "MYSQL_SERVICE_COMMS \<equiv> [''mysqld'', ''mariadbd'']"
abbreviation "MYSQL_WRITE_PATH_PREFIXES \<equiv>
  [''/var/lib/mysql/'', ''/var/lib/mariadb/'', ''/var/log/mysql/'', ''/var/log/mariadb/'', ''/run/mysqld/'',
   ''/var/run/mysqld/'', ''/tmp/'']"
abbreviation "MEMFD_CREATES_PER_PID \<equiv> 8 :: nat"
abbreviation "PID_COMM_CAP \<equiv> 65536 :: nat"
abbreviation "COUNTER_CAP \<equiv> 16384 :: nat"
abbreviation "RECENT_WRITES_CAP \<equiv> 4096 :: nat"

subsection \<open>State\<close>

record rule_alert =
  ra_technique :: string
  ra_severity :: severity
  ra_message :: string

abbreviation alert :: "string \<Rightarrow> severity \<Rightarrow> string \<Rightarrow> rule_alert" where
  "alert t s m \<equiv> \<lparr>ra_technique = t, ra_severity = s, ra_message = m\<rparr>"

record recent_write =
  rw_pid :: nat
  rw_comm :: string
  rw_timestamp_ns :: nat

record recent_quarantine =
  rq_timestamp_ns :: nat
  rq_agent :: "string option"
  rq_origin_url :: "string option"
  rq_alerted :: bool

record reported_task_registration =
  tr_timestamp_ns :: nat
  tr_actions :: "string option"

record pid_fact =
  pf_generation :: "nat option"
  pf_value :: string

record pending_proc_fd_exec_t =
  pe_path :: string
  pe_fd :: int
  pe_comm :: string
  pe_timestamp_ns :: nat

type_synonym 'k counters = "('k, sliding_counter) bounded_map"
type_synonym path_history = "(nat, (nat \<times> string) list) bounded_map"

record rule_state =
  pid_comm :: "(nat, pid_fact) bounded_map"
  pid_image_path :: "(nat, pid_fact) bounded_map"
  recent_writes :: "(string, recent_write) bounded_map"
  recent_quarantines :: "(string, recent_quarantine) bounded_map"
  self_spawn :: "(nat \<times> string) counters"
  beacon :: "(string \<times> string \<times> nat) counters"
  beacon_flow_dedup :: "(string \<times> string \<times> nat, flow_port_dedup) bounded_map"
  scan_spread :: "(nat \<times> nat, ip_addr sliding_distinct) bounded_map"
  known_listeners :: "(ip_addr \<times> nat, unit) bounded_map"
  auth_failures :: "(string \<times> string) counters"
  ransomware_rename :: "nat counters"
  ransomware_rename_by_ppid :: "nat counters"
  recent_creates :: path_history
  pending_unlinks :: path_history
  ransomware_unlink :: "nat counters"
  write_volume :: "(nat, sliding_sum) bounded_map"
  rename_count :: "nat counters"
  task_registrations :: "(string, reported_task_registration) bounded_map"
  own_pid :: "nat option"
  ld_trust_extra :: "string list"
  recent_memfd_creates :: "(nat, (nat \<times> int) list) bounded_map"
  pending_proc_fd_exec :: "(nat, pending_proc_fd_exec_t) bounded_map"

text \<open>What the rules read of the host.\<close>

record rule_host =
  proc_comm :: "nat \<Rightarrow> string option"
  to_lowercase :: "string \<Rightarrow> string"

definition rs_new :: rule_state where
  "rs_new =
     \<lparr>pid_comm = bm_empty PID_COMM_CAP, pid_image_path = bm_empty PID_COMM_CAP,
      recent_writes = bm_empty RECENT_WRITES_CAP, recent_quarantines = bm_empty RECENT_WRITES_CAP,
      self_spawn = bm_empty COUNTER_CAP, beacon = bm_empty COUNTER_CAP,
      beacon_flow_dedup = bm_empty COUNTER_CAP, scan_spread = bm_empty COUNTER_CAP,
      known_listeners = bm_empty COUNTER_CAP, auth_failures = bm_empty COUNTER_CAP,
      ransomware_rename = bm_empty COUNTER_CAP, ransomware_rename_by_ppid = bm_empty COUNTER_CAP,
      recent_creates = bm_empty CREATE_UNLINK_PID_CAP, pending_unlinks = bm_empty CREATE_UNLINK_PID_CAP,
      ransomware_unlink = bm_empty COUNTER_CAP, write_volume = bm_empty COUNTER_CAP,
      rename_count = bm_empty COUNTER_CAP, task_registrations = bm_empty COUNTER_CAP,
      own_pid = None, ld_trust_extra = [],
      recent_memfd_creates = bm_empty PID_COMM_CAP, pending_proc_fd_exec = bm_empty PID_COMM_CAP\<rparr>"

subsection \<open>Shared helpers\<close>

text \<open>The slot \<open>get_or_insert_with\<close> hands out; its \<open>expect\<close> cannot fail on a well-formed map.\<close>

definition entry_or :: "('k, 'v) bounded_map \<Rightarrow> 'k \<Rightarrow> 'v \<Rightarrow> ('k, 'v) bounded_map \<times> 'v" where
  "entry_or m k d = (case bm_get_or_insert_with m k d of (m', slot) \<Rightarrow> (m', case slot of None \<Rightarrow> d | Some v \<Rightarrow> v))"

text \<open>
  The counting core every burst rule repeats: record the event on the key's counter, and at the
  threshold (with whatever else the rule asks for) take the alert of the window.
\<close>

definition count_burst :: "'k counters \<Rightarrow> 'k \<Rightarrow> nat \<Rightarrow> nat \<Rightarrow> nat \<Rightarrow> bool \<Rightarrow> 'k counters \<times> nat \<times> bool" where
  "count_burst m k ts w threshold also =
     (let (m1, c) = entry_or m k sliding_counter_default;
          (c1, n) = sc_record c ts w;
          (c2, fired) = (if n \<ge> threshold \<and> also then sc_try_alert c1 ts w else (c1, False))
      in (bm_write m1 k c2, n, fired))"

definition push_capped :: "nat \<Rightarrow> 'a list \<Rightarrow> 'a \<Rightarrow> 'a list" where
  "push_capped n xs x = (if length xs \<ge> n then tl xs else xs) @ [x]"

fun remove_first :: "('a \<Rightarrow> bool) \<Rightarrow> 'a list \<Rightarrow> ('a \<times> 'a list) option" where
  "remove_first P [] = None"
| "remove_first P (x # xs) = (if P x then Some (x, xs) else map_option (\<lambda>(y, ys). (y, x # ys)) (remove_first P xs))"

definition remove_last :: "('a \<Rightarrow> bool) \<Rightarrow> 'a list \<Rightarrow> ('a \<times> 'a list) option" where
  "remove_last P xs = map_option (\<lambda>(y, ys). (y, rev ys)) (remove_first P (rev xs))"

definition seconds :: "nat \<Rightarrow> string" where
  "seconds ns = show_nat (ns div 1000000000) @ ''s''"

subsection \<open>Facts about a pid\<close>

definition fact_current :: "(nat, pid_fact) bounded_map \<Rightarrow> nat \<Rightarrow> nat option \<Rightarrow> string option" where
  "fact_current m pid gen =
     (case bm_peek m pid of
        None \<Rightarrow> None
      | Some f \<Rightarrow>
          (case (pf_generation f, gen) of
             (Some recorded, Some wanted) \<Rightarrow> if recorded \<noteq> wanted then None else Some (pf_value f)
           | _ \<Rightarrow> Some (pf_value f)))"

definition trim_end :: "string \<Rightarrow> string" where
  "trim_end s = rev (dropWhile is_whitespace (rev s))"

definition resolve_comm :: "rule_host \<Rightarrow> rule_state \<Rightarrow> nat \<Rightarrow> nat option \<Rightarrow> string option" where
  "resolve_comm h st pid gen =
     (case fact_current (pid_comm st) pid gen of
        Some comm \<Rightarrow> Some comm
      | None \<Rightarrow> map_option trim_end (proc_comm h pid))"

subsection \<open>Seeding\<close>

definition seed_own_pid :: "nat \<Rightarrow> rule_state \<Rightarrow> rule_state" where
  "seed_own_pid pid st = st\<lparr>own_pid := Some pid\<rparr>"

definition seed_ld_trust_dirs :: "string list \<Rightarrow> rule_state \<Rightarrow> rule_state" where
  "seed_ld_trust_dirs dirs st = st\<lparr>ld_trust_extra := dirs\<rparr>"

definition seed_ld_trust_from_system ::
    "(path \<Rightarrow> string option) \<Rightarrow> (path \<Rightarrow> path list) \<Rightarrow> rule_state \<Rightarrow> rule_state" where
  "seed_ld_trust_from_system rd lst st =
     seed_ld_trust_dirs (collect_ld_dirs rd lst [''etc'', ''ld.so.conf'']) st"

definition seed_listen_ports :: "(ip_addr \<times> nat) list \<Rightarrow> rule_state \<Rightarrow> rule_state" where
  "seed_listen_ports ports st =
     st\<lparr>known_listeners := foldl (\<lambda>m key. bm_insert m key ()) (known_listeners st) ports\<rparr>"

definition seed_pid_comm :: "(nat \<times> string) list \<Rightarrow> rule_state \<Rightarrow> rule_state" where
  "seed_pid_comm table st =
     st\<lparr>pid_comm := bm_extend (pid_comm st)
          (map (\<lambda>(pid, comm). (pid, \<lparr>pf_generation = None, pf_value = comm\<rparr>)) table)\<rparr>"

text \<open>The listing of \<open>/proc\<close>: each name with the text of its \<open>comm\<close>, if that can be read.\<close>

definition seed_from_proc :: "(string \<times> string option) list option \<Rightarrow> rule_state \<Rightarrow> rule_state" where
  "seed_from_proc listing st =
     (case listing of
        None \<Rightarrow> st
      | Some es \<Rightarrow>
          st\<lparr>pid_comm := foldl (\<lambda>m (name, comm).
               case parse_upto (2 ^ 32 - 1) name of
                 None \<Rightarrow> m
               | Some pid \<Rightarrow>
                   (case comm of
                      None \<Rightarrow> m
                    | Some c \<Rightarrow> bm_insert m pid \<lparr>pf_generation = None, pf_value = trim_end c\<rparr>))
             (pid_comm st) es\<rparr>)"

subsection \<open>Rules on an exec\<close>

definition check_web_server_spawns_shell :: "rule_host \<Rightarrow> rule_state \<Rightarrow> exec_event \<Rightarrow> rule_alert option" where
  "check_web_server_spawns_shell h st e =
     (let comm = m_comm (exec_meta e); ppid = m_ppid (exec_meta e) in
      if comm \<notin> set SHELL_COMMS then None
      else case resolve_comm h st ppid (parent_process_generation (exec_meta e)) of
        None \<Rightarrow> None
      | Some parent_comm \<Rightarrow>
          if \<not> (parent_comm \<in> set SERVICE_COMMS \<or> list_ex (starts_with parent_comm) SERVICE_COMM_PREFIXES) then None
          else Some (alert ''T1059'' Medium
            (''pid='' @ show_nat (m_pid (exec_meta e)) @ '' comm='' @ comm @ '' executed directly by ppid='' @ show_nat ppid
             @ '' comm='' @ parent_comm @ '' (service) '' @ em_dash @ '' suspicious process lineage'')))"

definition check_download_then_exec :: "rule_state \<Rightarrow> exec_event \<Rightarrow> rule_alert option" where
  "check_download_then_exec st e =
     (let comm = m_comm (exec_meta e); now = m_timestamp_ns (exec_meta e) in
      case List.find (\<lambda>(path, w). written_file_is path comm \<and> now - rw_timestamp_ns w \<le> DOWNLOAD_EXEC_WINDOW_NS)
             (bm_iter (recent_writes st)) of
        None \<Rightarrow> None
      | Some (path, w) \<Rightarrow>
          Some (alert ''T1105'' High
            (''pid='' @ show_nat (m_pid (exec_meta e)) @ '' comm='' @ comm @ '' executes '' @ path @ '', written ''
             @ format_delta (now - rw_timestamp_ns w) @ '' earlier by pid='' @ show_nat (rw_pid w)
             @ '' comm='' @ rw_comm w)))"

definition check_quarantined_exec ::
    "rule_host \<Rightarrow> rule_state \<Rightarrow> exec_event \<Rightarrow> rule_state \<times> rule_alert option" where
  "check_quarantined_exec h st e =
     (let now = m_timestamp_ns (exec_meta e);
          key = to_lowercase h (exec_image_path e);
          (m, slot) = bm_get_mut (recent_quarantines st) key in
      case slot of
        None \<Rightarrow> (st\<lparr>recent_quarantines := m\<rparr>, None)
      | Some mark \<Rightarrow>
          let age = now - rq_timestamp_ns mark in
          if rq_alerted mark \<or> age > QUARANTINE_EXEC_WINDOW_NS then (st\<lparr>recent_quarantines := m\<rparr>, None)
          else (st\<lparr>recent_quarantines := bm_write m key (mark\<lparr>rq_alerted := True\<rparr>)\<rparr>,
                Some (alert ''T1204.002'' High
                  (''pid='' @ show_nat (m_pid (exec_meta e)) @ '' comm='' @ m_comm (exec_meta e) @ '' executes ''
                   @ exec_image_path e @ '', downloaded '' @ format_delta age @ '' earlier (origin: ''
                   @ (case rq_origin_url mark of None \<Rightarrow> ''unrecorded'' | Some u \<Rightarrow> u) @ '', marked by ''
                   @ (case rq_agent mark of None \<Rightarrow> ''unknown'' | Some a \<Rightarrow> a) @ '')''))))"

definition self_spawn_excluded :: "rule_state \<Rightarrow> exec_event \<Rightarrow> bool" where
  "self_spawn_excluded st e =
     (let comm = m_comm (exec_meta e);
          parent_comm = (case fact_current (pid_comm st) (m_ppid (exec_meta e)) (parent_process_generation (exec_meta e)) of
                           None \<Rightarrow> [] | Some c \<Rightarrow> c)
      in (own_pid st = Some (m_ppid (exec_meta e)) \<and> list_ex (eq_ignore_ascii_case comm) AGENT_CHILD_EXCLUSIONS \<and>
            name_exclusion_applies (Some (exec_image_path e))) \<or>
         (list_ex (eq_ignore_ascii_case comm) SELF_SPAWN_EXCLUSIONS \<and>
            name_exclusion_applies (Some (exec_image_path e)) \<and> parent_exclusion_applies comm (exec_parent_comm e)) \<or>
         (list_ex (eq_ignore_ascii_case parent_comm) SELF_SPAWN_PARENT_EXCLUSIONS \<and>
            name_exclusion_applies (exec_parent_image_path e)))"

definition check_self_spawn :: "rule_state \<Rightarrow> exec_event \<Rightarrow> rule_state \<times> rule_alert option" where
  "check_self_spawn st e =
     (if \<not> (case m_user (exec_meta e) of Windows _ _ \<Rightarrow> True | _ \<Rightarrow> False) then (st, None)
      else if self_spawn_excluded st e then (st, None)
      else let comm = m_comm (exec_meta e); ppid = m_ppid (exec_meta e);
               (m, count, fired) = count_burst (self_spawn st) (ppid, comm) (m_timestamp_ns (exec_meta e))
                                     SELF_SPAWN_WINDOW_NS SELF_SPAWN_THRESHOLD True
           in (st\<lparr>self_spawn := m\<rparr>,
               if fired then Some (alert ''T1059'' Medium
                 (''pid='' @ show_nat (m_pid (exec_meta e)) @ '' comm='' @ comm @ '' spawned '' @ show_nat count @ ''x in ''
                  @ seconds SELF_SPAWN_WINDOW_NS @ '' by ppid='' @ show_nat ppid @ '' '' @ em_dash @ '' suspected self-spawn''))
               else None))"

definition check_parent_suspect :: "rule_host \<Rightarrow> rule_state \<Rightarrow> exec_event \<Rightarrow> rule_alert option" where
  "check_parent_suspect h st e =
     (let comm = m_comm (exec_meta e); ppid = m_ppid (exec_meta e) in
      if \<not> list_ex (eq_ignore_ascii_case comm) SUSPECT_CHILDREN_WIN then None
      else case resolve_comm h st ppid (parent_process_generation (exec_meta e)) of
        None \<Rightarrow> None
      | Some parent_comm \<Rightarrow>
          if \<not> list_ex (eq_ignore_ascii_case parent_comm) SUSPECT_PARENTS_WIN then None
          else Some (alert ''T1204/T1059'' High
            (''pid='' @ show_nat (m_pid (exec_meta e)) @ '' comm='' @ comm @ '' spawned by ppid='' @ show_nat ppid
             @ '' comm='' @ parent_comm @ '' '' @ em_dash @ '' Office'' @ right_arrow @ ''interpreter lineage'')))"

definition check_lolbin :: "rule_host \<Rightarrow> rule_state \<Rightarrow> exec_event \<Rightarrow> rule_alert option" where
  "check_lolbin h st e =
     (let comm = m_comm (exec_meta e); ppid = m_ppid (exec_meta e) in
      if \<not> list_ex (eq_ignore_ascii_case comm) LOLBINS then None
      else case resolve_comm h st ppid (parent_process_generation (exec_meta e)) of
        None \<Rightarrow> None
      | Some parent_comm \<Rightarrow>
          if list_ex (eq_ignore_ascii_case parent_comm) LOLBIN_LEGIT_PARENTS then None
          else Some (alert ''T1218/T1127'' Medium
            (''pid='' @ show_nat (m_pid (exec_meta e)) @ '' comm='' @ comm @ '' (LOLBin) spawned by ppid='' @ show_nat ppid
             @ '' comm='' @ parent_comm)))"

definition check_ld_preload_hijack :: "exec_event \<Rightarrow> string list \<Rightarrow> rule_alert option" where
  "check_ld_preload_hijack e extra_trust =
     (case List.find (\<lambda>(name, _). name = ''LD_PRELOAD'' \<or> name = ''LD_AUDIT'') (exec_env_security e) of
        None \<Rightarrow> None
      | Some (name, val) \<Rightarrow>
          if all_paths_trusted val extra_trust then None
          else Some (alert ''T1574.006'' High
            (''pid='' @ show_nat (m_pid (exec_meta e)) @ '' comm='' @ m_comm (exec_meta e) @ '': '' @ name @ ''='' @ val
             @ '' loads a shared object outside the dynamic linker'' @ [CHR 0x27] @ ''s trusted search path'')))"

subsection \<open>Executed memory files\<close>

definition memfd_dev_fd_exec_alert :: "nat \<Rightarrow> string \<Rightarrow> string \<Rightarrow> rule_alert" where
  "memfd_dev_fd_exec_alert pid comm path = alert ''T1620'' High
     (''pid='' @ show_nat pid @ '' comm='' @ comm @ '': executed from a file descriptor ('' @ path
      @ ''), not a real path '' @ em_dash @ '' no payload ever touched disk'')"

definition memfd_proc_fd_exec_alert :: "nat \<Rightarrow> string \<Rightarrow> string \<Rightarrow> int \<Rightarrow> rule_alert" where
  "memfd_proc_fd_exec_alert pid comm path fd = alert ''T1620'' High
     (''pid='' @ show_nat pid @ '' comm='' @ comm @ '': executed from file descriptor ''
      @ (if fd < 0 then ''-'' @ show_nat (nat (- fd)) else show_nat (nat fd)) @ '' ('' @ path
      @ ''), the memfd this process created moments earlier '' @ em_dash @ '' a payload that never touched disk'')"

definition check_memfd_exec :: "rule_state \<Rightarrow> exec_event \<Rightarrow> rule_state \<times> rule_alert option" where
  "check_memfd_exec st e =
     (let path = exec_image_path e; pid = m_pid (exec_meta e); comm = m_comm (exec_meta e);
          now = m_timestamp_ns (exec_meta e) in
      if is_dev_fd_path path then
        (st, if starts_with comm ''memfd:'' then Some (memfd_dev_fd_exec_alert pid comm path) else None)
      else case proc_fd_number path pid of
        None \<Rightarrow> (st, None)
      | Some fd \<Rightarrow>
          let created = (case bm_peek (recent_memfd_creates st) pid of
                None \<Rightarrow> False
              | Some creates \<Rightarrow>
                  list_ex (\<lambda>(cts, cfd). cfd = fd \<and> cts \<le> now \<and> now - cts \<le> MEMFD_EXEC_WINDOW_NS) creates)
          in if created then (st, Some (memfd_proc_fd_exec_alert pid comm path fd))
             else (st\<lparr>pending_proc_fd_exec := bm_insert (pending_proc_fd_exec st) pid
                       \<lparr>pe_path = path, pe_fd = fd, pe_comm = comm, pe_timestamp_ns = now\<rparr>\<rparr>, None))"

definition on_memfd_create :: "memfd_create_event \<Rightarrow> rule_state \<Rightarrow> rule_state \<times> rule_alert list" where
  "on_memfd_create e st =
     (let pid = m_pid (memfd_create_meta e); ts = m_timestamp_ns (memfd_create_meta e); fd = memfd_create_fd e;
          (m, creates) = entry_or (recent_memfd_creates st) pid [];
          st1 = st\<lparr>recent_memfd_creates := bm_write m pid (push_capped MEMFD_CREATES_PER_PID creates (ts, fd))\<rparr> in
      case bm_peek (pending_proc_fd_exec st1) pid of
        None \<Rightarrow> (st1, [])
      | Some p \<Rightarrow>
          if pe_fd p = fd \<and> ts \<le> pe_timestamp_ns p \<and> pe_timestamp_ns p - ts \<le> MEMFD_EXEC_WINDOW_NS
          then (st1\<lparr>pending_proc_fd_exec := fst (bm_remove (pending_proc_fd_exec st1) pid)\<rparr>,
                [memfd_proc_fd_exec_alert pid (pe_comm p) (pe_path p) (pe_fd p)])
          else (st1, []))"

subsection \<open>The exec handler\<close>

abbreviation opt_list :: "'a option \<Rightarrow> 'a list" where
  "opt_list \<equiv> case_option [] (\<lambda>a. [a])"

definition on_exec :: "rule_host \<Rightarrow> exec_event \<Rightarrow> rule_state \<Rightarrow> rule_state \<times> rule_alert list" where
  "on_exec h e st =
     (let a1 = check_web_server_spawns_shell h st e;
          a2 = check_download_then_exec st e;
          (st1, a3) = check_quarantined_exec h st e;
          (st2, a4) = check_self_spawn st1 e;
          a5 = check_parent_suspect h st2 e;
          a6 = check_lolbin h st2 e;
          (st3, a7) = check_memfd_exec st2 e;
          a8 = check_ld_preload_hijack e (ld_trust_extra st3);
          gen = process_generation (exec_meta e); pid = m_pid (exec_meta e);
          st4 = st3\<lparr>pid_comm := bm_insert (pid_comm st3) pid \<lparr>pf_generation = gen, pf_value = m_comm (exec_meta e)\<rparr>\<rparr>;
          st5 = st4\<lparr>pid_image_path := bm_insert (pid_image_path st4) pid \<lparr>pf_generation = gen, pf_value = exec_image_path e\<rparr>\<rparr>
      in (st5, concat (map opt_list [a1, a2, a3, a4, a5, a6, a7, a8])))"

subsection \<open>Rules on connections, listeners and logons\<close>

definition beacon_excluded :: "string \<Rightarrow> ip_addr \<Rightarrow> nat \<Rightarrow> bool" where
  "beacon_excluded comm daddr dport \<longleftrightarrow>
     list_ex (eq_ignore_ascii_case comm) BROWSERS \<or> dport \<in> set STANDARD_PORTS \<or>
     is_address_selection_probe daddr dport \<or>
     (case daddr of V4 a b c d \<Rightarrow> a \<ge> 224 \<or> d = 255 | V6 _ _ _ _ _ _ _ _ \<Rightarrow> False)"

definition record_beacon ::
    "nat \<Rightarrow> string \<Rightarrow> ip_addr \<Rightarrow> nat \<Rightarrow> nat \<Rightarrow> rule_state \<Rightarrow> rule_state \<times> rule_alert option" where
  "record_beacon pid comm daddr dport ts st =
     (let (m, count, fired) = count_burst (beacon st) (comm, show_ip daddr, dport) ts BEACON_WINDOW_NS BEACON_THRESHOLD True
      in (st\<lparr>beacon := m\<rparr>,
          if fired then Some (alert ''T1071/T1041'' High
            (''pid='' @ show_nat pid @ '' comm='' @ comm @ '' '' @ right_arrow @ '' '' @ show_ip daddr @ '':'' @ show_nat dport
             @ '' | '' @ show_nat count @ ''x in '' @ seconds BEACON_WINDOW_NS @ '' '' @ em_dash @ '' suspected beaconing''))
          else None))"

definition check_beacon :: "connect_event \<Rightarrow> rule_state \<Rightarrow> rule_state \<times> rule_alert option" where
  "check_beacon e st =
     (let m = connect_meta e in
      if m_pid m = 4 then (st, None)
      else if beacon_excluded (m_comm m) (connect_daddr e) (connect_dport e) then (st, None)
      else record_beacon (m_pid m) (m_comm m) (connect_daddr e) (connect_dport e) (m_timestamp_ns m) st)"

definition check_scan_spread :: "connect_event \<Rightarrow> rule_state \<Rightarrow> rule_state \<times> rule_alert option" where
  "check_scan_spread e st =
     (let pid = m_pid (connect_meta e); ts = m_timestamp_ns (connect_meta e); dport = connect_dport e in
      if pid = 4 then (st, None)
      else let (m, c) = entry_or (scan_spread st) (pid, dport) sliding_distinct_default;
               (c1, n) = sd_record c (connect_daddr e) ts SCAN_SPREAD_WINDOW_NS;
               (c2, fired) = (if n \<ge> SCAN_SPREAD_THRESHOLD then sd_try_alert c1 ts SCAN_SPREAD_WINDOW_NS else (c1, False))
           in (st\<lparr>scan_spread := bm_write m (pid, dport) c2\<rparr>,
               if fired then Some (alert ''T1046/T1210'' Medium
                 (''pid='' @ show_nat pid @ '' comm='' @ m_comm (connect_meta e) @ '' contacted '' @ show_nat n
                  @ '' distinct destinations on port '' @ show_nat dport @ '' in '' @ seconds SCAN_SPREAD_WINDOW_NS
                  @ '' '' @ em_dash @ '' suspected scan/spread burst''))
               else None))"

definition on_connect :: "connect_event \<Rightarrow> rule_state \<Rightarrow> rule_state \<times> rule_alert list" where
  "on_connect e st =
     (let (st1, a1) = check_beacon e st; (st2, a2) = check_scan_spread e st1 in (st2, opt_list a1 @ opt_list a2))"

definition check_beacon_flow :: "network_flow_event \<Rightarrow> rule_state \<Rightarrow> rule_state \<times> rule_alert option" where
  "check_beacon_flow e st =
     (let mt = network_flow_meta e; comm = m_comm mt; daddr = network_flow_daddr e; dport = network_flow_dport e;
          ts = m_timestamp_ns mt in
      if beacon_excluded comm daddr dport then (st, None)
      else let key = (comm, show_ip daddr, dport);
               (m, d) = entry_or (beacon_flow_dedup st) key [];
               (d', fresh_port) = is_new d (network_flow_local_port e) ts BEACON_WINDOW_NS;
               st1 = st\<lparr>beacon_flow_dedup := bm_write m key d'\<rparr>
           in if \<not> fresh_port then (st1, None) else record_beacon (m_pid mt) comm daddr dport ts st1)"

definition on_network_flow :: "network_flow_event \<Rightarrow> rule_state \<Rightarrow> rule_state \<times> rule_alert list" where
  "on_network_flow e st = (let (st1, a) = check_beacon_flow e st in (st1, opt_list a))"

definition check_listen_port_drift :: "listen_port_event \<Rightarrow> rule_state \<Rightarrow> rule_state \<times> rule_alert option" where
  "check_listen_port_drift e st =
     (let key = (listen_port_local_addr e, listen_port_local_port e);
          (m, seen) = bm_get (known_listeners st) key in
      if seen \<noteq> None then (st\<lparr>known_listeners := m\<rparr>, None)
      else (st\<lparr>known_listeners := bm_insert m key ()\<rparr>,
            Some (alert ''T1571'' Medium
              (''pid='' @ show_nat (m_pid (listen_port_meta e)) @ '' comm='' @ m_comm (listen_port_meta e)
               @ '' new listener on '' @ show_ip (listen_port_local_addr e) @ '':'' @ show_nat (listen_port_local_port e)
               @ '' '' @ em_dash @ '' not seen at agent startup''))))"

definition on_listen_port :: "listen_port_event \<Rightarrow> rule_state \<Rightarrow> rule_state \<times> rule_alert list" where
  "on_listen_port e st = (let (st1, a) = check_listen_port_drift e st in (st1, opt_list a))"

definition on_auth :: "auth_event \<Rightarrow> rule_state \<Rightarrow> rule_state \<times> rule_alert list" where
  "on_auth e st =
     (if auth_outcome e \<noteq> Failure then (st, [])
      else let source = (case auth_source_address e of None \<Rightarrow> ''local'' | Some a \<Rightarrow> show_ip a);
               (m, count, fired) = count_burst (auth_failures st) (auth_target_user e, source)
                 (m_timestamp_ns (auth_meta e)) AUTH_FAILURE_WINDOW_NS AUTH_FAILURE_THRESHOLD True
           in (st\<lparr>auth_failures := m\<rparr>,
               if fired then [alert ''T1110'' Medium
                 (''target='' @ auth_target_user e @ '' source='' @ source @ '': '' @ show_nat count
                  @ '' failed authentications in '' @ seconds AUTH_FAILURE_WINDOW_NS @ '' '' @ em_dash
                  @ ''                      brute-force/spray burst'')]
               else []))"

end
