(* ===== verification/RuleFiles.thy ===== *)
theory RuleFiles
  imports RuleState
begin

text \<open>
  The file handlers of the stateful rules (\<open>crates/rules/src/state.rs\<close>): opens, quarantine marks,
  renames, unlinks and writes, with the ransomware rules that join them, and the step of the whole
  state on one event of the stream.
\<close>

subsection \<open>Opens and marks\<close>

definition on_file_quarantine :: "rule_host \<Rightarrow> file_quarantine_event \<Rightarrow> rule_state \<Rightarrow> rule_state" where
  "on_file_quarantine h e st =
     st\<lparr>recent_quarantines := bm_insert (recent_quarantines st) (to_lowercase h (file_quarantine_path e))
          \<lparr>rq_timestamp_ns = m_timestamp_ns (file_quarantine_meta e), rq_agent = file_quarantine_agent e,
           rq_origin_url = file_quarantine_origin_url e, rq_alerted = False\<rparr>\<rparr>"

definition check_scheduled_task_persistence :: "file_open_event \<Rightarrow> rule_alert option" where
  "check_scheduled_task_persistence e =
     (if file_open_flags e AND FLAG_PERSISTENCE_TASK_ARTIFACT = 0 then None
      else Some (alert ''T1053.005'' Medium
        (''task='' @ m_comm (file_open_meta e) @ '' pid='' @ show_nat (m_pid (file_open_meta e))
         @ '': scheduled task persistence created '' @ em_dash @ '' action path: '' @ file_open_path e)))"

definition check_service_write_outside_datadir ::
    "file_open_event \<Rightarrow> (nat \<Rightarrow> nat option \<Rightarrow> string option) \<Rightarrow> rule_alert option" where
  "check_service_write_outside_datadir e resolve =
     (let path = file_open_path e; mt = file_open_meta e in
      if \<not> has_write_intent (file_open_flags e) \<or> \<not> starts_with path ''/'' \<or> path = ''/tmp'' \<or>
         list_ex (starts_with path) MYSQL_WRITE_PATH_PREFIXES then None
      else case resolve (m_pid mt) (process_generation mt) of
        None \<Rightarrow> None
      | Some comm \<Rightarrow>
          if comm \<notin> set MYSQL_SERVICE_COMMS then None
          else Some (alert ''T1190'' High
            (''pid='' @ show_nat (m_pid mt) @ '' comm='' @ comm @ '': wrote outside its data/log/temp directories: '' @ path
             @ '' '' @ em_dash @ '' signature of SQL injection (SELECT ... INTO OUTFILE) or a malicious UDF'')))"

definition check_task_registration :: "file_open_event \<Rightarrow> rule_state \<Rightarrow> rule_state \<times> rule_alert option" where
  "check_task_registration e st =
     (case check_scheduled_task_persistence e of
        None \<Rightarrow> (st, None)
      | Some a \<Rightarrow>
          let actions = (if file_open_flags e AND FLAG_PERSISTENCE_TASK_ACTION_UNKNOWN = 0
                         then Some (file_open_path e) else None);
              now = m_timestamp_ns (file_open_meta e); task = m_comm (file_open_meta e);
              duplicate = (case bm_peek (task_registrations st) task of
                  None \<Rightarrow> False
                | Some previous \<Rightarrow>
                    abs_diff (tr_timestamp_ns previous) now \<le> TASK_REGISTRATION_DEDUP_WINDOW_NS \<and>
                    (actions = None \<or> actions = tr_actions previous))
          in if duplicate then (st, None)
             else (st\<lparr>task_registrations := bm_insert (task_registrations st) task
                       \<lparr>tr_timestamp_ns = now, tr_actions = actions\<rparr>\<rparr>, Some a))"

definition record_downloader_write :: "file_open_event \<Rightarrow> rule_state \<Rightarrow> rule_state" where
  "record_downloader_write e st =
     (let mt = file_open_meta e in
      if m_comm mt \<notin> set DOWNLOADER_COMMS \<or> \<not> has_write_intent (file_open_flags e) then st
      else st\<lparr>recent_writes := bm_insert (recent_writes st) (file_open_path e)
                \<lparr>rw_pid = m_pid mt, rw_comm = m_comm mt, rw_timestamp_ns = m_timestamp_ns mt\<rparr>\<rparr>)"

subsection \<open>Trusted binaries\<close>

definition runs_trusted_binary_named :: "rule_state \<Rightarrow> event_meta \<Rightarrow> bool" where
  "runs_trusted_binary_named st mt =
     (case fact_current (pid_image_path st) (m_pid mt) (process_generation mt) of
        None \<Rightarrow> False
      | Some p \<Rightarrow> p \<noteq> [] \<and> name_exclusion_applies (Some p) \<and> written_file_is p (m_comm mt))"

definition is_compressor :: "rule_state \<Rightarrow> event_meta \<Rightarrow> bool" where
  "is_compressor st mt \<longleftrightarrow> m_comm mt \<in> set COMPRESSOR_COMMS \<and> runs_trusted_binary_named st mt"

definition is_compression_driver :: "rule_state \<Rightarrow> event_meta \<Rightarrow> string \<Rightarrow> string \<Rightarrow> bool" where
  "is_compression_driver st mt deleted created \<longleftrightarrow>
     m_comm mt \<in> set COMPRESSION_DRIVER_COMMS \<and>
     (case appended_suffix deleted created of None \<Rightarrow> False | Some suf \<Rightarrow> suf \<in> set COMPRESSION_SUFFIXES) \<and>
     runs_trusted_binary_named st mt"

definition is_in_place_edit_backup :: "rule_state \<Rightarrow> file_rename_event \<Rightarrow> bool" where
  "is_in_place_edit_backup st e =
     (let mt = file_rename_meta e in
      if m_comm mt \<notin> set IN_PLACE_EDIT_COMMS then False
      else let path = (case fact_current (pid_image_path st) (m_pid mt) (process_generation mt) of
                         Some p \<Rightarrow> Some p
                       | None \<Rightarrow> file_rename_executable_path e)
           in case path of
                None \<Rightarrow> False
              | Some p \<Rightarrow> p \<noteq> [] \<and> name_exclusion_applies (Some p) \<and> written_file_is p (m_comm mt))"

subsection \<open>Renames\<close>

definition rename_message :: "file_rename_event \<Rightarrow> string" where
  "rename_message e = ''(e.g. '' @ file_rename_old_path e @ '' '' @ right_arrow @ '' '' @ file_rename_new_path e"

definition rename_exempt :: "rule_state \<Rightarrow> file_rename_event \<Rightarrow> string \<Rightarrow> bool" where
  "rename_exempt st e suf \<longleftrightarrow>
     suf = [] \<or> is_rotation_suffix suf \<or> is_in_place_edit_backup st e \<or>
     is_maildir_flag_change (file_rename_old_path e) suf \<or>
     is_maildir_delivery (file_rename_old_path e) (file_rename_new_path e) suf"

definition check_mass_rename_pattern :: "file_rename_event \<Rightarrow> rule_state \<Rightarrow> rule_state \<times> rule_alert option" where
  "check_mass_rename_pattern e st =
     (case appended_suffix (file_rename_old_path e) (file_rename_new_path e) of
        None \<Rightarrow> (st, None)
      | Some suf \<Rightarrow>
          if rename_exempt st e suf then (st, None)
          else let mt = file_rename_meta e; ts = m_timestamp_ns mt;
                   (m, pid_count, fired) = count_burst (ransomware_rename st) (m_pid mt) ts
                     RANSOMWARE_RENAME_WINDOW_NS RANSOMWARE_RENAME_THRESHOLD True;
                   st1 = st\<lparr>ransomware_rename := m\<rparr>
               in if fired then (st1, Some (alert ''T1486'' Critical
                    (''pid='' @ show_nat (m_pid mt) @ '' comm='' @ m_comm mt @ '': '' @ show_nat pid_count
                     @ '' files renamed with an appended suffix in '' @ seconds RANSOMWARE_RENAME_WINDOW_NS @ '' ''
                     @ rename_message e @ '') '' @ em_dash @ '' suspected ransomware encryption pass'')))
                  else if pid_count > RANSOMWARE_LOOP_CHILD_MAX \<or> m_ppid mt \<le> 1 then (st1, None)
                  else let (m2, ppid_count, fired2) = count_burst (ransomware_rename_by_ppid st1) (m_ppid mt) ts
                             RANSOMWARE_RENAME_WINDOW_NS RANSOMWARE_RENAME_THRESHOLD True;
                           st2 = st1\<lparr>ransomware_rename_by_ppid := m2\<rparr>
                       in (st2, if fired2 then Some (alert ''T1486'' Critical
                            (''ppid='' @ show_nat (m_ppid mt) @ '': '' @ show_nat ppid_count
                             @ '' files renamed with an appended suffix by short-lived children in ''
                             @ seconds RANSOMWARE_RENAME_WINDOW_NS @ '' '' @ rename_message e @ '', comm='' @ m_comm mt @ '') ''
                             @ em_dash @ '' suspected ransomware encryption pass (shell-loop pattern)''))
                          else None))"

definition check_burst_write_volume :: "file_rename_event \<Rightarrow> rule_state \<Rightarrow> rule_state \<times> rule_alert option" where
  "check_burst_write_volume e st =
     (let mt = file_rename_meta e; pid = m_pid mt; ts = m_timestamp_ns mt in
      if list_ex (starts_with (file_rename_new_path e)) RANSOMWARE_EXCLUDED_PATH_PREFIXES \<or>
         is_package_manager_temp_rename (file_rename_old_path e) (file_rename_new_path e) (m_comm mt) then (st, None)
      else let (wm, v) = entry_or (write_volume st) pid sliding_sum_default;
               (v', bytes_written) = ss_total v ts RANSOMWARE_RENAME_WINDOW_NS;
               st1 = st\<lparr>write_volume := bm_write wm pid v'\<rparr>;
               (m, n, fired) = count_burst (rename_count st1) pid ts RANSOMWARE_RENAME_WINDOW_NS
                 RANSOMWARE_RENAME_THRESHOLD (bytes_written \<ge> BURST_WRITE_BYTES_THRESHOLD)
           in (st1\<lparr>rename_count := m\<rparr>,
               if fired then Some (alert ''T1486'' Critical
                 (''pid='' @ show_nat pid @ '' comm='' @ m_comm mt @ '' wrote '' @ show_nat (bytes_written div (1024 * 1024))
                  @ ''MB and renamed '' @ show_nat n @ ''x in '' @ seconds RANSOMWARE_RENAME_WINDOW_NS @ '' '' @ em_dash
                  @ '' suspected ransomware kill chain''))
               else None))"

definition on_file_rename :: "file_rename_event \<Rightarrow> rule_state \<Rightarrow> rule_state \<times> rule_alert list" where
  "on_file_rename e st =
     (let (st1, a1) = check_mass_rename_pattern e st; (st2, a2) = check_burst_write_volume e st1
      in (st2, opt_list a1 @ opt_list a2))"

definition on_file_write :: "file_write_event \<Rightarrow> rule_state \<Rightarrow> rule_state" where
  "on_file_write e st =
     (let mt = file_write_meta e; (m, v) = entry_or (write_volume st) (m_pid mt) sliding_sum_default;
          (v', _) = ss_add v (m_timestamp_ns mt) (file_write_bytes_requested e) RANSOMWARE_RENAME_WINDOW_NS
      in st\<lparr>write_volume := bm_write m (m_pid mt) v'\<rparr>)"

subsection \<open>Write new, then unlink\<close>

definition count_create_unlink_pair ::
    "event_meta \<Rightarrow> nat \<Rightarrow> string \<Rightarrow> string \<Rightarrow> rule_state \<Rightarrow> rule_state \<times> rule_alert option" where
  "count_create_unlink_pair mt ts deleted created st =
     (if is_compressor st mt \<or> is_compression_driver st mt deleted created then (st, None)
      else let (m, n, fired) = count_burst (ransomware_unlink st) (m_pid mt) ts
                 RANSOMWARE_RENAME_WINDOW_NS RANSOMWARE_RENAME_THRESHOLD True
           in (st\<lparr>ransomware_unlink := m\<rparr>,
               if fired then Some (alert ''T1486'' Critical
                 (''pid='' @ show_nat (m_pid mt) @ '' comm='' @ m_comm mt @ '': '' @ show_nat n
                  @ '' files replaced by a new file with an appended suffix and then unlinked in ''
                  @ seconds RANSOMWARE_RENAME_WINDOW_NS @ '' (e.g. '' @ deleted @ '' '' @ right_arrow @ '' '' @ created @ '') ''
                  @ em_dash @ '' suspected ransomware encryption pass (write-new-then-unlink)''))
               else None))"

definition is_unix :: "event_meta \<Rightarrow> bool" where
  "is_unix mt = (case m_user mt of Unix _ _ \<Rightarrow> True | _ \<Rightarrow> False)"

definition check_write_new_then_unlink :: "file_delete_event \<Rightarrow> rule_state \<Rightarrow> rule_state \<times> rule_alert option" where
  "check_write_new_then_unlink e st =
     (let mt = file_delete_meta e; pid = m_pid mt; ts = m_timestamp_ns mt; path = file_delete_path e in
      if \<not> is_unix mt then (st, None)
      else let (m, slot) = bm_get_mut (recent_creates st) pid in
        case Option.bind slot (remove_last (\<lambda>(created_ts, p). pairs_create_and_unlink created_ts p ts path)) of
          Some ((_, created), rest) \<Rightarrow>
            count_create_unlink_pair mt ts path created (st\<lparr>recent_creates := bm_write m pid rest\<rparr>)
        | None \<Rightarrow>
            let (pm, pending) = entry_or (pending_unlinks st) pid []
            in (st\<lparr>recent_creates := m,
                   pending_unlinks := bm_write pm pid (push_capped CREATE_UNLINK_HISTORY_PER_PID pending (ts, path))\<rparr>, None))"

definition on_file_delete :: "file_delete_event \<Rightarrow> rule_state \<Rightarrow> rule_state \<times> rule_alert list" where
  "on_file_delete e st = (let (st1, a) = check_write_new_then_unlink e st in (st1, opt_list a))"

definition record_create :: "file_open_event \<Rightarrow> rule_state \<Rightarrow> rule_state \<times> rule_alert option" where
  "record_create e st =
     (let mt = file_open_meta e; pid = m_pid mt; created_ts = m_timestamp_ns mt; path = file_open_path e in
      if file_open_flags e AND O_CREAT = 0 \<or> \<not> has_write_intent (file_open_flags e) \<or> \<not> is_unix mt then (st, None)
      else let (m, slot) = bm_get_mut (pending_unlinks st) pid in
        case Option.bind slot (remove_first (\<lambda>(unlink_ts, p). pairs_create_and_unlink created_ts path unlink_ts p)) of
          Some ((unlink_ts, deleted), rest) \<Rightarrow>
            count_create_unlink_pair mt unlink_ts deleted path (st\<lparr>pending_unlinks := bm_write m pid rest\<rparr>)
        | None \<Rightarrow>
            let (cm, creates) = entry_or (recent_creates st) pid []
            in (st\<lparr>pending_unlinks := m,
                   recent_creates := bm_write cm pid (push_capped CREATE_UNLINK_HISTORY_PER_PID creates (created_ts, path))\<rparr>, None))"

definition on_file_open :: "rule_host \<Rightarrow> file_open_event \<Rightarrow> rule_state \<Rightarrow> rule_state \<times> rule_alert list" where
  "on_file_open h e st =
     (let (st1, a1) = check_task_registration e st;
          a2 = check_service_write_outside_datadir e (resolve_comm h st1);
          (st2, a3) = record_create e st1
      in (record_downloader_write e st2, opt_list a1 @ opt_list a2 @ opt_list a3))"

subsection \<open>One event of the stream\<close>

text \<open>The handler the agent calls for each kind of event; the other kinds do not reach the state.\<close>

fun rule_step :: "rule_host \<Rightarrow> event \<Rightarrow> rule_state \<Rightarrow> rule_state \<times> rule_alert list" where
  "rule_step h (Exec e) st = on_exec h e st"
| "rule_step h (FileOpen e) st = on_file_open h e st"
| "rule_step h (FileQuarantine e) st = (on_file_quarantine h e st, [])"
| "rule_step h (Connect e) st = on_connect e st"
| "rule_step h (NetworkFlow e) st = on_network_flow e st"
| "rule_step h (ListenPort e) st = on_listen_port e st"
| "rule_step h (Auth e) st = on_auth e st"
| "rule_step h (FileDelete e) st = on_file_delete e st"
| "rule_step h (FileRename e) st = on_file_rename e st"
| "rule_step h (FileWrite e) st = (on_file_write e st, [])"
| "rule_step h (MemfdCreate e) st = on_memfd_create e st"
| "rule_step h _ st = (st, [])"

fun rule_run :: "rule_host \<Rightarrow> event list \<Rightarrow> rule_state \<Rightarrow> rule_state \<times> rule_alert list" where
  "rule_run h [] st = (st, [])"
| "rule_run h (e # es) st =
     (let (st1, a) = rule_step h e st; (st2, as) = rule_run h es st1 in (st2, a @ as))"

end
