(* ===== verification/RuleBound.thy ===== *)
theory RuleBound
  imports RuleFiles
begin

text \<open>
  The stateful rules in bounded memory: each table of \<open>rule_state\<close> holds at most its capacity, each
  entry of it a bounded history, after any sequence of events. One lemma per handler keeps the
  invariant \<open>rs_ok\<close>; the laws of the bounded map come from its interpretation as a store.
\<close>

named_theorems store_rules "an operation on a table keeps its bound and its entries' bound"

subsection \<open>Tables\<close>

definition store_ok :: "nat \<Rightarrow> ('v \<Rightarrow> bool) \<Rightarrow> ('k, 'v) bounded_map \<Rightarrow> bool" where
  "store_ok c P m \<longleftrightarrow> bm_wf m \<and> bm_cap m = c \<and> all_entries bm_peek (\<lambda>_. P) m"

lemma store_ok_empty [store_rules]: "c \<ge> 1 \<Longrightarrow> store_ok c P (bm_empty c)"
  by (simp add: store_ok_def bm_wf_empty all_entries_def) (simp add: bm_empty_def bm_peek_def)

lemma store_ok_insert [store_rules]: "store_ok c P m \<Longrightarrow> P v \<Longrightarrow> store_ok c P (bm_insert m k v)"
  by (simp add: store_ok_def bm.all_ins bm_wf_insert)

lemma store_ok_get [store_rules]: "store_ok c P m \<Longrightarrow> store_ok c P (fst (bm_get m k))"
  by (simp add: store_ok_def bm.all_get bm_wf_get) (simp add: bm_get_def next_tick_def Let_def split: option.splits prod.splits)

lemma store_ok_get_mut [store_rules]: "store_ok c P m \<Longrightarrow> store_ok c P (fst (bm_get_mut m k))"
  by (simp add: bm_get_mut_eq_get store_ok_get)

lemma store_ok_write [store_rules]: "store_ok c P m \<Longrightarrow> P v \<Longrightarrow> store_ok c P (bm_write m k v)"
  by (simp add: store_ok_def bm.all_wr bm_wf_write)

lemma store_ok_remove [store_rules]: "store_ok c P m \<Longrightarrow> store_ok c P (fst (bm_remove m k))"
  by (simp add: store_ok_def bm.all_rem bm_wf_remove)

lemma entry_fst: "fst (entry_or m k d) = fst (bm_get_or_insert_with m k d)"
  by (simp add: entry_or_def split: prod.split)

lemma store_ok_entry [store_rules]: "store_ok c P m \<Longrightarrow> P d \<Longrightarrow> store_ok c P (fst (entry_or m k d))"
  by (simp add: store_ok_def entry_fst bm.all_goi bm_wf_goi)

lemma entry_value: "bm_wf m \<Longrightarrow> snd (entry_or m k d) = (case bm_peek m k of None \<Rightarrow> d | Some v \<Rightarrow> v)"
  using bm_goi_result [of m k d] by (simp add: entry_or_def case_prod_beta)

lemma store_ok_value: "store_ok c P m \<Longrightarrow> bm_peek m k = Some v \<Longrightarrow> P v"
  by (simp add: store_ok_def all_entries_def)

lemma entry_value_ok: "store_ok c P m \<Longrightarrow> P d \<Longrightarrow> P (snd (entry_or m k d))"
  using store_ok_value [of c P m k] by (auto simp: store_ok_def entry_value split: option.split)

lemma store_ok_fold: "store_ok c P m \<Longrightarrow> (\<And>m x. store_ok c P m \<Longrightarrow> store_ok c P (f m x)) \<Longrightarrow> store_ok c P (foldl f m xs)"
  by (induction xs arbitrary: m) auto

lemma store_ok_extend [store_rules]: "store_ok c P m \<Longrightarrow> \<forall>(k, v) \<in> set kvs. P v \<Longrightarrow> store_ok c P (bm_extend m kvs)"
  by (induction kvs arbitrary: m) (auto simp: store_ok_insert)

subsection \<open>Entries\<close>

abbreviation any :: "'v \<Rightarrow> bool" where
  "any \<equiv> \<lambda>_. True"

abbreviation at_most :: "nat \<Rightarrow> 'a list \<Rightarrow> bool" where
  "at_most n xs \<equiv> length xs \<le> n"

definition counter_ok :: "sliding_counter \<Rightarrow> bool" where
  "counter_ok c \<longleftrightarrow> at_most 256 (timestamps c)"

definition distinct_counter_ok :: "'a sliding_distinct \<Rightarrow> bool" where
  "distinct_counter_ok c \<longleftrightarrow> at_most 256 (seen_values c)"

definition sum_ok :: "sliding_sum \<Rightarrow> bool" where
  "sum_ok s \<longleftrightarrow> at_most 256 (slots s)"

lemmas entry_values [store_rules] = entry_value_ok [where P = counter_ok] entry_value_ok [where P = sum_ok]
  entry_value_ok [where P = distinct_counter_ok] entry_value_ok [where P = "at_most n" for n]

lemma counter_defaults [store_rules]:
  "counter_ok sliding_counter_default" "distinct_counter_ok sliding_distinct_default" "sum_ok sliding_sum_default"
  by (simp_all add: counter_ok_def distinct_counter_ok_def sum_ok_def sliding_counter_default_def
      sliding_distinct_default_def sliding_sum_default_def)

lemma record_ok: "counter_ok c \<Longrightarrow> counter_ok (fst (sc_record c ts w))"
  using length_dropWhile_le [of "\<lambda>t. w < ts - t" "timestamps c"]
  by (auto simp: counter_ok_def sc_record_def Let_def SLIDING_TIMESTAMPS_CAP_def)

lemma try_alert_ok: "counter_ok c \<Longrightarrow> counter_ok (fst (sc_try_alert c ts w))"
  by (simp add: counter_ok_def sc_try_alert_def)

lemma sd_record_bound [store_rules]: "distinct_counter_ok c \<Longrightarrow> distinct_counter_ok (fst (sd_record c x ts w))"
  using length_dropWhile_le [of "\<lambda>(_, t). w < ts - t" "seen_values c"]
  by (auto simp: distinct_counter_ok_def sd_record_def sd_prune_def Let_def SLIDING_DISTINCT_CAP_def)

lemma sd_try_alert_ok [store_rules]: "distinct_counter_ok c \<Longrightarrow> distinct_counter_ok (fst (sd_try_alert c ts w))"
  by (simp add: distinct_counter_ok_def sd_try_alert_def)

lemma is_new_ok [store_rules]: "at_most 256 d \<Longrightarrow> at_most 256 (fst (is_new d p ts w))"
  using length_dropWhile_le [of "\<lambda>(_, t). w < ts - t" d]
  by (auto simp: is_new_def Let_def FLOW_PORT_DEDUP_CAP_def)

lemma prune_slots_le: "length (fst (prune_slots ts w es tot)) \<le> length es"
  by (induction ts w es tot rule: prune_slots.induct) auto

lemma prune_ok: "sum_ok s \<Longrightarrow> sum_ok (ss_prune s ts w)"
  using prune_slots_le [of ts w "slots s" "running s"] by (simp add: sum_ok_def ss_prune_def case_prod_beta)

lemma ss_total_ok [store_rules]: "sum_ok s \<Longrightarrow> sum_ok (fst (ss_total s ts w))"
  by (simp add: ss_total_def Let_def prune_ok)

lemma coalesce_le: "length (coalesce ts v es) \<le> Suc (length es)"
  by (auto simp: coalesce_def case_prod_beta)

lemma ss_add_ok [store_rules]: "sum_ok s \<Longrightarrow> sum_ok (fst (ss_add s ts v w))"
  using coalesce_le [of ts v "slots (ss_prune s ts w)"] prune_ok [of s ts w]
  by (auto simp: ss_add_def sum_ok_def Let_def SLIDING_SUM_CAP_def)

lemma push_ok [store_rules]: "at_most n xs \<Longrightarrow> 1 \<le> n \<Longrightarrow> at_most n (push_capped n xs x)"
  by (cases xs) (auto simp: push_capped_def)

lemma remove_first_le: "remove_first P xs = Some (y, ys) \<Longrightarrow> length ys \<le> length xs"
  by (induction xs arbitrary: ys) (auto split: if_splits)

lemma remove_last_le: "remove_last P xs = Some (y, ys) \<Longrightarrow> length ys \<le> length xs"
  using remove_first_le [of P "rev xs"] by (fastforce simp: remove_last_def)

lemma count_burst_ok [store_rules]:
  "store_ok c counter_ok m \<Longrightarrow> store_ok c counter_ok (fst (count_burst m k ts w thr also))"
proof -
  assume m: "store_ok c counter_ok m"
  obtain m1 cnt where e: "entry_or m k sliding_counter_default = (m1, cnt)" by fastforce
  have "store_ok c counter_ok m1" "counter_ok cnt"
    using store_ok_entry [OF m, of sliding_counter_default k] entry_value_ok [OF m, of sliding_counter_default k] e counter_defaults(1)
    by simp_all
  then show ?thesis
    by (auto simp: count_burst_def e Let_def case_prod_beta intro!: store_ok_write try_alert_ok record_ok)
qed

subsection \<open>The state\<close>

definition rs_ok :: "rule_state \<Rightarrow> bool" where
  "rs_ok st \<longleftrightarrow>
     store_ok PID_COMM_CAP any (pid_comm st) \<and>
     store_ok PID_COMM_CAP any (pid_image_path st) \<and>
     store_ok RECENT_WRITES_CAP any (recent_writes st) \<and>
     store_ok RECENT_WRITES_CAP any (recent_quarantines st) \<and>
     store_ok COUNTER_CAP counter_ok (self_spawn st) \<and>
     store_ok COUNTER_CAP counter_ok (beacon st) \<and>
     store_ok COUNTER_CAP (at_most 256) (beacon_flow_dedup st) \<and>
     store_ok COUNTER_CAP distinct_counter_ok (scan_spread st) \<and>
     store_ok COUNTER_CAP any (known_listeners st) \<and>
     store_ok COUNTER_CAP counter_ok (auth_failures st) \<and>
     store_ok COUNTER_CAP counter_ok (ransomware_rename st) \<and>
     store_ok COUNTER_CAP counter_ok (ransomware_rename_by_ppid st) \<and>
     store_ok CREATE_UNLINK_PID_CAP (at_most CREATE_UNLINK_HISTORY_PER_PID) (recent_creates st) \<and>
     store_ok CREATE_UNLINK_PID_CAP (at_most CREATE_UNLINK_HISTORY_PER_PID) (pending_unlinks st) \<and>
     store_ok COUNTER_CAP counter_ok (ransomware_unlink st) \<and>
     store_ok COUNTER_CAP sum_ok (write_volume st) \<and>
     store_ok COUNTER_CAP counter_ok (rename_count st) \<and>
     store_ok COUNTER_CAP any (task_registrations st) \<and>
     store_ok PID_COMM_CAP (at_most MEMFD_CREATES_PER_PID) (recent_memfd_creates st) \<and>
     store_ok PID_COMM_CAP any (pending_proc_fd_exec st)"

lemma rs_ok_tables [store_rules]:
  assumes "rs_ok st"
  shows
    "store_ok PID_COMM_CAP any (pid_comm st)"
    "store_ok PID_COMM_CAP any (pid_image_path st)"
    "store_ok RECENT_WRITES_CAP any (recent_writes st)"
    "store_ok RECENT_WRITES_CAP any (recent_quarantines st)"
    "store_ok COUNTER_CAP counter_ok (self_spawn st)"
    "store_ok COUNTER_CAP counter_ok (beacon st)"
    "store_ok COUNTER_CAP (at_most 256) (beacon_flow_dedup st)"
    "store_ok COUNTER_CAP distinct_counter_ok (scan_spread st)"
    "store_ok COUNTER_CAP any (known_listeners st)"
    "store_ok COUNTER_CAP counter_ok (auth_failures st)"
    "store_ok COUNTER_CAP counter_ok (ransomware_rename st)"
    "store_ok COUNTER_CAP counter_ok (ransomware_rename_by_ppid st)"
    "store_ok CREATE_UNLINK_PID_CAP (at_most CREATE_UNLINK_HISTORY_PER_PID) (recent_creates st)"
    "store_ok CREATE_UNLINK_PID_CAP (at_most CREATE_UNLINK_HISTORY_PER_PID) (pending_unlinks st)"
    "store_ok COUNTER_CAP counter_ok (ransomware_unlink st)"
    "store_ok COUNTER_CAP sum_ok (write_volume st)"
    "store_ok COUNTER_CAP counter_ok (rename_count st)"
    "store_ok COUNTER_CAP any (task_registrations st)"
    "store_ok PID_COMM_CAP (at_most MEMFD_CREATES_PER_PID) (recent_memfd_creates st)"
    "store_ok PID_COMM_CAP any (pending_proc_fd_exec st)"
  using assms by (simp_all only: rs_ok_def simp_thms)

lemma rs_ok_update [store_rules]:
  "rs_ok st \<Longrightarrow> store_ok PID_COMM_CAP any m0 \<Longrightarrow> rs_ok (st\<lparr>pid_comm := m0\<rparr>)"
  "rs_ok st \<Longrightarrow> store_ok PID_COMM_CAP any m1 \<Longrightarrow> rs_ok (st\<lparr>pid_image_path := m1\<rparr>)"
  "rs_ok st \<Longrightarrow> store_ok RECENT_WRITES_CAP any m2 \<Longrightarrow> rs_ok (st\<lparr>recent_writes := m2\<rparr>)"
  "rs_ok st \<Longrightarrow> store_ok RECENT_WRITES_CAP any m3 \<Longrightarrow> rs_ok (st\<lparr>recent_quarantines := m3\<rparr>)"
  "rs_ok st \<Longrightarrow> store_ok COUNTER_CAP counter_ok m4 \<Longrightarrow> rs_ok (st\<lparr>self_spawn := m4\<rparr>)"
  "rs_ok st \<Longrightarrow> store_ok COUNTER_CAP counter_ok m5 \<Longrightarrow> rs_ok (st\<lparr>beacon := m5\<rparr>)"
  "rs_ok st \<Longrightarrow> store_ok COUNTER_CAP (at_most 256) m6 \<Longrightarrow> rs_ok (st\<lparr>beacon_flow_dedup := m6\<rparr>)"
  "rs_ok st \<Longrightarrow> store_ok COUNTER_CAP distinct_counter_ok m7 \<Longrightarrow> rs_ok (st\<lparr>scan_spread := m7\<rparr>)"
  "rs_ok st \<Longrightarrow> store_ok COUNTER_CAP any m8 \<Longrightarrow> rs_ok (st\<lparr>known_listeners := m8\<rparr>)"
  "rs_ok st \<Longrightarrow> store_ok COUNTER_CAP counter_ok m9 \<Longrightarrow> rs_ok (st\<lparr>auth_failures := m9\<rparr>)"
  "rs_ok st \<Longrightarrow> store_ok COUNTER_CAP counter_ok m10 \<Longrightarrow> rs_ok (st\<lparr>ransomware_rename := m10\<rparr>)"
  "rs_ok st \<Longrightarrow> store_ok COUNTER_CAP counter_ok m11 \<Longrightarrow> rs_ok (st\<lparr>ransomware_rename_by_ppid := m11\<rparr>)"
  "rs_ok st \<Longrightarrow> store_ok CREATE_UNLINK_PID_CAP (at_most CREATE_UNLINK_HISTORY_PER_PID) m12 \<Longrightarrow> rs_ok (st\<lparr>recent_creates := m12\<rparr>)"
  "rs_ok st \<Longrightarrow> store_ok CREATE_UNLINK_PID_CAP (at_most CREATE_UNLINK_HISTORY_PER_PID) m13 \<Longrightarrow> rs_ok (st\<lparr>pending_unlinks := m13\<rparr>)"
  "rs_ok st \<Longrightarrow> store_ok COUNTER_CAP counter_ok m14 \<Longrightarrow> rs_ok (st\<lparr>ransomware_unlink := m14\<rparr>)"
  "rs_ok st \<Longrightarrow> store_ok COUNTER_CAP sum_ok m15 \<Longrightarrow> rs_ok (st\<lparr>write_volume := m15\<rparr>)"
  "rs_ok st \<Longrightarrow> store_ok COUNTER_CAP counter_ok m16 \<Longrightarrow> rs_ok (st\<lparr>rename_count := m16\<rparr>)"
  "rs_ok st \<Longrightarrow> store_ok COUNTER_CAP any m17 \<Longrightarrow> rs_ok (st\<lparr>task_registrations := m17\<rparr>)"
  "rs_ok st \<Longrightarrow> store_ok PID_COMM_CAP (at_most MEMFD_CREATES_PER_PID) m18 \<Longrightarrow> rs_ok (st\<lparr>recent_memfd_creates := m18\<rparr>)"
  "rs_ok st \<Longrightarrow> store_ok PID_COMM_CAP any m19 \<Longrightarrow> rs_ok (st\<lparr>pending_proc_fd_exec := m19\<rparr>)"
  by (simp_all add: rs_ok_def)

lemma rs_ok_config [store_rules]: "rs_ok st \<Longrightarrow> rs_ok (st\<lparr>own_pid := p\<rparr>)" "rs_ok st \<Longrightarrow> rs_ok (st\<lparr>ld_trust_extra := d\<rparr>)"
  by (simp_all add: rs_ok_def)

lemma rs_new_ok: "rs_ok rs_new"
  by (simp add: rs_ok_def rs_new_def store_rules)

subsection \<open>Every handler keeps the bound\<close>

lemma check_quarantined_exec_ok [store_rules]: "rs_ok st \<Longrightarrow> rs_ok (fst (check_quarantined_exec h st e))"
  by (auto simp: check_quarantined_exec_def Let_def case_prod_beta split: option.split intro!: store_rules)

lemma check_self_spawn_ok [store_rules]: "rs_ok st \<Longrightarrow> rs_ok (fst (check_self_spawn st e))"
  by (auto simp: check_self_spawn_def Let_def case_prod_beta intro!: store_rules)

lemma check_memfd_exec_ok [store_rules]: "rs_ok st \<Longrightarrow> rs_ok (fst (check_memfd_exec st e))"
  by (auto simp: check_memfd_exec_def Let_def split: option.split intro!: store_rules)

lemma on_exec_ok [store_rules]: "rs_ok st \<Longrightarrow> rs_ok (fst (on_exec h e st))"
  by (simp add: on_exec_def Let_def case_prod_beta) (intro store_rules; simp add: store_rules)

lemma on_memfd_create_ok [store_rules]: "rs_ok st \<Longrightarrow> rs_ok (fst (on_memfd_create e st))"
  by (auto simp: on_memfd_create_def Let_def case_prod_beta split: option.split intro!: store_rules)

lemma record_beacon_ok [store_rules]: "rs_ok st \<Longrightarrow> rs_ok (fst (record_beacon pid comm a p ts st))"
  by (auto simp: record_beacon_def Let_def case_prod_beta intro!: store_rules)

lemma check_beacon_ok [store_rules]: "rs_ok st \<Longrightarrow> rs_ok (fst (check_beacon e st))"
  by (simp add: check_beacon_def Let_def record_beacon_ok)

lemma check_scan_spread_ok [store_rules]: "rs_ok st \<Longrightarrow> rs_ok (fst (check_scan_spread e st))"
  by (auto simp: check_scan_spread_def Let_def case_prod_beta intro!: store_rules)

lemma on_connect_ok [store_rules]: "rs_ok st \<Longrightarrow> rs_ok (fst (on_connect e st))"
  by (simp add: on_connect_def Let_def case_prod_beta check_beacon_ok check_scan_spread_ok)

lemma on_network_flow_ok [store_rules]: "rs_ok st \<Longrightarrow> rs_ok (fst (on_network_flow e st))"
  by (auto simp: on_network_flow_def check_beacon_flow_def Let_def case_prod_beta intro!: store_rules)

lemma on_listen_port_ok [store_rules]: "rs_ok st \<Longrightarrow> rs_ok (fst (on_listen_port e st))"
  by (auto simp: on_listen_port_def check_listen_port_drift_def Let_def case_prod_beta intro!: store_rules)

lemma on_auth_ok [store_rules]: "rs_ok st \<Longrightarrow> rs_ok (fst (on_auth e st))"
  by (auto simp: on_auth_def Let_def case_prod_beta intro!: store_rules)

lemma on_file_quarantine_ok [store_rules]: "rs_ok st \<Longrightarrow> rs_ok (on_file_quarantine h e st)"
  by (auto simp: on_file_quarantine_def intro!: store_rules)

lemma check_task_registration_ok [store_rules]: "rs_ok st \<Longrightarrow> rs_ok (fst (check_task_registration e st))"
  by (auto simp: check_task_registration_def Let_def split: option.split intro!: store_rules)

lemma record_downloader_write_ok [store_rules]: "rs_ok st \<Longrightarrow> rs_ok (record_downloader_write e st)"
  by (auto simp: record_downloader_write_def Let_def intro!: store_rules)

lemma check_mass_rename_ok [store_rules]: "rs_ok st \<Longrightarrow> rs_ok (fst (check_mass_rename_pattern e st))"
  by (auto simp: check_mass_rename_pattern_def Let_def case_prod_beta split: option.split intro!: store_rules)

lemma check_burst_write_volume_ok [store_rules]: "rs_ok st \<Longrightarrow> rs_ok (fst (check_burst_write_volume e st))"
  by (auto simp: check_burst_write_volume_def Let_def case_prod_beta intro!: store_rules)

lemma on_file_rename_ok [store_rules]: "rs_ok st \<Longrightarrow> rs_ok (fst (on_file_rename e st))"
  by (simp add: on_file_rename_def Let_def case_prod_beta check_mass_rename_ok check_burst_write_volume_ok)

lemma on_file_write_ok [store_rules]: "rs_ok st \<Longrightarrow> rs_ok (on_file_write e st)"
  by (auto simp: on_file_write_def Let_def case_prod_beta intro!: store_rules)

lemma count_pair_ok [store_rules]: "rs_ok st \<Longrightarrow> rs_ok (fst (count_create_unlink_pair mt ts d c st))"
  by (auto simp: count_create_unlink_pair_def Let_def case_prod_beta intro!: store_rules)

text \<open>What is left of a history after one of its entries is taken.\<close>

lemma taken_ok:
  assumes "store_ok c (at_most n) m" and "Option.bind (snd (bm_get_mut m k)) f = Some (y, rest)"
    and "\<And>xs. f xs = Some (y, rest) \<Longrightarrow> length rest \<le> length xs"
  shows "at_most n rest"
proof -
  obtain xs where "bm_peek m k = Some xs" "f xs = Some (y, rest)"
    using assms(2) by (auto simp: bm_get_mut_eq_get bind_eq_Some_conv)
  then show ?thesis using store_ok_value [OF assms(1)] assms(3) by fastforce
qed

lemma on_file_delete_ok [store_rules]:
  assumes "rs_ok st"
  shows "rs_ok (fst (on_file_delete e st))"
proof -
  have "rs_ok (fst (check_write_new_then_unlink e st))"
    using assms taken_ok [OF rs_ok_tables(13) [OF assms], OF _ remove_last_le]
    by (auto simp: check_write_new_then_unlink_def Let_def case_prod_beta split: option.split intro!: store_rules)
  then show ?thesis by (simp add: on_file_delete_def Let_def case_prod_beta)
qed

lemma record_create_ok [store_rules]:
  assumes "rs_ok st"
  shows "rs_ok (fst (record_create e st))"
  using assms taken_ok [OF rs_ok_tables(14) [OF assms], OF _ remove_first_le]
  by (auto simp: record_create_def Let_def case_prod_beta split: option.split intro!: store_rules)

lemma on_file_open_ok [store_rules]: "rs_ok st \<Longrightarrow> rs_ok (fst (on_file_open h e st))"
  by (simp add: on_file_open_def Let_def case_prod_beta check_task_registration_ok record_create_ok record_downloader_write_ok)

lemma rule_step_ok [store_rules]: "rs_ok st \<Longrightarrow> rs_ok (fst (rule_step h e st))"
  by (cases e) (simp_all add: store_rules)

lemma rule_run_ok: "rs_ok st \<Longrightarrow> rs_ok (fst (rule_run h es st))"
  by (induction es arbitrary: st) (auto simp: Let_def case_prod_beta rule_step_ok)

lemma seeds_ok [store_rules]:
  assumes "rs_ok st"
  shows "rs_ok (seed_own_pid p st)" "rs_ok (seed_ld_trust_dirs d st)" "rs_ok (seed_listen_ports ports st)"
    "rs_ok (seed_pid_comm table st)" "rs_ok (seed_from_proc listing st)"
  using assms
  by (auto simp: seed_own_pid_def seed_ld_trust_dirs_def seed_listen_ports_def seed_pid_comm_def seed_from_proc_def
      split: option.split intro!: store_rules store_ok_fold)

text \<open>
  C6: The memory of the stateful rules is bounded. Whatever the startup seeds and whatever the
  events, every table holds at most its capacity, every counter at most 256 times, every
  per-process history of creations and unlinks at most 64 entries and of memory files at most 8.
\<close>

theorem rule_state_bounded:
  "rs_ok (fst (rule_run h es
     (seed_own_pid p (seed_ld_trust_dirs d (seed_listen_ports ports (seed_pid_comm table (seed_from_proc listing rs_new)))))))"
  by (intro rule_run_ok seeds_ok rs_new_ok)

end
