(* ===== verification/RuleProps.thy ===== *)
theory RuleProps
  imports RuleBound
begin

text \<open>
  What the stateful rules detect and what they leave alone: the mass-rename alert and its two-step
  evasion, the joins that do not depend on the order in which two ring buffers are drained, one
  alert per download mark, and the exclusions a recycled or renamed process cannot borrow.
\<close>

subsection \<open>Counting\<close>

definition slot_of_key :: "'k counters \<Rightarrow> 'k \<Rightarrow> sliding_counter" where
  "slot_of_key m k = (case bm_peek m k of None \<Rightarrow> sliding_counter_default | Some c \<Rightarrow> c)"

definition count_slot :: "sliding_counter \<Rightarrow> nat \<Rightarrow> nat \<Rightarrow> nat \<Rightarrow> bool \<Rightarrow> sliding_counter \<times> nat \<times> bool" where
  "count_slot c ts w threshold also =
     (let (c1, n) = sc_record c ts w;
          (c2, fired) = (if n \<ge> threshold \<and> also then sc_try_alert c1 ts w else (c1, False))
      in (c2, n, fired))"

lemma count_burst_slot:
  assumes "bm_wf m"
  shows "count_burst m k ts w thr also =
    (bm_write (fst (bm_get_or_insert_with m k sliding_counter_default)) k (fst (count_slot (slot_of_key m k) ts w thr also)),
     snd (count_slot (slot_of_key m k) ts w thr also))"
  using assms by (simp add: count_burst_def count_slot_def slot_of_key_def Let_def case_prod_beta entry_value entry_fst)

lemma slot_after:
  "bm_wf m \<Longrightarrow> slot_of_key (fst (count_burst m k ts w thr also)) k = fst (count_slot (slot_of_key m k) ts w thr also)"
  by (simp add: count_burst_slot bm.look_goi_wr_same) (simp add: slot_of_key_def bm.look_goi_wr_same)

text \<open>A counter that has not alerted and whose times are all in the window.\<close>

definition quiet :: "nat \<Rightarrow> nat \<Rightarrow> sliding_counter \<Rightarrow> bool" where
  "quiet now w c \<longleftrightarrow> sc_last_alert_ns c = None \<and> (\<forall>t \<in> set (timestamps c). now - t \<le> w) \<and> length (timestamps c) < 256"

lemma count_slot_quiet:
  assumes "quiet ts w c"
  shows "count_slot c ts w thr also =
    (let n = Suc (length (timestamps c)); fires = thr \<le> n \<and> also
     in (\<lparr>timestamps = timestamps c @ [ts], sc_last_alert_ns = (if fires then Some ts else None)\<rparr>, n, fires))"
proof -
  have "dropWhile (\<lambda>t. w < ts - t) (timestamps c) = timestamps c"
    using assms by (intro dropWhile_id) (auto simp: quiet_def)
  then have "sc_record c ts w = (c\<lparr>timestamps := timestamps c @ [ts]\<rparr>, Suc (length (timestamps c)))"
    using assms by (simp add: sc_record_def quiet_def SLIDING_TIMESTAMPS_CAP_def)
  then show ?thesis using assms by (simp add: count_slot_def Let_def sc_try_alert_def quiet_def)
qed

subsection \<open>Mass renames\<close>

definition counted_rename :: "rule_state \<Rightarrow> file_rename_event \<Rightarrow> bool" where
  "counted_rename st e \<longleftrightarrow>
     (\<exists>suf. appended_suffix (file_rename_old_path e) (file_rename_new_path e) = Some suf \<and> \<not> rename_exempt st e suf)"

abbreviation rename_ts :: "file_rename_event \<Rightarrow> nat" where
  "rename_ts e \<equiv> m_timestamp_ns (file_rename_meta e)"

abbreviation rename_slot :: "rule_state \<Rightarrow> nat \<Rightarrow> sliding_counter" where
  "rename_slot st pid \<equiv> slot_of_key (ransomware_rename st) pid"

lemma rename_exempt_cong: "pid_image_path st = pid_image_path st' \<Longrightarrow> rename_exempt st e suf = rename_exempt st' e suf"
  by (simp add: rename_exempt_def is_in_place_edit_backup_def)

lemma counted_rename_cong: "pid_image_path st = pid_image_path st' \<Longrightarrow> counted_rename st e = counted_rename st' e"
  using rename_exempt_cong [of st st' e] by (simp add: counted_rename_def)

lemma write_volume_frame [simp]:
  "ransomware_rename (fst (check_burst_write_volume e st)) = ransomware_rename st"
  "pid_image_path (fst (check_burst_write_volume e st)) = pid_image_path st"
  by (simp_all add: check_burst_write_volume_def Let_def case_prod_beta)

lemma mass_rename_frame [simp]: "pid_image_path (fst (check_mass_rename_pattern e st)) = pid_image_path st"
  by (simp add: check_mass_rename_pattern_def Let_def case_prod_beta split: option.split)

lemma mass_rename_table:
  assumes "counted_rename st e"
  shows "ransomware_rename (fst (check_mass_rename_pattern e st)) =
    fst (count_burst (ransomware_rename st) (m_pid (file_rename_meta e)) (rename_ts e)
      RANSOMWARE_RENAME_WINDOW_NS RANSOMWARE_RENAME_THRESHOLD True)"
  using assms by (auto simp: counted_rename_def check_mass_rename_pattern_def Let_def case_prod_beta)

lemma mass_rename_fires:
  assumes "counted_rename st e"
    and "count_burst (ransomware_rename st) (m_pid (file_rename_meta e)) (rename_ts e)
      RANSOMWARE_RENAME_WINDOW_NS RANSOMWARE_RENAME_THRESHOLD True = (m, n, True)"
  shows "\<exists>a. snd (check_mass_rename_pattern e st) = Some a \<and> ra_technique a = ''T1486'' \<and> ra_severity a = Critical \<and>
    starts_with (ra_message a)
      (''pid='' @ show_nat (m_pid (file_rename_meta e)) @ '' comm='' @ m_comm (file_rename_meta e) @ '': '' @ show_nat n)"
  using assms by (auto simp: counted_rename_def check_mass_rename_pattern_def Let_def starts_with_prefix prefix_def)

lemma rename_step:
  assumes "rs_ok st" and "counted_rename st e" and "m_pid (file_rename_meta e) = pid"
    and "quiet (rename_ts e) RANSOMWARE_RENAME_WINDOW_NS (rename_slot st pid)"
  shows "timestamps (rename_slot (fst (on_file_rename e st)) pid) = timestamps (rename_slot st pid) @ [rename_ts e]"
    and "Suc (length (timestamps (rename_slot st pid))) < 20 \<Longrightarrow> sc_last_alert_ns (rename_slot (fst (on_file_rename e st)) pid) = None"
    and "pid_image_path (fst (on_file_rename e st)) = pid_image_path st"
proof -
  have wf: "bm_wf (ransomware_rename st)" using rs_ok_tables(11) [OF assms(1)] by (simp add: store_ok_def)
  have "rename_slot (fst (on_file_rename e st)) pid =
      fst (count_slot (rename_slot st pid) (rename_ts e) RANSOMWARE_RENAME_WINDOW_NS RANSOMWARE_RENAME_THRESHOLD True)"
    using slot_after [OF wf] mass_rename_table [OF assms(2)] assms(3)
    by (simp add: on_file_rename_def Let_def case_prod_beta)
  note slot = this [unfolded count_slot_quiet [OF assms(4)] Let_def]
  show "timestamps (rename_slot (fst (on_file_rename e st)) pid) = timestamps (rename_slot st pid) @ [rename_ts e]"
    unfolding slot by simp
  show "sc_last_alert_ns (rename_slot (fst (on_file_rename e st)) pid) = None"
    if "Suc (length (timestamps (rename_slot st pid))) < 20"
    unfolding slot using that by simp
  show "pid_image_path (fst (on_file_rename e st)) = pid_image_path st"
    by (simp add: on_file_rename_def Let_def case_prod_beta)
qed

lemma rule_run_append:
  "rule_run h (es @ fs) st =
     (let (st1, a) = rule_run h es st; (st2, b) = rule_run h fs st1 in (st2, a @ b))"
  by (induction es arbitrary: st) (auto simp: Let_def case_prod_beta)

lemma rule_run_snoc:
  "fst (rule_run h (es @ [e]) st) = fst (rule_step h e (fst (rule_run h es st)))"
  "snd (rule_run h (es @ [e]) st) = snd (rule_run h es st) @ snd (rule_step h e (fst (rule_run h es st)))"
  by (simp_all add: rule_run_append Let_def case_prod_beta)

definition rename_burst :: "rule_state \<Rightarrow> nat \<Rightarrow> nat \<Rightarrow> file_rename_event list \<Rightarrow> bool" where
  "rename_burst st pid t0 es \<longleftrightarrow>
     list_all (\<lambda>e. m_pid (file_rename_meta e) = pid \<and> counted_rename st e \<and>
       t0 \<le> rename_ts e \<and> rename_ts e \<le> t0 + RANSOMWARE_RENAME_WINDOW_NS) es"

lemma rename_burst_state:
  assumes "rs_ok st" and "bm_peek (ransomware_rename st) pid = None"
  shows "rename_burst st pid t0 es \<Longrightarrow> length es < 20 \<Longrightarrow>
    (let st' = fst (rule_run h (map FileRename es) st)
     in timestamps (rename_slot st' pid) = map rename_ts es \<and> sc_last_alert_ns (rename_slot st' pid) = None \<and>
        pid_image_path st' = pid_image_path st)"
proof (induction es rule: rev_induct)
  case Nil
  show ?case using assms(2) by (simp add: slot_of_key_def sliding_counter_default_def)
next
  case (snoc e es)
  let ?st = "fst (rule_run h (map FileRename es) st)"
  have IH: "timestamps (rename_slot ?st pid) = map rename_ts es" "sc_last_alert_ns (rename_slot ?st pid) = None"
      "pid_image_path ?st = pid_image_path st"
    using snoc by (simp_all add: rename_burst_def Let_def)
  have e: "m_pid (file_rename_meta e) = pid" "counted_rename ?st e" "rename_ts e \<le> t0 + RANSOMWARE_RENAME_WINDOW_NS"
    using snoc.prems(1) counted_rename_cong [OF IH(3)] by (simp_all add: rename_burst_def)
  have "\<forall>t \<in> set (map rename_ts es). rename_ts e - t \<le> RANSOMWARE_RENAME_WINDOW_NS"
    using snoc.prems(1) e(3) by (auto simp: rename_burst_def list_all_iff)
  then have "quiet (rename_ts e) RANSOMWARE_RENAME_WINDOW_NS (rename_slot ?st pid)"
    using IH snoc.prems(2) by (simp add: quiet_def)
  note step = rename_step [OF rule_run_ok [OF assms(1)] e(2,1) this]
  show ?case
    using step IH snoc.prems(2) by (simp add: rule_run_snoc Let_def)
qed

text \<open>
  C4: Twenty renames by one process that append a suffix no exclusion covers, within five seconds,
  raise a critical T1486 alert that names the process and the count, in a state that has no count
  for the process yet. Nothing in the file names or in the other tables of the state matters.
\<close>

theorem mass_rename_alerts:
  assumes "rs_ok st" and "bm_peek (ransomware_rename st) pid = None"
    and "rename_burst st pid t0 es" and "length es = RANSOMWARE_RENAME_THRESHOLD"
  shows "\<exists>a \<in> set (snd (rule_run h (map FileRename es) st)). ra_technique a = ''T1486'' \<and> ra_severity a = Critical \<and>
    starts_with (ra_message a) (''pid='' @ show_nat pid @ '' comm='' @ m_comm (file_rename_meta (last es)) @ '': 20'')"
proof -
  obtain fs e where es: "es = fs @ [e]" using assms(4) by (cases es rule: rev_cases) auto
  let ?st = "fst (rule_run h (map FileRename fs) st)"
  have fs: "rename_burst st pid t0 fs" "length fs < 20" using assms(3,4) es by (simp_all add: rename_burst_def)
  have st: "timestamps (rename_slot ?st pid) = map rename_ts fs" "sc_last_alert_ns (rename_slot ?st pid) = None"
      "pid_image_path ?st = pid_image_path st"
    using rename_burst_state [OF assms(1,2) fs, of h] by (simp_all add: Let_def)
  have e: "m_pid (file_rename_meta e) = pid" "counted_rename ?st e"
    using assms(3) es counted_rename_cong [OF st(3)] by (simp_all add: rename_burst_def)
  have "\<forall>t \<in> set (map rename_ts fs). rename_ts e - t \<le> RANSOMWARE_RENAME_WINDOW_NS"
    using assms(3) es by (auto simp: rename_burst_def list_all_iff)
  then have q: "quiet (rename_ts e) RANSOMWARE_RENAME_WINDOW_NS (rename_slot ?st pid)"
    using st fs(2) by (simp add: quiet_def)
  have wf: "bm_wf (ransomware_rename ?st)"
    using rs_ok_tables(11) [OF rule_run_ok [OF assms(1)]] by (simp add: store_ok_def)
  have "length fs = 19" using assms(4) es by simp
  then obtain m where "count_burst (ransomware_rename ?st) pid (rename_ts e)
      RANSOMWARE_RENAME_WINDOW_NS RANSOMWARE_RENAME_THRESHOLD True = (m, 20, True)"
    by (simp add: count_burst_slot [OF wf] count_slot_quiet [OF q] st(1) Let_def)
  then obtain a where "snd (check_mass_rename_pattern e ?st) = Some a" "ra_technique a = ''T1486''" "ra_severity a = Critical"
      "starts_with (ra_message a) (''pid='' @ show_nat pid @ '' comm='' @ m_comm (file_rename_meta e) @ '': '' @ show_nat 20)"
    using mass_rename_fires [OF e(2)] e(1) by blast
  moreover have "show_nat 20 = ''20''" by code_simp
  ultimately show ?thesis
    using es by (auto simp: rule_run_snoc on_file_rename_def Let_def case_prod_beta)
qed

definition sample_meta :: event_meta where
  "sample_meta = \<lparr>m_pid = 7, m_ppid = 5, m_user = Unix 0 0, m_timestamp_ns = 1000, m_comm = ''enc'',
     m_container = None, process_generation = Some 3, parent_process_generation = None\<rparr>"

definition sample_rename :: file_rename_event where
  "sample_rename = \<lparr>file_rename_meta = sample_meta, file_rename_old_path = ''/home/a.docx'',
     file_rename_new_path = ''/home/a.docx.locked'', file_rename_executable_path = None\<rparr>"

definition sample_host :: rule_host where
  "sample_host = \<lparr>proc_comm = (\<lambda>_. None), to_lowercase = to_ascii_lowercase\<rparr>"

lemma sample_rename_counted: "counted_rename rs_new sample_rename"
proof -
  have "appended_suffix ''/home/a.docx'' ''/home/a.docx.locked'' = Some ''.locked''" by code_simp
  moreover have "\<not> is_rotation_suffix ''.locked''" "\<not> is_maildir_flag_change ''/home/a.docx'' ''.locked''"
    "\<not> is_maildir_delivery ''/home/a.docx'' ''/home/a.docx.locked'' ''.locked''" by code_simp+
  ultimately show ?thesis
    by (simp add: counted_rename_def rename_exempt_def is_in_place_edit_backup_def sample_rename_def sample_meta_def)
qed

theorem mass_rename_alerts_witness:
  "\<exists>a \<in> set (snd (rule_run sample_host (map FileRename (replicate 20 sample_rename)) rs_new)). ra_technique a = ''T1486'' \<and> ra_severity a = Critical \<and>
    starts_with (ra_message a) (''pid='' @ show_nat 7 @ '' comm='' @ m_comm (file_rename_meta (last (replicate 20 sample_rename))) @ '': 20'')"
proof (rule mass_rename_alerts [of rs_new 7 1000])
  show "rs_ok rs_new" by (rule rs_new_ok)
  show "bm_peek (ransomware_rename rs_new) 7 = None" by (simp add: rs_new_def bm_empty_def bm_peek_def)
  show "rename_burst rs_new 7 1000 (replicate 20 sample_rename)"
    using sample_rename_counted by (simp add: rename_burst_def list_all_iff) (simp add: sample_rename_def sample_meta_def)
qed simp

subsection \<open>The Maildir exclusion\<close>

lemma maildir_flags_lowercase: "list_all is_ascii_lowercase s \<Longrightarrow> is_maildir_flags s"
  by (auto simp: is_maildir_flags_def Let_def list_all_iff dest: set_dropWhileD)

text \<open>
  C39: A rename to the bare Maildir marker is exempt, having no letter, and from there a rename
  that appends any lower-case word is exempt as a flag change. So every file can be renamed to its
  name with \<open>:2,locked\<close> in two steps that the mass-rename rule never counts, whatever the process,
  the state and the directory.
\<close>

theorem maildir_two_step_rename_uncounted:
  assumes "file_rename_old_path e1 = f" and "file_rename_new_path e1 = f @ '':2,''"
    and "file_rename_old_path e2 = f @ '':2,''" and "file_rename_new_path e2 = f @ '':2,'' @ word"
    and "word \<noteq> []" and "list_all is_ascii_lowercase word"
  shows "check_mass_rename_pattern e1 st = (st, None) \<and> check_mass_rename_pattern e2 st = (st, None)"
proof
  have "is_rotation_suffix '':2,''" by code_simp
  then show "check_mass_rename_pattern e1 st = (st, None)"
    using assms(1,2) by (simp add: check_mass_rename_pattern_def rename_exempt_def)
  have "after_last_str (f @ '':2,'') '':2,'' = Some []" by (rule after_last_str_end) simp
  then have "is_maildir_flag_change (f @ '':2,'') word"
    using assms(5,6) maildir_flags_lowercase by (simp add: is_maildir_flag_change_def)
  moreover have "appended_suffix (f @ '':2,'') (f @ '':2,'' @ word) = Some word"
    using appended_suffix_same_dir [of "f @ '':2,''" word] by simp
  ultimately show "check_mass_rename_pattern e2 st = (st, None)"
    using assms(3,4) by (simp add: check_mass_rename_pattern_def rename_exempt_def)
qed

theorem maildir_two_step_rename_uncounted_witness:
  "check_mass_rename_pattern (sample_rename\<lparr>file_rename_new_path := ''/home/a.docx:2,''\<rparr>) rs_new = (rs_new, None) \<and>
   check_mass_rename_pattern (sample_rename\<lparr>file_rename_old_path := ''/home/a.docx:2,'', file_rename_new_path := ''/home/a.docx:2,locked''\<rparr>) rs_new = (rs_new, None)"
  by (rule maildir_two_step_rename_uncounted [of _ "''/home/a.docx''" _ "''locked''"]) (simp_all add: sample_rename_def in_range_def)

subsection \<open>Memory files, in either order\<close>

lemma proc_fd_not_dev_fd: "proc_fd_number path pid = Some fd \<Longrightarrow> \<not> is_dev_fd_path path"
  by (auto simp: proc_fd_number_def is_dev_fd_path_def strip_prefix_Some split: option.splits)

lemma peek_after_entry_write:
  "bm_wf m \<Longrightarrow> bm_peek (bm_write (fst (entry_or m k d)) k v) k = Some v"
  by (simp add: entry_fst bm.look_goi_wr_same)

text \<open>
  C11: A process with no memory file and no execution through a descriptor on record that creates a
  memory file and executes it through its descriptor raises the same T1620 alert, once, whichever of the two events is processed first, provided that the creation is
  not after the execution and at most five seconds before; otherwise neither order raises one.
\<close>

theorem memfd_exec_in_either_order:
  assumes "rs_ok st" and "bm_peek (recent_memfd_creates st) pid = None" and "bm_peek (pending_proc_fd_exec st) pid = None"
    and "m_pid (exec_meta e) = pid" and "m_pid (memfd_create_meta c) = pid"
    and "proc_fd_number (exec_image_path e) pid = Some (memfd_create_fd c)"
  shows "let a = memfd_proc_fd_exec_alert pid (m_comm (exec_meta e)) (exec_image_path e) (memfd_create_fd c);
      te = m_timestamp_ns (exec_meta e); tc = m_timestamp_ns (memfd_create_meta c);
      joined = tc \<le> te \<and> te - tc \<le> MEMFD_EXEC_WINDOW_NS;
      (created, a1) = on_memfd_create c st; (_, a2) = check_memfd_exec created e;
      (executed, b1) = check_memfd_exec st e; (_, b2) = on_memfd_create c executed
    in a1 = [] \<and> b1 = None \<and> a2 = (if joined then Some a else None) \<and> b2 = (if joined then [a] else [])"
proof -
  have wf: "bm_wf (recent_memfd_creates st)" "bm_wf (pending_proc_fd_exec st)"
    using rs_ok_tables(19,20) [OF assms(1)] by (simp_all add: store_ok_def)
  note dev = proc_fd_not_dev_fd [OF assms(6)]
  have slot: "snd (entry_or (recent_memfd_creates st) pid []) = []" using assms(2) by (simp add: entry_value [OF wf(1)])
  have created: "bm_peek (recent_memfd_creates (fst (on_memfd_create c st))) pid =
      Some [(m_timestamp_ns (memfd_create_meta c), memfd_create_fd c)]" "snd (on_memfd_create c st) = []"
    using assms(3,5) slot peek_after_entry_write [OF wf(1)]
    by (simp_all add: on_memfd_create_def Let_def case_prod_beta push_capped_def)
  have executed: "snd (check_memfd_exec st e) = None"
      "bm_peek (pending_proc_fd_exec (fst (check_memfd_exec st e))) pid =
        Some \<lparr>pe_path = exec_image_path e, pe_fd = memfd_create_fd c, pe_comm = m_comm (exec_meta e),
              pe_timestamp_ns = m_timestamp_ns (exec_meta e)\<rparr>"
    using assms dev bm.look_ins_same [OF wf(2)] by (simp_all add: check_memfd_exec_def Let_def)
  show ?thesis
    using created executed assms(4-6) dev
    by (auto simp: Let_def case_prod_beta check_memfd_exec_def [of "fst (on_memfd_create c st)"]
        on_memfd_create_def [of c "fst (check_memfd_exec st e)"])
qed

definition sample_exec :: exec_event where
  "sample_exec = \<lparr>exec_meta = sample_meta\<lparr>m_timestamp_ns := 2000\<rparr>, exec_image_path = ''/proc/self/fd/3'', exec_cmdline = [],
     exec_argv = [], exec_parent_comm = None, exec_parent_image_path = None, exec_sha256 = None,
     exec_signature = None, exec_env_security = []\<rparr>"

definition sample_memfd :: memfd_create_event where
  "sample_memfd = \<lparr>memfd_create_meta = sample_meta, memfd_create_name = ''x'', memfd_create_flags = 0, memfd_create_fd = 3\<rparr>"

lemma rs_new_peek [simp]:
  "bm_peek (recent_memfd_creates rs_new) k = None" "bm_peek (pending_proc_fd_exec rs_new) k = None"
  "bm_peek (recent_creates rs_new) k = None" "bm_peek (pending_unlinks rs_new) k = None"
  by (simp_all add: rs_new_def bm_empty_def bm_peek_def)

theorem memfd_exec_in_either_order_witness:
  "snd (check_memfd_exec (fst (on_memfd_create sample_memfd rs_new)) sample_exec) = Some (memfd_proc_fd_exec_alert 7 ''enc'' ''/proc/self/fd/3'' 3) \<and>
   snd (on_memfd_create sample_memfd (fst (check_memfd_exec rs_new sample_exec))) = [memfd_proc_fd_exec_alert 7 ''enc'' ''/proc/self/fd/3'' 3]"
proof -
  have "proc_fd_number ''/proc/self/fd/3'' 7 = Some 3" by code_simp
  then show ?thesis
    using memfd_exec_in_either_order [of rs_new 7 sample_exec sample_memfd] rs_new_ok
    by (simp add: sample_exec_def sample_memfd_def sample_meta_def Let_def case_prod_beta)
qed

subsection \<open>Created and unlinked, in either order\<close>

lemma trusted_binary_cong:
  assumes "m_pid mt = m_pid mt'" and "m_comm mt = m_comm mt'" and "process_generation mt = process_generation mt'"
    and "pid_image_path st = pid_image_path st'"
  shows "runs_trusted_binary_named st mt = runs_trusted_binary_named st' mt'"
  using assms by (auto simp: runs_trusted_binary_named_def split: option.splits)

lemma count_pair_meta:
  assumes "m_pid mt = m_pid mt'" and "m_comm mt = m_comm mt'" and "process_generation mt = process_generation mt'"
    and "pid_image_path st = pid_image_path st'" and "ransomware_unlink st = ransomware_unlink st'"
  shows "snd (count_create_unlink_pair mt ts d c st) = snd (count_create_unlink_pair mt' ts d c st')"
    and "ransomware_unlink (fst (count_create_unlink_pair mt ts d c st)) = ransomware_unlink (fst (count_create_unlink_pair mt' ts d c st'))"
proof -
  have "is_compressor st mt = is_compressor st' mt'" "is_compression_driver st mt d c = is_compression_driver st' mt' d c"
    using trusted_binary_cong [OF assms(1-4)] assms(2) by (simp_all only: is_compressor_def is_compression_driver_def)
  then show "snd (count_create_unlink_pair mt ts d c st) = snd (count_create_unlink_pair mt' ts d c st')"
    and "ransomware_unlink (fst (count_create_unlink_pair mt ts d c st)) = ransomware_unlink (fst (count_create_unlink_pair mt' ts d c st'))"
    using assms(1,2,5) by (simp_all add: count_create_unlink_pair_def Let_def case_prod_beta)
qed

lemma remove_first_none: "\<forall>x \<in> set xs. \<not> P x \<Longrightarrow> remove_first P xs = None"
  by (induction xs) auto

lemma remove_first_snoc:
  "\<forall>x \<in> set xs. \<not> P x \<Longrightarrow> remove_first P (xs @ [x]) = (if P x then Some (x, xs) else None)"
  by (induction xs) auto

lemma remove_last_none: "\<forall>x \<in> set xs. \<not> P x \<Longrightarrow> remove_last P xs = None"
  by (simp add: remove_last_def remove_first_none)

lemma remove_last_snoc:
  "\<forall>x \<in> set xs. \<not> P x \<Longrightarrow> remove_last P (xs @ [x]) = (if P x then Some (x, xs) else None)"
  by (simp add: remove_last_def remove_first_none)

lemma push_capped_snoc: "\<exists>ys. push_capped n xs x = ys @ [x] \<and> set ys \<subseteq> set xs"
  by (cases xs) (auto simp: push_capped_def)

definition creates_file :: "file_open_event \<Rightarrow> bool" where
  "creates_file f \<longleftrightarrow> file_open_flags f AND O_CREAT \<noteq> 0 \<and> is_unix (file_open_meta f)"

abbreviation open_ts :: "file_open_event \<Rightarrow> nat" where
  "open_ts f \<equiv> m_timestamp_ns (file_open_meta f)"

abbreviation delete_ts :: "file_delete_event \<Rightarrow> nat" where
  "delete_ts d \<equiv> m_timestamp_ns (file_delete_meta d)"

definition paired :: "file_open_event \<Rightarrow> file_delete_event \<Rightarrow> bool" where
  "paired f d = pairs_create_and_unlink (open_ts f) (file_open_path f) (delete_ts d) (file_delete_path d)"

abbreviation history :: "(nat, (nat \<times> string) list) bounded_map \<Rightarrow> nat \<Rightarrow> (nat \<times> string) list" where
  "history m pid \<equiv> (case bm_peek m pid of None \<Rightarrow> [] | Some h \<Rightarrow> h)"

text \<open>
  Among the creations and unlinks remembered for a process, which may be many, none is a partner of
  the two events at hand: no earlier creation pairs with the unlink, and no pending unlink with the
  creation.
\<close>

definition no_other_partner :: "rule_state \<Rightarrow> nat \<Rightarrow> file_open_event \<Rightarrow> file_delete_event \<Rightarrow> bool" where
  "no_other_partner st pid f d \<longleftrightarrow>
     (\<forall>(ts, p) \<in> set (history (recent_creates st) pid). \<not> pairs_create_and_unlink ts p (delete_ts d) (file_delete_path d)) \<and>
     (\<forall>(ts, p) \<in> set (history (pending_unlinks st) pid). \<not> pairs_create_and_unlink (open_ts f) (file_open_path f) ts p)"

lemma no_partner_found:
  assumes "no_other_partner st pid f d"
  shows "Option.bind (bm_peek (recent_creates st) pid)
      (remove_last (\<lambda>(ts, p). pairs_create_and_unlink ts p (delete_ts d) (file_delete_path d))) = None"
    and "Option.bind (bm_peek (pending_unlinks st) pid)
      (remove_first (\<lambda>(ts, p). pairs_create_and_unlink (open_ts f) (file_open_path f) ts p)) = None"
  using assms unfolding no_other_partner_def
  by (cases "bm_peek (recent_creates st) pid"; cases "bm_peek (pending_unlinks st) pid";
      force intro!: remove_last_none remove_first_none)+

lemma create_remembered:
  assumes "rs_ok st" and "no_other_partner st pid f d" and "creates_file f" and "m_pid (file_open_meta f) = pid"
  shows "snd (record_create f st) = None"
    and "bm_peek (recent_creates (fst (record_create f st))) pid =
      Some (push_capped CREATE_UNLINK_HISTORY_PER_PID (history (recent_creates st) pid) (open_ts f, file_open_path f))"
    and "pid_image_path (fst (record_create f st)) = pid_image_path st"
    and "ransomware_unlink (fst (record_create f st)) = ransomware_unlink st"
proof -
  have wf: "bm_wf (recent_creates st)" using rs_ok_tables(13) [OF assms(1)] by (simp add: store_ok_def)
  have *: "has_write_intent (file_open_flags f)" using assms(3) by (simp add: creates_file_def has_write_intent_def Let_def)
  show "snd (record_create f st) = None"
    and "bm_peek (recent_creates (fst (record_create f st))) pid =
      Some (push_capped CREATE_UNLINK_HISTORY_PER_PID (history (recent_creates st) pid) (open_ts f, file_open_path f))"
    and "pid_image_path (fst (record_create f st)) = pid_image_path st"
    and "ransomware_unlink (fst (record_create f st)) = ransomware_unlink st"
    using assms(3,4) * peek_after_entry_write [OF wf] no_partner_found(2) [OF assms(2)]
    by (simp_all add: creates_file_def record_create_def Let_def case_prod_beta bm_get_mut_eq_get entry_value [OF wf])
qed

lemma unlink_remembered:
  assumes "rs_ok st" and "no_other_partner st pid f d" and "is_unix (file_delete_meta d)" and "m_pid (file_delete_meta d) = pid"
  shows "snd (check_write_new_then_unlink d st) = None"
    and "bm_peek (pending_unlinks (fst (check_write_new_then_unlink d st))) pid =
      Some (push_capped CREATE_UNLINK_HISTORY_PER_PID (history (pending_unlinks st) pid) (delete_ts d, file_delete_path d))"
    and "pid_image_path (fst (check_write_new_then_unlink d st)) = pid_image_path st"
    and "ransomware_unlink (fst (check_write_new_then_unlink d st)) = ransomware_unlink st"
proof -
  have wf: "bm_wf (pending_unlinks st)" using rs_ok_tables(14) [OF assms(1)] by (simp add: store_ok_def)
  show "snd (check_write_new_then_unlink d st) = None"
    and "bm_peek (pending_unlinks (fst (check_write_new_then_unlink d st))) pid =
      Some (push_capped CREATE_UNLINK_HISTORY_PER_PID (history (pending_unlinks st) pid) (delete_ts d, file_delete_path d))"
    and "pid_image_path (fst (check_write_new_then_unlink d st)) = pid_image_path st"
    and "ransomware_unlink (fst (check_write_new_then_unlink d st)) = ransomware_unlink st"
    using assms(3,4) peek_after_entry_write [OF wf] no_partner_found(1) [OF assms(2)]
    by (simp_all add: check_write_new_then_unlink_def Let_def case_prod_beta bm_get_mut_eq_get entry_value [OF wf])
qed

lemma unlink_pairs:
  assumes "bm_peek (recent_creates S) pid = Some (hist @ [(open_ts f, file_open_path f)])"
    and "\<forall>(ts, p) \<in> set hist. \<not> pairs_create_and_unlink ts p (delete_ts d) (file_delete_path d)"
    and "is_unix (file_delete_meta d)" and "m_pid (file_delete_meta d) = pid"
  shows "paired f d \<Longrightarrow> check_write_new_then_unlink d S =
      count_create_unlink_pair (file_delete_meta d) (delete_ts d) (file_delete_path d) (file_open_path f)
        (S\<lparr>recent_creates := bm_write (fst (bm_get (recent_creates S) pid)) pid hist\<rparr>)"
    and "\<not> paired f d \<Longrightarrow> snd (check_write_new_then_unlink d S) = None \<and>
      ransomware_unlink (fst (check_write_new_then_unlink d S)) = ransomware_unlink S"
  using assms remove_last_snoc [of hist "\<lambda>(ts, p). pairs_create_and_unlink ts p (delete_ts d) (file_delete_path d)"]
  by (simp_all add: paired_def check_write_new_then_unlink_def Let_def case_prod_beta bm_get_mut_eq_get)

lemma create_pairs:
  assumes "bm_peek (pending_unlinks U) pid = Some (hist @ [(delete_ts d, file_delete_path d)])"
    and "\<forall>(ts, p) \<in> set hist. \<not> pairs_create_and_unlink (open_ts f) (file_open_path f) ts p"
    and "creates_file f" and "m_pid (file_open_meta f) = pid"
  shows "paired f d \<Longrightarrow> record_create f U =
      count_create_unlink_pair (file_open_meta f) (delete_ts d) (file_delete_path d) (file_open_path f)
        (U\<lparr>pending_unlinks := bm_write (fst (bm_get (pending_unlinks U) pid)) pid hist\<rparr>)"
    and "\<not> paired f d \<Longrightarrow> snd (record_create f U) = None \<and> ransomware_unlink (fst (record_create f U)) = ransomware_unlink U"
  using assms remove_first_snoc [of hist "\<lambda>(ts, p). pairs_create_and_unlink (open_ts f) (file_open_path f) ts p"]
  by (simp_all add: paired_def creates_file_def has_write_intent_def record_create_def Let_def case_prod_beta bm_get_mut_eq_get)

text \<open>
  C12: A file created under an extended name and the unlink of the original form one pair, counted
  the same and alerting the same, whichever event is processed first; what forms no pair changes
  no count in either order. The process may have any history of creations and unlinks, paired or
  not and full or not, as long as none of them is itself a partner of one of the two events: the
  theorem covers every pair of a burst, the alerting one included.
\<close>

theorem create_unlink_in_either_order:
  assumes "rs_ok st" and "no_other_partner st pid f d"
    and "creates_file f" and "is_unix (file_delete_meta d)"
    and "m_pid (file_open_meta f) = pid" and "m_pid (file_delete_meta d) = pid"
    and "m_comm (file_open_meta f) = m_comm (file_delete_meta d)"
    and "process_generation (file_open_meta f) = process_generation (file_delete_meta d)"
  shows "let (s1, a1) = record_create f st; (s2, a2) = check_write_new_then_unlink d s1;
      (t1, b1) = check_write_new_then_unlink d st; (t2, b2) = record_create f t1;
      counted = count_create_unlink_pair (file_delete_meta d) (delete_ts d) (file_delete_path d) (file_open_path f) st
    in a1 = None \<and> b1 = None \<and> a2 = b2 \<and> ransomware_unlink s2 = ransomware_unlink t2 \<and>
       a2 = (if paired f d then snd counted else None) \<and>
       ransomware_unlink s2 = (if paired f d then ransomware_unlink (fst counted) else ransomware_unlink st)"
proof -
  let ?counted = "count_create_unlink_pair (file_delete_meta d) (delete_ts d) (file_delete_path d) (file_open_path f) st"
  define S where "S = fst (record_create f st)"
  define U where "U = fst (check_write_new_then_unlink d st)"
  note c = create_remembered [OF assms(1-3,5), folded S_def]
  note u = unlink_remembered [OF assms(1,2,4,6), folded U_def]
  obtain hc where hc: "bm_peek (recent_creates S) pid = Some (hc @ [(open_ts f, file_open_path f)])"
      "set hc \<subseteq> set (history (recent_creates st) pid)"
    using c(2) push_capped_snoc by metis
  obtain hu where hu: "bm_peek (pending_unlinks U) pid = Some (hu @ [(delete_ts d, file_delete_path d)])"
      "set hu \<subseteq> set (history (pending_unlinks st) pid)"
    using u(2) push_capped_snoc by metis
  have alone: "\<forall>(ts, p) \<in> set hc. \<not> pairs_create_and_unlink ts p (delete_ts d) (file_delete_path d)"
      "\<forall>(ts, p) \<in> set hu. \<not> pairs_create_and_unlink (open_ts f) (file_open_path f) ts p"
    using assms(2) hc(2) hu(2) unfolding no_other_partner_def by blast+
  have first: "snd (check_write_new_then_unlink d S) = (if paired f d then snd ?counted else None)"
      "ransomware_unlink (fst (check_write_new_then_unlink d S)) =
        (if paired f d then ransomware_unlink (fst ?counted) else ransomware_unlink st)"
    using unlink_pairs [OF hc(1) alone(1) assms(4,6)] c(3,4)
      count_pair_meta [of "file_delete_meta d" "file_delete_meta d" "S\<lparr>recent_creates := bm_write (fst (bm_get (recent_creates S) pid)) pid hc\<rparr>" st]
    by auto
  have second: "snd (record_create f U) = (if paired f d then snd ?counted else None)"
      "ransomware_unlink (fst (record_create f U)) =
        (if paired f d then ransomware_unlink (fst ?counted) else ransomware_unlink st)"
    using create_pairs [OF hu(1) alone(2) assms(3,5)] u(3,4) assms(5-8)
      count_pair_meta [of "file_open_meta f" "file_delete_meta d" "U\<lparr>pending_unlinks := bm_write (fst (bm_get (pending_unlinks U) pid)) pid hu\<rparr>" st]
    by auto
  show ?thesis using c(1) u(1) first second by (simp add: S_def U_def Let_def case_prod_beta)
qed

definition sample_open :: file_open_event where
  "sample_open = \<lparr>file_open_meta = sample_meta, file_open_path = ''/home/a.docx.locked'', file_open_flags = O_CREAT\<rparr>"

definition sample_delete :: file_delete_event where
  "sample_delete = \<lparr>file_delete_meta = sample_meta\<lparr>m_timestamp_ns := 3000\<rparr>, file_delete_path = ''/home/a.docx''\<rparr>"

text \<open>
  A process in the middle of a burst: nineteen pairs are counted, a creation and an unlink of other
  files are still waiting for their partners.
\<close>

definition burst_state :: rule_state where
  "burst_state = rs_new
     \<lparr>recent_creates := bm_insert (recent_creates rs_new) 7 [(1500, ''/home/b.pdf.locked'')],
      pending_unlinks := bm_insert (pending_unlinks rs_new) 7 [(1600, ''/home/c.txt'')],
      ransomware_unlink := bm_insert (ransomware_unlink rs_new) 7 \<lparr>timestamps = replicate 19 1000, sc_last_alert_ns = None\<rparr>\<rparr>"

lemma burst_state_ok: "rs_ok burst_state"
  unfolding burst_state_def
  by (intro store_rules rs_new_ok) (simp_all add: counter_ok_def)

theorem create_unlink_in_either_order_witness:
  "snd (check_write_new_then_unlink sample_delete (fst (record_create sample_open burst_state))) \<noteq> None \<and>
   snd (record_create sample_open (fst (check_write_new_then_unlink sample_delete burst_state))) =
   snd (check_write_new_then_unlink sample_delete (fst (record_create sample_open burst_state)))"
proof -
  have pair: "paired sample_open sample_delete" "no_other_partner burst_state 7 sample_open sample_delete" "creates_file sample_open"
    by code_simp+
  have alert: "snd (count_create_unlink_pair (file_delete_meta sample_delete) (delete_ts sample_delete)
      (file_delete_path sample_delete) (file_open_path sample_open) burst_state) \<noteq> None"
    by code_simp
  have meta: "is_unix (file_delete_meta sample_delete)" "m_pid (file_open_meta sample_open) = 7"
      "m_pid (file_delete_meta sample_delete) = 7" "m_comm (file_open_meta sample_open) = m_comm (file_delete_meta sample_delete)"
      "process_generation (file_open_meta sample_open) = process_generation (file_delete_meta sample_delete)"
    by (simp_all add: sample_open_def sample_delete_def sample_meta_def is_unix_def)
  show ?thesis
    using create_unlink_in_either_order [OF burst_state_ok pair(2,3) meta, unfolded Let_def case_prod_beta] pair(1) alert
    by argo
qed

subsection \<open>One alert per download mark\<close>

text \<open>A key whose mark is gone or has alerted; only a new mark changes that.\<close>

definition spent :: "rule_state \<Rightarrow> string \<Rightarrow> bool" where
  "spent st key \<longleftrightarrow> (case bm_peek (recent_quarantines st) key of None \<Rightarrow> True | Some mark \<Rightarrow> rq_alerted mark)"

fun marks_again :: "rule_host \<Rightarrow> string \<Rightarrow> event \<Rightarrow> bool" where
  "marks_again h key (FileQuarantine q) = (to_lowercase h (file_quarantine_path q) = key)"
| "marks_again h key _ = False"

lemma spent_no_alert: "spent st (to_lowercase h (exec_image_path e)) \<Longrightarrow> snd (check_quarantined_exec h st e) = None"
  by (auto simp: spent_def check_quarantined_exec_def Let_def case_prod_beta bm_get_mut_eq_get split: option.splits)

lemma spent_exec_check: "spent st key \<Longrightarrow> spent (fst (check_quarantined_exec h st e)) key"
  by (auto simp: spent_def check_quarantined_exec_def Let_def case_prod_beta bm_get_mut_eq_get bm_peek_write split: option.splits)

lemma spent_after_alert:
  "snd (check_quarantined_exec h st e) \<noteq> None \<Longrightarrow> spent (fst (check_quarantined_exec h st e)) (to_lowercase h (exec_image_path e))"
  by (auto simp: spent_def check_quarantined_exec_def Let_def case_prod_beta bm_get_mut_eq_get bm_peek_write split: option.splits)

lemma quarantines_frame [simp]:
  "recent_quarantines (fst (check_self_spawn st e)) = recent_quarantines st"
  "recent_quarantines (fst (check_memfd_exec st e)) = recent_quarantines st"
  "recent_quarantines (fst (on_memfd_create mc st)) = recent_quarantines st"
  "recent_quarantines (fst (record_beacon p c a dp ts st)) = recent_quarantines st"
  "recent_quarantines (fst (check_scan_spread ce st)) = recent_quarantines st"
  "recent_quarantines (fst (on_listen_port lp st)) = recent_quarantines st"
  "recent_quarantines (fst (on_auth ae st)) = recent_quarantines st"
  "recent_quarantines (fst (check_task_registration f st)) = recent_quarantines st"
  "recent_quarantines (record_downloader_write f st) = recent_quarantines st"
  "recent_quarantines (fst (check_mass_rename_pattern r st)) = recent_quarantines st"
  "recent_quarantines (fst (check_burst_write_volume r st)) = recent_quarantines st"
  "recent_quarantines (on_file_write w st) = recent_quarantines st"
  "recent_quarantines (fst (count_create_unlink_pair mt ts d cr' st)) = recent_quarantines st"
  by (simp_all add: check_self_spawn_def check_memfd_exec_def on_memfd_create_def record_beacon_def check_scan_spread_def
      on_listen_port_def check_listen_port_drift_def on_auth_def check_task_registration_def record_downloader_write_def
      check_mass_rename_pattern_def check_burst_write_volume_def on_file_write_def count_create_unlink_pair_def
      Let_def case_prod_beta split: option.split)

lemma quarantines_frame_pairs [simp]:
  "recent_quarantines (fst (record_create f st)) = recent_quarantines st"
  "recent_quarantines (fst (check_write_new_then_unlink d st)) = recent_quarantines st"
  "recent_quarantines (fst (check_beacon ce st)) = recent_quarantines st"
  "recent_quarantines (fst (check_beacon_flow nf st)) = recent_quarantines st"
  by (simp_all add: record_create_def check_write_new_then_unlink_def check_beacon_def check_beacon_flow_def
      Let_def case_prod_beta split: option.split)

lemma spent_cong: "recent_quarantines st = recent_quarantines st' \<Longrightarrow> spent st key = spent st' key"
  by (simp add: spent_def)

lemma quarantines_on_exec: "recent_quarantines (fst (on_exec h e st)) = recent_quarantines (fst (check_quarantined_exec h st e))"
  by (simp add: on_exec_def Let_def case_prod_beta)

lemma other_mark:
  assumes "bm_wf m" and "key \<noteq> k" and "case bm_peek m key of None \<Rightarrow> True | Some x \<Rightarrow> P x"
  shows "case bm_peek (bm_insert m k v) key of None \<Rightarrow> True | Some x \<Rightarrow> P x"
  using bm.look_ins_other [OF assms(1,2), of v] assms(3) by (elim disjE) simp_all

lemma spent_step:
  assumes "rs_ok st" and "spent st key" and "\<not> marks_again h key ev"
  shows "spent (fst (rule_step h ev st)) key"
proof (cases ev)
  case (Exec e)
  then show ?thesis using spent_exec_check [OF assms(2)] spent_cong [OF quarantines_on_exec] by simp
next
  case (FileQuarantine q)
  have "bm_wf (recent_quarantines st)" using rs_ok_tables(4) [OF assms(1)] by (simp add: store_ok_def)
  then show ?thesis
    using assms(2,3) FileQuarantine by (simp add: spent_def on_file_quarantine_def) (rule other_mark; blast)
qed (use assms(2) in \<open>simp_all add: spent_def on_file_open_def on_connect_def on_network_flow_def on_file_delete_def
      on_file_rename_def Let_def case_prod_beta\<close>)

lemma spent_run: "rs_ok st \<Longrightarrow> spent st key \<Longrightarrow> list_all (\<lambda>ev. \<not> marks_again h key ev) evs \<Longrightarrow> spent (fst (rule_run h evs st)) key"
  by (induction evs arbitrary: st) (auto simp: Let_def case_prod_beta rule_step_ok spent_step)

text \<open>
  C37: One alert per download mark. Once the execution of a marked file has raised T1204.002, no
  later execution of the same path raises it again, whatever events come in between, as long as
  none of them marks the path anew.
\<close>

theorem one_alert_per_download_mark:
  assumes "rs_ok st" and "snd (check_quarantined_exec h st e) \<noteq> None"
    and "list_all (\<lambda>ev. \<not> marks_again h (to_lowercase h (exec_image_path e)) ev) evs"
    and "to_lowercase h (exec_image_path e') = to_lowercase h (exec_image_path e)"
  shows "snd (check_quarantined_exec h (fst (rule_run h (Exec e # evs) st)) e') = None"
proof -
  have "spent (fst (on_exec h e st)) (to_lowercase h (exec_image_path e))"
    using spent_after_alert [OF assms(2)] spent_cong [OF quarantines_on_exec] by blast
  then have "spent (fst (rule_run h (Exec e # evs) st)) (to_lowercase h (exec_image_path e))"
    using spent_run [OF on_exec_ok [OF assms(1)] _ assms(3)] by (simp add: Let_def case_prod_beta)
  then show ?thesis using assms(4) by (intro spent_no_alert) simp
qed

definition sample_mark :: file_quarantine_event where
  "sample_mark = \<lparr>file_quarantine_meta = sample_meta, file_quarantine_path = ''/home/u/Setup.bin'', file_quarantine_agent = None,
     file_quarantine_origin_url = None, file_quarantine_referrer_url = None\<rparr>"

definition sample_run :: exec_event where
  "sample_run = sample_exec\<lparr>exec_image_path := ''/home/u/Setup.bin''\<rparr>"

theorem one_alert_per_download_mark_witness:
  "snd (check_quarantined_exec sample_host (on_file_quarantine sample_host sample_mark rs_new) sample_run) \<noteq> None \<and>
   snd (check_quarantined_exec sample_host (fst (rule_run sample_host [Exec sample_run] (on_file_quarantine sample_host sample_mark rs_new))) sample_run) = None"
proof -
  let ?st = "on_file_quarantine sample_host sample_mark rs_new"
  have wf: "bm_wf (recent_quarantines rs_new)" using rs_ok_tables(4) [OF rs_new_ok] by (simp add: store_ok_def)
  have "snd (check_quarantined_exec sample_host ?st sample_run) \<noteq> None"
    by (simp add: check_quarantined_exec_def on_file_quarantine_def sample_mark_def sample_run_def sample_exec_def sample_meta_def
        Let_def case_prod_beta bm_get_mut_eq_get bm.look_ins_same [OF wf])
  then show ?thesis
    using one_alert_per_download_mark [of ?st sample_host sample_run "[]" sample_run] on_file_quarantine_ok [OF rs_new_ok] by simp
qed

subsection \<open>Names and incarnations\<close>

lemma fact_after_exec:
  assumes "rs_ok st" and "process_generation (exec_meta e) = Some g"
  shows "fact_current (pid_comm (fst (on_exec h e st))) (m_pid (exec_meta e)) (Some g') = (if g' = g then Some (m_comm (exec_meta e)) else None)"
    and "fact_current (pid_image_path (fst (on_exec h e st))) (m_pid (exec_meta e)) (Some g') = (if g' = g then Some (exec_image_path e) else None)"
proof -
  let ?st = "fst (check_memfd_exec (fst (check_self_spawn (fst (check_quarantined_exec h st e)) e)) e)"
  have "rs_ok ?st" using assms(1) by (simp add: store_rules)
  then have wf: "bm_wf (pid_comm ?st)" "bm_wf (pid_image_path ?st)" using rs_ok_tables(1,2) by (auto simp: store_ok_def)
  show "fact_current (pid_comm (fst (on_exec h e st))) (m_pid (exec_meta e)) (Some g') = (if g' = g then Some (m_comm (exec_meta e)) else None)"
    and "fact_current (pid_image_path (fst (on_exec h e st))) (m_pid (exec_meta e)) (Some g') = (if g' = g then Some (exec_image_path e) else None)"
    using assms(2) wf by (simp_all add: on_exec_def fact_current_def Let_def case_prod_beta bm.look_ins_same)
qed

text \<open>
  C38: After an execution, the name the rules know for the process and the exclusion of compression
  tools are those of that incarnation of the pid: an event of another incarnation falls back to the
  live process table and is never excluded, and an event of the same one is excluded only if the
  image it executed is at a trusted path and is called what the process calls itself.
\<close>

theorem exclusions_follow_the_incarnation:
  assumes "rs_ok st" and "process_generation (exec_meta e) = Some g"
    and "m_pid mt = m_pid (exec_meta e)" and "process_generation mt = Some g'"
  shows "resolve_comm h (fst (on_exec h e st)) (m_pid mt) (Some g') =
      (if g' = g then Some (m_comm (exec_meta e)) else map_option trim_end (proc_comm h (m_pid mt))) \<and>
    (is_compressor (fst (on_exec h e st)) mt \<longleftrightarrow>
      g' = g \<and> m_comm mt \<in> set COMPRESSOR_COMMS \<and> exec_image_path e \<noteq> [] \<and>
      name_exclusion_applies (Some (exec_image_path e)) \<and> written_file_is (exec_image_path e) (m_comm mt))"
proof -
  note known = fact_after_exec [OF assms(1,2), of h g', folded assms(3)]
  have "runs_trusted_binary_named (fst (on_exec h e st)) mt \<longleftrightarrow> g' = g \<and> exec_image_path e \<noteq> [] \<and>
      name_exclusion_applies (Some (exec_image_path e)) \<and> written_file_is (exec_image_path e) (m_comm mt)"
    using known(2) assms(4) by (simp add: runs_trusted_binary_named_def)
  then show ?thesis using known(1) by (auto simp only: is_compressor_def resolve_comm_def option.case split: if_splits)
qed

theorem exclusions_follow_the_incarnation_witness:
  "resolve_comm sample_host (fst (on_exec sample_host sample_run rs_new)) 7 (Some 9) = None \<and>
   \<not> is_compressor (fst (on_exec sample_host sample_run rs_new)) (sample_meta\<lparr>process_generation := Some 9, m_comm := ''gzip''\<rparr>)"
  using exclusions_follow_the_incarnation
      [of rs_new sample_run 3 "sample_meta\<lparr>process_generation := Some 9, m_comm := ''gzip''\<rparr>" 9 sample_host] rs_new_ok
  by (simp add: sample_run_def sample_exec_def sample_meta_def sample_host_def)

subsection \<open>Preloaded libraries\<close>

text \<open>Only the first of the two variables is judged: a trusted one hides what follows it.\<close>

lemma trusted_preload_hides_audit:
  "all_paths_trusted v extra \<Longrightarrow>
   check_ld_preload_hijack (e\<lparr>exec_env_security := (''LD_PRELOAD'', v) # rest\<rparr>) extra = None"
  by (simp add: check_ld_preload_hijack_def)

text \<open>An entry that does not start with a slash is trusted, whatever directories it climbs through.\<close>

lemma relative_preload_trusted: "all_paths_trusted ''../../tmp/evil.so'' []"
  by code_simp

end
