(* ===== verification/Spec2Isabelle.thy ===== *)
theory Spec2Isabelle
  imports UploadContract Verdict Sliding CorrProps IpcFrame Tamper Release Supervise RuleProps
begin

text \<open>
  Verification of the Synthaea endpoint agent (the Rust crates under \<open>src/crates\<close>, with parts of
  \<open>src/agent\<close> and \<open>src/watchdog\<close>).

  \<^bold>\<open>The program.\<close> Sensors turn what happens on a host into the events of \<open>crates/schema\<close>. The
  agent hands every event to the rules (\<open>crates/rules\<close>) and to the correlator
  (\<open>crates/correlator\<close>); their findings are fused into one verdict per parent process
  (\<open>crates/verdict\<close>). Events are spooled on disk (\<open>crates/store\<close>) and uploaded
  (\<open>crates/transport\<close>). The command \<open>apply-release\<close> (\<open>agent/src/release.rs\<close>) fetches, verifies
  and promotes a new release with the help of \<open>crates/updater\<close>; the watchdog starts the agent
  again when it ends or hangs, and rolls a promoted release back when it never shows progress.
  \<open>crates/tamper\<close> watches the sensors and the installed files, \<open>crates/ipc\<close> frames the
  messages of the local console.

  \<^bold>\<open>How it is modelled.\<close> A struct is a record, an enum a datatype, a method a function that
  takes the record and returns it updated; a panic is the value \<open>None\<close>, an error the left
  summand. Strings are byte lists. Clock readings, process tables, network answers, file
  contents and random suffixes are arguments; JSON, SHA-256, Ed25519 and Unicode lower case are
  parameters, with what is relied on as named hypotheses (\<open>codec_ok\<close> of the spool, the laws of the
  signing key and of the frame codec), each discharged for a concrete instance in a witness.
  Calls to the file system are programs over an explicit disk (\<open>FileSys\<close>) with symbolic links;
  an argument \<open>fl\<close> decides which call fails and what a failed call leaves behind, so a theorem for
  all \<open>fl\<close> covers every crash point between two calls.

  \<^bold>\<open>Foundations.\<close>
  \<^item> \<open>Prelude\<close>, \<open>Decimal\<close>, \<open>Display\<close>: the standard library's integers, string methods, decimal
    conversion, lines and UTF-8 characters, with the generic lemmas.
  \<^item> \<open>Events\<close>, \<open>Schema\<close>: the event and detection types (\<open>schema/src/lib.rs\<close>, \<open>detection.rs\<close>).
  \<^item> \<open>Bounded\<close>, \<open>Recency\<close>: the LRU map of \<open>store/src/bounded.rs\<close>. The locale \<open>lru_store\<close> is the
    contract its clients use (look-up after insert, get, write, remove; size within the
    capacity); the interpretation \<open>bm\<close> proves it for the map. An insertion into a full map evicts
    exactly the batch of least recently used entries.
  \<^item> \<open>FileSys\<close>, \<open>FileArea\<close>: the disk, its calls, and Hoare triples whose rules confine a program
    to a directory without links.

  \<^bold>\<open>Telemetry.\<close>
  \<^item> \<open>Spool\<close>, \<open>SpoolLedger\<close>: the two-phase spool of \<open>store/src/spool.rs\<close> over a directory of
    segment files. A client's run is any sequence of pushes, drains, acknowledgements, skips and
    crash recoveries; nothing is lost without being counted, drains return the oldest records and
    repeat until acknowledged, the byte cap drops only the oldest.
  \<^item> \<open>Transport\<close>, \<open>UploadContract\<close>: requests, error classes, retry counters and the upload loop
    (\<open>transport/src\<close>, \<open>agent/src/upload.rs\<close>). The locale \<open>event_drain\<close> is what the uploader needs
    of a spool; the interpretation \<open>sp\<close> gives it for the spool. For every server, an event that
    left the spool was in a batch answered with success or is counted as dropped; the loop makes
    progress on a spool its own operations wrote, and a segment with no parseable line wedges it.

  \<^bold>\<open>Detection.\<close>
  \<^item> \<open>Sliding\<close>: the four sliding windows of \<open>rules/src/sliding.rs\<close>, exact against the history.
  \<^item> \<open>RulePaths\<close>, \<open>RuleState\<close>, \<open>RuleFiles\<close>: the stateful rules of \<open>rules/src/state.rs\<close> with the
    calibration of \<open>exclusions.rs\<close>; \<open>rule_step\<close> dispatches an event to its handler. \<open>RuleBound\<close>:
    every table and every entry is bounded, whatever the events. \<open>RuleProps\<close>: what the rules
    detect, in either order of two ring buffers, and the exclusions that cannot be borrowed.
  \<^item> \<open>LdTrust\<close>: the dynamic linker's trust set (\<open>rules/src/ld_trust.rs\<close>); the wildcard match is a
    \<open>partial_function\<close> proved to return and to decide the pattern.
  \<^item> \<open>Policy\<close>, \<open>EventBus\<close>, \<open>CorrRules\<close>, \<open>Behavior\<close>, \<open>CorrEngine\<close>: the masquerade helpers, the
    window of events, the co-occurrence rules, the behaviour vector with its Bayes filter, and
    the engine (\<open>policy/src/lib.rs\<close>, \<open>correlator/src\<close>). \<open>CorrContract\<close>, \<open>CorrProps\<close>: no event
    panics the engine, its tables are bounded, satisfied rules alert once per window, and an
    ignored name silences exactly the processes that are not marked as borrowing it.
  \<^item> \<open>Verdict\<close>: verdict fusion (\<open>verdict/src/lib.rs\<close>), bounded and isolated by incarnation.

  \<^bold>\<open>Updates and supervision.\<close>
  \<^item> \<open>Updater\<close>, \<open>FsUtil\<close>, \<open>Layout\<close>, \<open>Rollback\<close>: manifests, hexadecimal, path checks, ban list,
    atomic writes, the versioned layout and the roll back of \<open>updater/src\<close>. \<open>Release\<close>: the command
    \<open>apply-release\<close>. Under every failing call the link \<open>current\<close> is old or new, moves only to a
    verified release, and writes stay below their root.
  \<^item> \<open>Watchdog\<close>, \<open>Probation\<close>, \<open>Supervise\<close>: restart delays, heartbeat monitor, service definition,
    probation and the supervision loop of \<open>watchdog/src\<close>. The loop runs over a list of
    observations, one for each time the code looks outside; a run that needs more observations
    than there are is \<open>None\<close>. It stops when told to, runs one agent at a time, and rolls back only
    an expired probation.
  \<^item> \<open>Tamper\<close>, \<open>IpcFrame\<close>: silence monitor and integrity manifest, JSON-lines framing.

  \<^bold>\<open>Bounds and fuel.\<close> No model needs fuel chosen by hand: loops are structural or carry a
  termination proof (the walk of a path by the forty links the kernel allows and the components
  left, the frame reader by the reads left, the supervision by the observations left). Counters
  of 64 bits are natural numbers; where a sum saturates or wraps in the source it does here
  (\<open>sat_add\<close>, the pause of the supervisor), and the spool's theorems assume fewer operations than
  64 bits count. Capacities and thresholds have the values of the source.

  \<^bold>\<open>Simplifications.\<close> Log odds, features and scores are real numbers: no rounding, infinity or
  NaN. The eviction and tick counters of the LRU map do not wrap. \<open>entry_or\<close> gives the default
  where the source's \<open>expect\<close> would panic; on a well-formed map, which every reachable state has,
  that case does not arise (\<open>bm.goi_result\<close>). The spool's I/O fails only on missing files, its
  writes are whole and its content is UTF-8. Permission bits and file times are not part of the
  disk. Relaxed atomics are single steps. Log output is left out; the messages of alerts and
  reports are kept. Definitions for closures and for standard-library calls inside a mapped
  function have no source lines of their own.

  \<^bold>\<open>Not modelled.\<close> The sensors (kernel probes, sockets and platform bindings) and the agent's
  threads, which produce the events and call the components above; the stateless rules, Sigma,
  YARA and the trained models, which judge single events; configuration, policy documents, the
  IPC server and client, enrichment and response, which are I/O around data types; the command
  lines, the services of macOS and Windows, the server, and the training code.
\<close>

end
